(* ===== verification/Go_Prelude.thy ===== *)
theory Go_Prelude
  imports Main "HOL-Library.Word" "HOL-Library.Signed_Division"
begin

text \<open>
  The parts of the Go language and of its standard library that the modelled code uses.
  \<^item> \<open>int64\<close> values are mathematical integers; every addition, subtraction and
    multiplication of the code that the source does not guard is written with \<open>wrap64\<close>,
    two's complement wrap-around at 64 bits. Division is Go's, which truncates towards zero
    (\<open>sdiv\<close>, \<open>smod\<close>). \<open>uint64\<close> values are \<open>64 word\<close>.
  \<^item> Strings are byte strings over ASCII: \<open>TrimSpace\<close>, \<open>ToUpper\<close> and
    \<open>ToLower\<close> are Go's functions on ASCII text.
  \<^item> \<open>itoa\<close> is \<open>strconv.AppendInt\<close> in base 10 (and the verb \<open>%d\<close>),
    \<open>ParseInt\<close> is \<open>strconv.ParseInt(s, 10, 64)\<close> with an error as \<open>None\<close>.
\<close>

named_theorems wrap_simps \<open>removal of the 64-bit wrap-around inside the int64 range\<close>
named_theorems str_simps \<open>facts on trimming, case mapping and decimal numerals\<close>

section \<open>Machine integers\<close>

type_synonym i64 = int
type_synonym u64 = "64 word"

abbreviation MaxInt64 :: int where
  "MaxInt64 \<equiv> 9223372036854775807"

definition in_int64 :: "int \<Rightarrow> bool" where
  "in_int64 x \<longleftrightarrow> - 9223372036854775808 \<le> x \<and> x \<le> MaxInt64"

definition wrap64 :: "int \<Rightarrow> int" where
  "wrap64 x = (x + 9223372036854775808) mod 18446744073709551616 - 9223372036854775808"

lemma wrap64_id [wrap_simps]:
  "- 9223372036854775808 \<le> x \<Longrightarrow> x \<le> MaxInt64 \<Longrightarrow> wrap64 x = x"
  by (simp add: wrap64_def)

lemma wrap64_in_int64: "in_int64 (wrap64 x)"
proof -
  have "0 \<le> (x + 9223372036854775808) mod 18446744073709551616"
    and "(x + 9223372036854775808) mod 18446744073709551616 < 18446744073709551616"
    by simp_all
  then show ?thesis by (simp add: in_int64_def wrap64_def)
qed

lemma wrap64_eq_iff: "wrap64 x = wrap64 y \<longleftrightarrow> x mod 18446744073709551616 = y mod 18446744073709551616"
  unfolding wrap64_def by (auto simp: mod_eq_dvd_iff)

lemma wrap64_wrap64_add [simp]: "wrap64 (wrap64 x + y) = wrap64 (x + y)"
  unfolding wrap64_def by (simp add: mod_simps algebra_simps)

lemma wrap64_add_wrap64 [simp]: "wrap64 (x + wrap64 y) = wrap64 (x + y)"
  using wrap64_wrap64_add [of y x] by (simp add: add.commute)

lemma wrap64_wrap64_diff [simp]: "wrap64 (wrap64 x - y) = wrap64 (x - y)"
  using wrap64_wrap64_add [of x "- y"] by simp

lemma wrap64_wrap64 [simp]: "wrap64 (wrap64 x) = wrap64 x"
  using wrap64_wrap64_add [of x 0] by simp

text \<open>Go's guard \<open>a > math.MaxInt64/b\<close> before a product of positive factors.\<close>

lemma mul_guard_iff:
  fixes a b :: int
  assumes "0 < b"
  shows "MaxInt64 sdiv b < a \<longleftrightarrow> MaxInt64 < a * b"
proof -
  have "MaxInt64 sdiv b = MaxInt64 div b"
    using assms by (simp add: signed_divide_int_def)
  moreover have "a \<le> MaxInt64 div b \<longleftrightarrow> a * b \<le> MaxInt64"
  proof
    assume "a \<le> MaxInt64 div b"
    then have "a * b \<le> MaxInt64 div b * b"
      using assms by (simp add: mult_right_mono)
    also have "\<dots> \<le> MaxInt64"
      using assms by (simp add: minus_mod_eq_div_mult [symmetric])
    finally show "a * b \<le> MaxInt64" .
  next
    assume "a * b \<le> MaxInt64"
    then have "a * b div b \<le> MaxInt64 div b"
      using assms by (rule zdiv_mono1)
    then show "a \<le> MaxInt64 div b"
      using assms by simp
  qed
  ultimately show ?thesis by linarith
qed

lemma mul_guard_wrap:
  fixes a b :: int
  assumes "0 < b" and "0 \<le> a" and "\<not> MaxInt64 sdiv b < a"
  shows "wrap64 (a * b) = a * b"
proof -
  have "0 \<le> a * b" and "a * b \<le> MaxInt64"
    using assms by (simp_all add: mul_guard_iff)
  then show ?thesis by (simp add: wrap64_id)
qed

lemma sdiv_nonneg: "0 \<le> (a::int) \<Longrightarrow> 0 < b \<Longrightarrow> a sdiv b = a div b"
  by (cases "a = 0") (simp_all add: signed_divide_int_def)

lemma smod_nonneg: "0 \<le> (a::int) \<Longrightarrow> 0 < b \<Longrightarrow> a smod b = a mod b"
  by (cases "a = 0") (simp_all add: signed_modulo_int_def)

section \<open>Strings\<close>

definition is_space :: "char \<Rightarrow> bool" where
  "is_space c \<longleftrightarrow> (of_char c :: nat) \<in> {9, 10, 11, 12, 13, 32}"

definition TrimSpace :: "string \<Rightarrow> string" where
  "TrimSpace s = rev (dropWhile is_space (rev (dropWhile is_space s)))"

definition upper_char :: "char \<Rightarrow> char" where
  "upper_char c = (let n = of_char c :: nat in if 97 \<le> n \<and> n \<le> 122 then char_of (n - 32) else c)"

definition lower_char :: "char \<Rightarrow> char" where
  "lower_char c = (let n = of_char c :: nat in if 65 \<le> n \<and> n \<le> 90 then char_of (n + 32) else c)"

definition ToUpper :: "string \<Rightarrow> string" where
  "ToUpper s = map upper_char s"

definition ToLower :: "string \<Rightarrow> string" where
  "ToLower s = map lower_char s"

text \<open>The composition the code applies to assets, outcomes, sides and statuses.\<close>

definition normU :: "string \<Rightarrow> string" where
  "normU s = ToUpper (TrimSpace s)"

lemma is_space_upper [simp]: "is_space (upper_char c) = is_space c"
  by (auto simp: is_space_def upper_char_def Let_def)

lemma is_space_lower [simp]: "is_space (lower_char c) = is_space c"
  by (auto simp: is_space_def lower_char_def Let_def)

lemma upper_upper [simp]: "upper_char (upper_char c) = upper_char c"
  by (auto simp: upper_char_def Let_def)

lemma lower_lower [simp]: "lower_char (lower_char c) = lower_char c"
  by (auto simp: lower_char_def Let_def)

lemma ToUpper_Nil [simp]: "ToUpper [] = []"
  and ToUpper_eq_Nil [simp]: "ToUpper s = [] \<longleftrightarrow> s = []"
  and ToLower_Nil [simp]: "ToLower [] = []"
  and ToLower_eq_Nil [simp]: "ToLower s = [] \<longleftrightarrow> s = []"
  by (simp_all add: ToUpper_def ToLower_def)

lemma ToUpper_idem [simp]: "ToUpper (ToUpper s) = ToUpper s"
  by (simp add: ToUpper_def)

lemma dropWhile_dropWhile [simp]: "dropWhile P (dropWhile P xs) = dropWhile P xs"
  by (induction xs) auto

lemma dropWhile_rev_dropWhile:
  "dropWhile P (rev (dropWhile P (rev (dropWhile P xs)))) = rev (dropWhile P (rev (dropWhile P xs)))"
proof -
  let ?m = "dropWhile P xs"
  have "?m = [] \<or> \<not> P (hd ?m)"
    by (metis hd_dropWhile)
  then have "dropWhile P (rev (dropWhile P (rev ?m))) = rev (dropWhile P (rev ?m))"
  proof
    assume "?m = []"
    then show ?thesis by (simp only: rev.simps dropWhile.simps)
  next
    assume h: "\<not> P (hd ?m)"
    obtain zs where z: "?m = rev (dropWhile P (rev ?m)) @ zs"
      by (metis rev_append rev_rev_ident takeWhile_dropWhile_id)
    show ?thesis
    proof (cases "rev (dropWhile P (rev ?m))")
      case Nil
      show ?thesis unfolding Nil by simp
    next
      case (Cons y ys)
      with z have "hd ?m = y" by (metis append_Cons list.sel(1))
      with h Cons show ?thesis by simp
    qed
  qed
  then show ?thesis by simp
qed

lemma TrimSpace_idem [simp]: "TrimSpace (TrimSpace s) = TrimSpace s"
  by (simp add: TrimSpace_def dropWhile_rev_dropWhile)

lemma TrimSpace_map:
  assumes "\<And>c. is_space (f c) = is_space c"
  shows "TrimSpace (map f s) = map f (TrimSpace s)"
  by (simp add: TrimSpace_def dropWhile_map rev_map comp_def assms)

lemma TrimSpace_ToUpper: "TrimSpace (ToUpper s) = ToUpper (TrimSpace s)"
  by (simp add: ToUpper_def TrimSpace_map)

lemma TrimSpace_Nil [simp]: "TrimSpace [] = []"
  by (simp add: TrimSpace_def)

lemma normU_idem [simp]: "normU (normU s) = normU s"
  by (simp add: normU_def TrimSpace_ToUpper)

lemma TrimSpace_normU [simp]: "TrimSpace (normU s) = normU s"
  by (simp add: normU_def TrimSpace_ToUpper)

lemma ToUpper_normU [simp]: "ToUpper (normU s) = normU s"
  by (simp add: normU_def)

lemma normU_eq_Nil: "normU s = [] \<longleftrightarrow> TrimSpace s = []"
  by (simp add: normU_def)

text \<open>A text with no blank at either end is left alone.\<close>

lemma TrimSpace_id:
  assumes "s \<noteq> [] \<Longrightarrow> \<not> is_space (hd s)" and "s \<noteq> [] \<Longrightarrow> \<not> is_space (last s)"
  shows "TrimSpace s = s"
proof (cases s)
  case Nil
  then show ?thesis by simp
next
  case (Cons a xs)
  with assms have "dropWhile is_space s = s" by simp
  moreover have "dropWhile is_space (rev s) = rev s"
    using assms Cons by (cases "rev s") (simp_all add: last_rev hd_rev [symmetric])
  ultimately show ?thesis by (simp add: TrimSpace_def)
qed

lemma TrimSpace_ends:
  assumes "TrimSpace s \<noteq> []"
  shows "\<not> is_space (hd (TrimSpace s))" and "\<not> is_space (last (TrimSpace s))"
proof -
  let ?u = "rev (dropWhile is_space s)"
  have "dropWhile is_space ?u \<noteq> []"
    using assms by (simp add: TrimSpace_def)
  then have "\<not> is_space (hd (dropWhile is_space ?u))"
    by (rule hd_dropWhile)
  then show "\<not> is_space (last (TrimSpace s))"
    by (simp add: TrimSpace_def last_rev)
  have "dropWhile is_space (TrimSpace s) = TrimSpace s"
    by (simp add: TrimSpace_def dropWhile_rev_dropWhile)
  then show "\<not> is_space (hd (TrimSpace s))"
    using assms by (metis hd_dropWhile)
qed

section \<open>Decimal numerals\<close>

definition digit_char :: "nat \<Rightarrow> char" where
  "digit_char d = char_of (48 + d)"

definition is_digit :: "char \<Rightarrow> bool" where
  "is_digit c \<longleftrightarrow> 48 \<le> (of_char c :: nat) \<and> (of_char c :: nat) \<le> 57"

definition digit_val :: "char \<Rightarrow> nat" where
  "digit_val c = of_char c - 48"

fun utoa :: "nat \<Rightarrow> string" where
  "utoa n = (if n < 10 then [digit_char n] else utoa (n div 10) @ [digit_char (n mod 10)])"

declare utoa.simps [simp del]

definition itoa :: "int \<Rightarrow> string" where
  "itoa i = (if i < 0 then CHR ''-'' # utoa (nat (- i)) else utoa (nat i))"

fun digits_val :: "nat \<Rightarrow> string \<Rightarrow> nat" where
  "digits_val acc [] = acc"
| "digits_val acc (c # cs) = digits_val (10 * acc + digit_val c) cs"

definition ParseInt :: "string \<Rightarrow> int option" where
  "ParseInt s =
     (let neg = (s \<noteq> [] \<and> hd s = CHR ''-'');
          body = (if s \<noteq> [] \<and> (hd s = CHR ''-'' \<or> hd s = CHR ''+'') then tl s else s);
          v = int (digits_val 0 body);
          w = (if neg then - v else v)
      in if body = [] \<or> \<not> list_all is_digit body then None
         else if in_int64 w then Some w else None)"

lemma digit_char_facts [str_simps]:
  "d < 10 \<Longrightarrow> is_digit (digit_char d)" "d < 10 \<Longrightarrow> digit_val (digit_char d) = d"
  by (simp_all add: is_digit_def digit_val_def digit_char_def)

lemma utoa_nonempty [simp]: "utoa n \<noteq> []"
  by (subst utoa.simps) simp

lemma utoa_digits: "list_all is_digit (utoa n)"
proof (induction n rule: utoa.induct)
  case (1 n)
  then show ?case
    by (cases "n < 10") (simp_all add: utoa.simps [of n] str_simps)
qed

lemma digits_val_append: "digits_val acc (xs @ ys) = digits_val (digits_val acc xs) ys"
  by (induction xs arbitrary: acc) simp_all

lemma digits_val_utoa [str_simps]: "digits_val 0 (utoa n) = n"
proof (induction n rule: utoa.induct)
  case (1 n)
  then show ?case
    by (cases "n < 10") (simp_all add: utoa.simps [of n] digits_val_append str_simps)
qed

lemma inj_utoa: "utoa m = utoa n \<longleftrightarrow> m = n"
  by (metis digits_val_utoa)

lemma digit_not_special:
  "is_digit c \<Longrightarrow> c \<noteq> CHR ''-''" "is_digit c \<Longrightarrow> c \<noteq> CHR ''+''" "is_digit c \<Longrightarrow> c \<noteq> CHR '':''"
  "is_digit c \<Longrightarrow> \<not> is_space c"
  by (auto simp: is_digit_def is_space_def)

lemma utoa_hd: "is_digit (hd (utoa n))"
  using utoa_digits [of n] by (cases "utoa n") simp_all

lemma utoa_last: "is_digit (last (utoa n))"
  using utoa_digits [of n] by (simp add: list_all_iff)

lemma itoa_nonempty [simp]: "itoa i \<noteq> []"
  by (simp add: itoa_def)

lemma itoa_no_colon: "CHR '':'' \<notin> set (itoa i)"
  using utoa_digits by (auto simp: itoa_def list_all_iff dest: digit_not_special)

lemma itoa_hd_not_space: "\<not> is_space (hd (itoa i))"
proof (cases "i < 0")
  case True
  then show ?thesis by (simp add: itoa_def is_space_def)
next
  case False
  then show ?thesis
    using digit_not_special(4) [OF utoa_hd] by (simp add: itoa_def)
qed

lemma ParseInt_itoa:
  assumes "in_int64 i"
  shows "ParseInt (itoa i) = Some i"
proof (cases "i < 0")
  case True
  then show ?thesis
    using assms by (simp add: ParseInt_def itoa_def Let_def utoa_digits str_simps)
next
  case False
  have "hd (utoa (nat i)) \<noteq> CHR ''-''" "hd (utoa (nat i)) \<noteq> CHR ''+''"
    using digit_not_special(1,2) [OF utoa_hd] by blast+
  then show ?thesis
    using assms False by (simp add: ParseInt_def itoa_def Let_def utoa_digits str_simps)
qed

lemma inj_itoa: "itoa i = itoa j \<longleftrightarrow> i = j"
proof
  assume eq: "itoa i = itoa j"
  have hd: "hd (utoa n) \<noteq> CHR ''-''" for n
    using digit_not_special(1) [OF utoa_hd] by blast
  have "(i < 0) = (j < 0)"
    using eq hd by (auto simp: itoa_def split: if_splits) (metis list.sel(1))+
  then show "i = j"
    using eq by (auto simp: itoa_def inj_utoa split: if_splits)
qed simp

text \<open>A separator that does not occur in the first component makes a joined key injective.\<close>

lemma join_sep_inject:
  assumes "c \<notin> set xs" and "c \<notin> set xs'"
  shows "xs @ c # ys = xs' @ c # ys' \<longleftrightarrow> xs = xs' \<and> ys = ys'"
proof
  assume eq: "xs @ c # ys = xs' @ c # ys'"
  have "takeWhile (\<lambda>x. x \<noteq> c) (xs @ c # ys) = xs" "takeWhile (\<lambda>x. x \<noteq> c) (xs' @ c # ys') = xs'"
    using assms by (auto simp: takeWhile_append)
  with eq show "xs = xs' \<and> ys = ys'" by (metis append_same_eq list.inject same_append_eq)
qed simp

lemmas itoa_key_inject = join_sep_inject [OF itoa_no_colon itoa_no_colon, simplified inj_itoa]

end
