(* ===== verification/Match_Bitmap.thy ===== *)
theory Match_Bitmap
  imports Go_Prelude
begin

text \<open>
  The price bitmaps of \<open>matching/model/order_book_direct.go\<close>: one bit per price, 157
  words of 64 bits, and the scans for the best and for the next occupied price. A bitmap is the
  array \<open>[priceBitmapWords]uint64\<close>, a function of the word index; only the indices below
  157 are read. The methods' receivers hold two such arrays, one per side; here each scan takes
  the array it reads. \<open>TrailingZeros64\<close> and \<open>LeadingZeros64\<close> are those of Go's
  \<open>math/bits\<close>. The theorems show that the word-at-a-time scans find exactly the
  lowest or highest occupied price in their range.
\<close>

unbundle bit_operations_syntax

type_synonym bitmap = "nat \<Rightarrow> u64"

abbreviation maxPrice :: int where
  "maxPrice \<equiv> 10000"

abbreviation priceBitmapWords :: nat where
  "priceBitmapWords \<equiv> 157"

definition TrailingZeros64 :: "u64 \<Rightarrow> nat" where
  "TrailingZeros64 x = (case find (bit x) [0..<64] of Some i \<Rightarrow> i | None \<Rightarrow> 64)"

definition LeadingZeros64 :: "u64 \<Rightarrow> nat" where
  "LeadingZeros64 x = (case find (bit x) (rev [0..<64]) of Some i \<Rightarrow> 63 - i | None \<Rightarrow> 64)"

text \<open>Setting and clearing the bit of a price, and reading it.\<close>

definition set_bit_at :: "int \<Rightarrow> bitmap \<Rightarrow> bitmap" where
  "set_bit_at price bm =
     (let w = nat (price div 64) in bm(w := bm w OR push_bit (nat (price mod 64)) 1))"

definition clear_bit_at :: "int \<Rightarrow> bitmap \<Rightarrow> bitmap" where
  "clear_bit_at price bm =
     (let w = nat (price div 64) in bm(w := bm w AND NOT (push_bit (nat (price mod 64)) 1)))"

definition occupied :: "bitmap \<Rightarrow> int \<Rightarrow> bool" where
  "occupied bm price \<longleftrightarrow> 0 \<le> price \<and> bit (bm (nat (price div 64))) (nat (price mod 64))"

text \<open>\<open>scanBestAsk\<close> runs through the words upwards, \<open>scanBestBid\<close> downwards.\<close>

fun scanBestAsk_loop :: "bitmap \<Rightarrow> nat list \<Rightarrow> i64" where
  "scanBestAsk_loop bm [] = 0"
| "scanBestAsk_loop bm (w # ws) =
     (let word = (if w = 0 then bm w AND NOT 1 else bm w)
      in if word \<noteq> 0 then
           (let price = int (w * 64) + int (TrailingZeros64 word)
            in if price < maxPrice then price else scanBestAsk_loop bm ws)
         else scanBestAsk_loop bm ws)"

definition scanBestAsk :: "bitmap \<Rightarrow> i64" where
  "scanBestAsk bm = scanBestAsk_loop bm [0..<priceBitmapWords]"

fun scanBestBid_loop :: "bitmap \<Rightarrow> nat list \<Rightarrow> i64" where
  "scanBestBid_loop bm [] = 0"
| "scanBestBid_loop bm (w # ws) =
     (let word = bm w
      in if word \<noteq> 0 then
           (let price = int (w * 64) + (63 - int (LeadingZeros64 word))
            in if 1 \<le> price \<and> price < maxPrice then price else scanBestBid_loop bm ws)
         else scanBestBid_loop bm ws)"

definition scanBestBid :: "bitmap \<Rightarrow> i64" where
  "scanBestBid bm = scanBestBid_loop bm (rev [0..<priceBitmapWords])"

text \<open>
  The successor scans. A bucket pointer is the index of the bucket in its array; the argument is
  the price of a bucket, so it is never negative. \<open>word\<close> and \<open>masked\<close> are the loop
  variables.
\<close>

function next_ask_loop :: "bitmap \<Rightarrow> nat \<Rightarrow> u64 \<Rightarrow> int option" where
  "next_ask_loop bm word masked =
     (if word < priceBitmapWords then
        if masked \<noteq> 0 then
          (let price = int (word * 64) + int (TrailingZeros64 masked)
           in if maxPrice \<le> price then None else Some price)
        else next_ask_loop bm (word + 1)
               (if word + 1 < priceBitmapWords then bm (word + 1) else masked)
      else None)"
  by pat_completeness auto
termination by (relation "measure (\<lambda>(bm, word, masked). priceBitmapWords - word)") auto

definition NextAskBucket :: "bitmap \<Rightarrow> int \<Rightarrow> int option" where
  "NextAskBucket bm currentPrice =
     (let p = wrap64 (currentPrice + 1) in
      if maxPrice \<le> p then None
      else let word = nat (p div 64); bitp = nat (p mod 64);
               masked = push_bit bitp (drop_bit bitp (bm word))
           in next_ask_loop bm word masked)"

function next_bid_loop :: "bitmap \<Rightarrow> int \<Rightarrow> u64 \<Rightarrow> int option" where
  "next_bid_loop bm word masked =
     (if 0 \<le> word then
        if masked \<noteq> 0 then
          (let price = word * 64 + (63 - int (LeadingZeros64 masked))
           in if price < 1 then None else Some price)
        else next_bid_loop bm (word - 1)
               (if 0 \<le> word - 1 then bm (nat (word - 1)) else masked)
      else None)"
  by pat_completeness auto
termination by (relation "measure (\<lambda>(bm, word, masked). nat (word + 1))") auto

definition NextBidBucket :: "bitmap \<Rightarrow> int \<Rightarrow> int option" where
  "NextBidBucket bm currentPrice =
     (let p = wrap64 (currentPrice - 1) in
      if p < 1 then None
      else let word = p div 64; bitp = nat (p mod 64);
               masked = bm (nat word) AND (push_bit (bitp + 1) 1 - 1)
           in next_bid_loop bm word masked)"

declare next_ask_loop.simps [simp del] next_bid_loop.simps [simp del]

section \<open>Bits\<close>

lemma word64_eq_0_iff: "(x::u64) = 0 \<longleftrightarrow> (\<forall>i<64. \<not> bit x i)"
proof
  assume "\<forall>i<64. \<not> bit x i"
  then show "x = 0" by (intro bit_word_eqI) simp
qed simp

lemma find_upt_least:
  assumes "find P [0..<n] = Some i"
  shows "i < n" and "P i" and "\<And>j. j < i \<Longrightarrow> \<not> P j"
  using assms by (auto simp: find_Some_iff)

lemma find_rev_upt_greatest:
  assumes "find P (rev [0..<n]) = Some i"
  shows "i < n" and "P i" and "\<And>j. i < j \<Longrightarrow> j < n \<Longrightarrow> \<not> P j"
proof -
  obtain k where k: "k < n" "P (n - 1 - k)" "i = n - 1 - k" "\<forall>j<k. \<not> P (n - 1 - j)"
    using assms by (auto simp: find_Some_iff rev_nth)
  then show "i < n" and "P i" by auto
  fix j assume "i < j" "j < n"
  then have "n - 1 - j < k" and "j = n - 1 - (n - 1 - j)"
    using k by linarith+
  then show "\<not> P j" using k(4) by metis
qed

lemma TrailingZeros64_least:
  assumes "x \<noteq> 0"
  shows "TrailingZeros64 x < 64" and "bit x (TrailingZeros64 x)"
    and "\<And>j. j < TrailingZeros64 x \<Longrightarrow> \<not> bit x j"
proof -
  obtain i where i: "find (bit x) [0..<64] = Some i"
    using assms by (cases "find (bit x) [0..<64]") (auto simp: word64_eq_0_iff find_None_iff)
  then have "TrailingZeros64 x = i" by (simp add: TrailingZeros64_def)
  then show "TrailingZeros64 x < 64" "bit x (TrailingZeros64 x)"
    and "\<And>j. j < TrailingZeros64 x \<Longrightarrow> \<not> bit x j"
    using find_upt_least [OF i] by auto
qed

lemma LeadingZeros64_greatest:
  assumes "x \<noteq> 0"
  shows "LeadingZeros64 x < 64" and "bit x (63 - LeadingZeros64 x)"
    and "\<And>j. 63 - LeadingZeros64 x < j \<Longrightarrow> j < 64 \<Longrightarrow> \<not> bit x j"
proof -
  obtain i where i: "find (bit x) (rev [0..<64]) = Some i"
    using assms by (cases "find (bit x) (rev [0..<64])") (auto simp: word64_eq_0_iff find_None_iff)
  then have l: "LeadingZeros64 x = 63 - i" by (simp add: LeadingZeros64_def)
  moreover have "i < 64" by (rule find_rev_upt_greatest(1) [OF i])
  ultimately have "63 - LeadingZeros64 x = i" by simp
  then show "LeadingZeros64 x < 64" "bit x (63 - LeadingZeros64 x)"
    and "\<And>j. 63 - LeadingZeros64 x < j \<Longrightarrow> j < 64 \<Longrightarrow> \<not> bit x j"
    using find_rev_upt_greatest [OF i] l by auto
qed

text \<open>A price is a word index and a bit index.\<close>

definition price_of :: "nat \<Rightarrow> nat \<Rightarrow> int" where
  "price_of w b = int (w * 64) + int b"

lemma occupied_price_of: "b < 64 \<Longrightarrow> occupied bm (price_of w b) = bit (bm w) b"
  by (simp add: occupied_def price_of_def nat_add_distrib)

lemma price_of_div_mod: "0 \<le> (p::int) \<Longrightarrow> p = price_of (nat (p div 64)) (nat (p mod 64))"
  using pos_imp_zdiv_nonneg_iff [of 64 p] by (simp add: price_of_def)

lemma price_of_cases:
  assumes "0 \<le> (p::int)"
  obtains w b where "p = price_of w b" and "b < 64"
proof
  show "p = price_of (nat (p div 64)) (nat (p mod 64))" using assms by (rule price_of_div_mod)
qed simp

lemma price_of_split: "b < 64 \<Longrightarrow> nat (price_of w b div 64) = w \<and> nat (price_of w b mod 64) = b"
  by (simp add: price_of_def nat_add_distrib)

lemma price_of_less:
  "b < 64 \<Longrightarrow> b' < 64 \<Longrightarrow> price_of w b < price_of w' b' \<longleftrightarrow> w < w' \<or> w = w' \<and> b < b'"
  unfolding price_of_def by linarith

lemma price_of_eq:
  "b < 64 \<Longrightarrow> b' < 64 \<Longrightarrow> price_of w b = price_of w' b' \<longleftrightarrow> w = w' \<and> b = b'"
  using price_of_split [of b w] price_of_split [of b' w'] by auto

lemma occupied_nonneg: "occupied bm q \<Longrightarrow> 0 \<le> q"
  by (simp add: occupied_def)

lemma occupied_set_bit_at:
  assumes "0 \<le> p"
  shows "occupied (set_bit_at p bm) q \<longleftrightarrow> q = p \<or> occupied bm q"
proof (cases "0 \<le> q")
  case True
  obtain w b v c where "p = price_of w b" "b < 64" "q = price_of v c" "c < 64"
    using price_of_cases [OF assms] price_of_cases [OF True] by metis
  then show ?thesis
    by (auto simp: occupied_price_of price_of_eq price_of_split set_bit_at_def bit_or_iff bit_exp_iff)
qed (use assms in \<open>auto simp: occupied_def\<close>)

lemma occupied_clear_bit_at:
  assumes "0 \<le> p"
  shows "occupied (clear_bit_at p bm) q \<longleftrightarrow> q \<noteq> p \<and> occupied bm q"
proof (cases "0 \<le> q")
  case True
  obtain w b v c where "p = price_of w b" "b < 64" "q = price_of v c" "c < 64"
    using price_of_cases [OF assms] price_of_cases [OF True] by metis
  then show ?thesis
    by (auto simp: occupied_price_of price_of_eq price_of_split clear_bit_at_def bit_and_iff
        bit_not_iff bit_exp_iff)
qed (use assms in \<open>auto simp: occupied_def\<close>)

section \<open>Upward scans\<close>

text \<open>The first price from \<open>lo\<close> on with a property, if there is one, and dually.\<close>

definition first_from :: "(int \<Rightarrow> bool) \<Rightarrow> int \<Rightarrow> int option \<Rightarrow> bool" where
  "first_from P lo r \<longleftrightarrow>
     (case r of None \<Rightarrow> \<forall>q\<ge>lo. \<not> P q
      | Some p \<Rightarrow> lo \<le> p \<and> P p \<and> (\<forall>q. lo \<le> q \<and> q < p \<longrightarrow> \<not> P q))"

definition last_upto :: "(int \<Rightarrow> bool) \<Rightarrow> int \<Rightarrow> int option \<Rightarrow> bool" where
  "last_upto P hi r \<longleftrightarrow>
     (case r of None \<Rightarrow> \<forall>q\<le>hi. \<not> P q
      | Some p \<Rightarrow> p \<le> hi \<and> P p \<and> (\<forall>q. p < q \<and> q \<le> hi \<longrightarrow> \<not> P q))"

text \<open>\<open>word_bits P w m\<close>: the word \<open>m\<close> shows which prices of word \<open>w\<close> satisfy \<open>P\<close>.\<close>

definition word_bits :: "(int \<Rightarrow> bool) \<Rightarrow> nat \<Rightarrow> u64 \<Rightarrow> bool" where
  "word_bits P w m \<longleftrightarrow> (\<forall>b<64. bit m b = P (price_of w b))"

lemma word_range: "price_of w 0 \<le> q \<Longrightarrow> q < price_of (Suc w) 0 \<Longrightarrow> \<exists>b<64. q = price_of w b"
  by (rule exI [of _ "nat (q - price_of w 0)"]) (auto simp: price_of_def)

lemma word_first:
  assumes "word_bits P w m" and "m \<noteq> 0"
  shows "first_from P (price_of w 0) (Some (price_of w (TrailingZeros64 m)))"
proof -
  let ?t = "TrailingZeros64 m"
  note tz = TrailingZeros64_least [OF assms(2)]
  have "\<not> P q" if lo: "price_of w 0 \<le> q" and hi: "q < price_of w ?t" for q
  proof -
    have "price_of w ?t < price_of (Suc w) 0" using tz(1) by (simp add: price_of_def)
    then have "q < price_of (Suc w) 0" using hi by linarith
    then obtain b where "b < 64" "q = price_of w b"
      using word_range [OF lo] by auto
    then show ?thesis
      using hi tz assms(1) by (auto simp: price_of_less word_bits_def)
  qed
  then show ?thesis
    using tz assms(1) by (auto simp: first_from_def word_bits_def price_of_def)
qed

lemma word_skip_up:
  assumes "word_bits P w 0" and "first_from P (price_of (Suc w) 0) r"
  shows "first_from P (price_of w 0) r"
proof -
  have no: "\<not> P q" if "price_of w 0 \<le> q" "q < price_of (Suc w) 0" for q
    using word_range [OF that] assms(1) by (auto simp: word_bits_def)
  have le: "price_of w 0 \<le> price_of (Suc w) 0" by (simp add: price_of_def)
  show ?thesis
  proof (cases r)
    case None
    then show ?thesis using assms(2) no by (auto simp: first_from_def) (meson not_le)
  next
    case (Some p)
    then show ?thesis using assms(2) no le by (auto simp: first_from_def) (meson not_le)
  qed
qed

lemma next_ask_loop_unfold:
  "priceBitmapWords \<le> w \<Longrightarrow> next_ask_loop bm w m = None"
  "w < priceBitmapWords \<Longrightarrow> m \<noteq> 0 \<Longrightarrow> next_ask_loop bm w m =
     (if maxPrice \<le> price_of w (TrailingZeros64 m) then None else Some (price_of w (TrailingZeros64 m)))"
  "w < priceBitmapWords \<Longrightarrow> next_ask_loop bm w 0 =
     next_ask_loop bm (Suc w) (if Suc w < priceBitmapWords then bm (Suc w) else 0)"
  by (subst next_ask_loop.simps; simp add: price_of_def Let_def)+

lemma first_from_beyond:
  assumes "\<And>p. P p \<Longrightarrow> p < maxPrice" and "priceBitmapWords \<le> w"
  shows "first_from P (price_of w 0) None"
proof -
  have "maxPrice \<le> price_of w 0" using assms(2) by (simp add: price_of_def)
  then have "\<not> P q" if "price_of w 0 \<le> q" for q
    using assms(1) [of q] that by linarith
  then show ?thesis by (simp add: first_from_def)
qed

lemma next_ask_loop_first:
  assumes "\<And>p. P p \<Longrightarrow> p < maxPrice" and "word_bits P w m" and "w \<le> priceBitmapWords"
    and "\<And>v. w < v \<Longrightarrow> v < priceBitmapWords \<Longrightarrow> word_bits P v (bm v)"
  shows "first_from P (price_of w 0) (next_ask_loop bm w m)"
  using assms(2-)
proof (induction "priceBitmapWords - w" arbitrary: w m)
  case 0
  then have "priceBitmapWords \<le> w" by simp
  then show ?case
    using first_from_beyond [OF assms(1)] by (simp only: next_ask_loop_unfold(1))
next
  case (Suc k)
  then have w: "w < priceBitmapWords" by simp
  show ?case
  proof (cases "m = 0")
    case True
    let ?m = "if Suc w < priceBitmapWords then bm (Suc w) else 0"
    have "first_from P (price_of (Suc w) 0) (next_ask_loop bm (Suc w) ?m)"
    proof (cases "Suc w < priceBitmapWords")
      case lt: True
      have "first_from P (price_of (Suc w) 0) (next_ask_loop bm (Suc w) (bm (Suc w)))"
        using lt Suc.hyps(2) Suc.prems(3) by (intro Suc.hyps(1)) auto
      then show ?thesis using lt by simp
    next
      case False
      then have "priceBitmapWords \<le> Suc w" by simp
      then show ?thesis
        using first_from_beyond [OF assms(1)] by (simp only: next_ask_loop_unfold(1))
    qed
    moreover have "word_bits P w 0" using True Suc.prems(1) by simp
    ultimately show ?thesis
      unfolding True next_ask_loop_unfold(3) [OF w] by (rule word_skip_up [rotated])
  next
    case False
    then have "first_from P (price_of w 0) (Some (price_of w (TrailingZeros64 m)))"
      using Suc.prems(1) by (simp add: word_first)
    moreover from this have "price_of w (TrailingZeros64 m) < maxPrice"
      using assms(1) by (simp add: first_from_def)
    ultimately show ?thesis
      using w False by (simp add: next_ask_loop_unfold)
  qed
qed

text \<open>A bitmap with bits for the prices 1 to 9999 only.\<close>

definition clean :: "bitmap \<Rightarrow> bool" where
  "clean bm \<longleftrightarrow> (\<forall>p. occupied bm p \<longrightarrow> 1 \<le> p \<and> p < maxPrice)"

lemma word_bits_above:
  assumes "\<And>b. b < 64 \<Longrightarrow> bit m b \<longleftrightarrow> bit (bm w) b \<and> lo \<le> price_of w b"
  shows "word_bits (\<lambda>q. occupied bm q \<and> lo \<le> q) w m"
  using assms by (simp add: word_bits_def occupied_price_of)

lemma first_from_above:
  "lo' \<le> lo \<Longrightarrow> first_from (\<lambda>q. P q \<and> lo \<le> q) lo' r \<longleftrightarrow> first_from P lo r"
  unfolding first_from_def by (cases r) (auto dest: order.trans)

lemma NextAskBucket_first:
  assumes "clean bm" and "0 \<le> p" and "p < maxPrice"
  shows "first_from (occupied bm) (p + 1) (NextAskBucket bm p)"
proof (cases "p + 1 < maxPrice")
  case True
  let ?P = "\<lambda>q. occupied bm q \<and> p + 1 \<le> q"
  define w b where "w = nat ((p + 1) div 64)" and "b = nat ((p + 1) mod 64)"
  have pw: "p + 1 = price_of w b" and b: "b < 64" and w: "w < priceBitmapWords"
    using price_of_div_mod [of "p + 1"] assms True by (simp_all add: w_def b_def)
  have "word_bits ?P w (push_bit b (drop_bit b (bm w)))"
    by (rule word_bits_above) (auto simp: pw bit_push_bit_iff bit_drop_bit_eq price_of_def)
  moreover have "word_bits ?P v (bm v)" if "w < v" for v
    by (rule word_bits_above) (use that b in \<open>auto simp: pw price_of_def\<close>)
  ultimately have "first_from ?P (price_of w 0) (next_ask_loop bm w (push_bit b (drop_bit b (bm w))))"
    using assms(1) w by (intro next_ask_loop_first) (auto simp: clean_def)
  moreover have "NextAskBucket bm p = next_ask_loop bm w (push_bit b (drop_bit b (bm w)))"
    using True assms by (simp add: NextAskBucket_def wrap_simps w_def b_def Let_def)
  moreover have "price_of w 0 \<le> p + 1" by (simp add: pw price_of_def)
  ultimately show ?thesis by (simp add: first_from_above)
next
  case False
  then have "p + 1 = maxPrice" using assms by simp
  then show ?thesis
    using assms(1) by (auto simp: NextAskBucket_def wrap64_def first_from_def clean_def)
qed

lemma scanBestAsk_loop_first:
  assumes "clean bm" and "w \<le> priceBitmapWords"
  shows "\<exists>r. first_from (\<lambda>q. occupied bm q \<and> 1 \<le> q) (price_of w 0) r \<and>
             scanBestAsk_loop bm [w..<priceBitmapWords] = (case r of None \<Rightarrow> 0 | Some p \<Rightarrow> p)"
  (is "\<exists>r. first_from ?P _ r \<and> _")
  using assms(2)
proof (induction "priceBitmapWords - w" arbitrary: w)
  case 0
  then have "w = priceBitmapWords" by simp
  moreover have "first_from ?P (price_of priceBitmapWords 0) None"
    using assms(1) by (intro first_from_beyond) (simp_all add: clean_def)
  ultimately show ?case by (intro exI [of _ None]) simp
next
  case (Suc k)
  then have w: "[w..<priceBitmapWords] = w # [Suc w..<priceBitmapWords]"
    by (simp add: upt_conv_Cons)
  define m where "m = (if w = 0 then bm w AND NOT 1 else bm w)"
  have m: "word_bits ?P w m"
    by (rule word_bits_above) (auto simp: m_def bit_and_iff bit_not_iff bit_1_iff price_of_def)
  show ?case
  proof (cases "m = 0")
    case True
    obtain r where r: "first_from ?P (price_of (Suc w) 0) r"
      "scanBestAsk_loop bm [Suc w..<priceBitmapWords] = (case r of None \<Rightarrow> 0 | Some p \<Rightarrow> p)"
      using Suc.hyps(1) [of "Suc w"] Suc.hyps(2) by fastforce
    have "first_from ?P (price_of w 0) r"
      using m r(1) unfolding True by (rule word_skip_up)
    then show ?thesis
      using r(2) True by (intro exI [of _ r]) (simp add: w flip: m_def)
  next
    case False
    let ?p = "price_of w (TrailingZeros64 m)"
    have f: "first_from ?P (price_of w 0) (Some ?p)" using m False by (rule word_first)
    then have "?p < maxPrice" using assms(1) by (simp add: first_from_def clean_def)
    then have "scanBestAsk_loop bm [w..<priceBitmapWords] = ?p"
      using False by (simp add: w price_of_def flip: m_def)
    then show ?thesis using f by (intro exI [of _ "Some ?p"]) simp
  qed
qed

lemma scanBestAsk_first:
  assumes "clean bm"
  shows "\<exists>r. first_from (occupied bm) 1 r \<and> scanBestAsk bm = (case r of None \<Rightarrow> 0 | Some p \<Rightarrow> p)"
proof -
  obtain r where "first_from (\<lambda>q. occupied bm q \<and> 1 \<le> q) (price_of 0 0) r"
    "scanBestAsk bm = (case r of None \<Rightarrow> 0 | Some p \<Rightarrow> p)"
    using scanBestAsk_loop_first [OF assms, of 0] unfolding scanBestAsk_def by blast
  then show ?thesis
    by (intro exI [of _ r]) (simp add: first_from_above price_of_def)
qed

section \<open>Downward scans\<close>

lemma word_last:
  assumes "word_bits P w m" and "m \<noteq> 0"
  shows "last_upto P (price_of w 63) (Some (price_of w (63 - LeadingZeros64 m)))"
proof -
  let ?t = "63 - LeadingZeros64 m"
  note lz = LeadingZeros64_greatest [OF assms(2)]
  have "\<not> P q" if hi: "q \<le> price_of w 63" and lo: "price_of w ?t < q" for q
  proof -
    have "price_of w 0 \<le> q" and "q < price_of (Suc w) 0"
      using hi lo by (simp_all add: price_of_def)
    then obtain b where "b < 64" "q = price_of w b"
      using word_range by blast
    then show ?thesis
      using lo lz assms(1) by (auto simp: price_of_less word_bits_def)
  qed
  then show ?thesis
    using lz assms(1) by (auto simp: last_upto_def word_bits_def price_of_def)
qed

lemma word_skip_down:
  assumes "word_bits P (Suc w) 0" and "last_upto P (price_of w 63) r"
  shows "last_upto P (price_of (Suc w) 63) r"
proof -
  have no: "\<not> P q" if "price_of w 63 < q" "q \<le> price_of (Suc w) 63" for q
  proof -
    have "price_of (Suc w) 0 \<le> q" "q < price_of (Suc (Suc w)) 0"
      using that by (simp_all add: price_of_def)
    then show ?thesis
      using word_range assms(1) by (auto simp: word_bits_def)
  qed
  have le: "price_of w 63 \<le> price_of (Suc w) 63" by (simp add: price_of_def)
  show ?thesis
    using assms(2) no le unfolding last_upto_def by (cases r) (auto, (meson not_le)+)
qed

lemma word_bottom:
  assumes "word_bits P 0 0" and "\<And>p. P p \<Longrightarrow> 0 \<le> p"
  shows "last_upto P (price_of 0 63) None"
proof -
  have "\<not> P q" if "q \<le> price_of 0 63" for q
  proof
    assume q: "P q"
    then have "price_of 0 0 \<le> q" "q < price_of (Suc 0) 0"
      using that assms(2) by (auto simp: price_of_def)
    then show False
      using q word_range assms(1) by (auto simp: word_bits_def)
  qed
  then show ?thesis by (simp add: last_upto_def)
qed

lemma last_upto_below:
  "hi \<le> hi' \<Longrightarrow> last_upto (\<lambda>q. P q \<and> q \<le> hi) hi' r \<longleftrightarrow> last_upto P hi r"
  unfolding last_upto_def by (cases r) (auto dest: order.trans)

lemma price_of_high: "m \<noteq> 0 \<Longrightarrow> int w * 64 + (63 - int (LeadingZeros64 m)) = price_of w (63 - LeadingZeros64 m)"
  using LeadingZeros64_greatest(1) [of m] by (simp add: price_of_def)

lemma next_bid_loop_unfold:
  "next_bid_loop bm (- 1) m = None"
  "m \<noteq> 0 \<Longrightarrow> next_bid_loop bm (int w) m =
     (if price_of w (63 - LeadingZeros64 m) < 1 then None else Some (price_of w (63 - LeadingZeros64 m)))"
  "next_bid_loop bm (int (Suc w)) 0 = next_bid_loop bm (int w) (bm w)"
  "next_bid_loop bm 0 0 = None"
  by (subst next_bid_loop.simps; simp add: price_of_high Let_def; subst next_bid_loop.simps; simp)+

lemma next_bid_loop_last:
  assumes "\<And>p. P p \<Longrightarrow> 1 \<le> p" and "word_bits P w m" and "\<And>v. v < w \<Longrightarrow> word_bits P v (bm v)"
  shows "last_upto P (price_of w 63) (next_bid_loop bm (int w) m)"
  using assms(2-)
proof (induction w arbitrary: m)
  case 0
  show ?case
  proof (cases "m = 0")
    case True
    have "0 \<le> p" if "P p" for p using assms(1) [OF that] by simp
    then have "last_upto P (price_of 0 63) None"
      using word_bottom 0(1) unfolding True by blast
    then show ?thesis by (simp add: True next_bid_loop_unfold)
  next
    case False
    with 0 have "last_upto P (price_of 0 63) (Some (price_of 0 (63 - LeadingZeros64 m)))"
      by (simp add: word_last)
    moreover from this have "1 \<le> price_of 0 (63 - LeadingZeros64 m)"
      using assms(1) by (simp add: last_upto_def)
    ultimately show ?thesis using next_bid_loop_unfold(2) [OF False, of bm 0] by simp
  qed
next
  case (Suc w)
  show ?case
  proof (cases "m = 0")
    case True
    have "last_upto P (price_of w 63) (next_bid_loop bm (int w) (bm w))"
      using Suc.prems by (intro Suc.IH) auto
    moreover have "word_bits P (Suc w) 0" using Suc.prems(1) True by simp
    ultimately show ?thesis
      unfolding True next_bid_loop_unfold(3) by (rule word_skip_down [rotated])
  next
    case False
    with Suc.prems have "last_upto P (price_of (Suc w) 63) (Some (price_of (Suc w) (63 - LeadingZeros64 m)))"
      by (simp add: word_last)
    moreover from this have "1 \<le> price_of (Suc w) (63 - LeadingZeros64 m)"
      using assms(1) by (simp add: last_upto_def)
    ultimately show ?thesis using next_bid_loop_unfold(2) [OF False, of bm "Suc w"] by simp
  qed
qed

lemma NextBidBucket_last:
  assumes "clean bm" and "0 \<le> p" and "p < maxPrice"
  shows "last_upto (occupied bm) (p - 1) (NextBidBucket bm p)"
proof (cases "1 \<le> p - 1")
  case True
  let ?P = "\<lambda>q. occupied bm q \<and> q \<le> p - 1"
  define w b where "w = nat ((p - 1) div 64)" and "b = nat ((p - 1) mod 64)"
  have pw: "p - 1 = price_of w b" and b: "b < 64" and w: "(p - 1) div 64 = int w"
    using price_of_div_mod [of "p - 1"] pos_imp_zdiv_nonneg_iff [of 64 "p - 1"] assms True
    by (simp_all add: w_def b_def)
  have mask: "push_bit (b + 1) 1 - 1 = (mask (b + 1) :: u64)"
    by (simp add: mask_eq_exp_minus_1 push_bit_eq_mult)
  have "word_bits ?P w (bm w AND mask (b + 1))"
    by (auto simp: word_bits_def pw occupied_price_of bit_and_iff bit_mask_iff) (simp_all add: price_of_def)
  moreover have "word_bits ?P v (bm v)" if "v < w" for v
    using that by (auto simp: word_bits_def pw occupied_price_of) (simp add: price_of_def)
  ultimately have l: "last_upto ?P (price_of w 63) (next_bid_loop bm (int w) (bm w AND mask (b + 1)))"
    using assms(1) by (intro next_bid_loop_last) (auto simp: clean_def)
  have eq: "NextBidBucket bm p = next_bid_loop bm (int w) (bm w AND mask (b + 1))"
    using True assms unfolding NextBidBucket_def
    by (simp add: wrap_simps Let_def w mask_eq_exp_minus_1 flip: b_def)
  have "p - 1 \<le> price_of w 63" using b by (simp add: pw price_of_def)
  then show ?thesis unfolding eq using l by (rule last_upto_below [THEN iffD1])
next
  case False
  then have "NextBidBucket bm p = None" using assms(2) by (simp add: NextBidBucket_def wrap_simps)
  moreover have "\<not> occupied bm q" if "q \<le> p - 1" for q
    using that False assms(1) by (auto simp: clean_def)
  ultimately show ?thesis by (simp add: last_upto_def)
qed

lemma scanBestBid_loop_last:
  assumes "clean bm" and "w < priceBitmapWords"
  shows "\<exists>r. last_upto (occupied bm) (price_of w 63) r \<and>
             scanBestBid_loop bm (rev [0..<Suc w]) = (case r of None \<Rightarrow> 0 | Some p \<Rightarrow> p)"
  using assms(2)
proof (induction w)
  case 0
  have bits: "word_bits (occupied bm) 0 (bm 0)"
    by (simp add: word_bits_def occupied_price_of)
  show ?case
  proof (cases "bm 0 = 0")
    case True
    have "last_upto (occupied bm) (price_of 0 63) None"
      using word_bottom bits occupied_nonneg unfolding True by blast
    then show ?thesis by (intro exI [of _ None]) (simp add: True)
  next
    case False
    let ?p = "price_of 0 (63 - LeadingZeros64 (bm 0))"
    have l: "last_upto (occupied bm) (price_of 0 63) (Some ?p)" using bits False by (rule word_last)
    then have "1 \<le> ?p" "?p < maxPrice" using assms(1) by (auto simp: last_upto_def clean_def)
    then have "scanBestBid_loop bm (rev [0..<Suc 0]) = ?p"
      using False price_of_high [OF False, of 0] by simp
    then show ?thesis using l by (intro exI [of _ "Some ?p"]) simp
  qed
next
  case (Suc w)
  have bits: "word_bits (occupied bm) (Suc w) (bm (Suc w))"
    by (simp add: word_bits_def occupied_price_of)
  have rev: "rev [0..<Suc (Suc w)] = Suc w # rev [0..<Suc w]" by simp
  show ?case
  proof (cases "bm (Suc w) = 0")
    case True
    obtain r where r: "last_upto (occupied bm) (price_of w 63) r"
      "scanBestBid_loop bm (rev [0..<Suc w]) = (case r of None \<Rightarrow> 0 | Some p \<Rightarrow> p)"
      using Suc by auto
    have "last_upto (occupied bm) (price_of (Suc w) 63) r"
      using bits r(1) unfolding True by (rule word_skip_down)
    then show ?thesis
      using r(2) unfolding rev by (intro exI [of _ r]) (simp add: True)
  next
    case False
    let ?p = "price_of (Suc w) (63 - LeadingZeros64 (bm (Suc w)))"
    have l: "last_upto (occupied bm) (price_of (Suc w) 63) (Some ?p)"
      using bits False by (rule word_last)
    then have "1 \<le> ?p" "?p < maxPrice" using assms(1) by (auto simp: last_upto_def clean_def)
    moreover have "int (Suc w * 64) + (63 - int (LeadingZeros64 (bm (Suc w)))) = ?p"
      using price_of_high [OF False, of "Suc w"] by simp
    ultimately have "scanBestBid_loop bm (rev [0..<Suc (Suc w)]) = ?p"
      using False unfolding rev scanBestBid_loop.simps Let_def by metis
    then show ?thesis using l by (intro exI [of _ "Some ?p"]) simp
  qed
qed

lemma scanBestBid_last:
  assumes "clean bm"
  shows "\<exists>r. last_upto (occupied bm) (maxPrice - 1) r \<and>
             scanBestBid bm = (case r of None \<Rightarrow> 0 | Some p \<Rightarrow> p)"
proof -
  have P: "(\<lambda>q. occupied bm q \<and> q \<le> maxPrice - 1) = occupied bm"
    using assms by (fastforce simp: clean_def)
  obtain r where "last_upto (occupied bm) (price_of 156 63) r"
    "scanBestBid_loop bm (rev [0..<Suc 156]) = (case r of None \<Rightarrow> 0 | Some p \<Rightarrow> p)"
    using scanBestBid_loop_last [OF assms, of 156] by auto
  moreover have "Suc 156 = priceBitmapWords" by simp
  ultimately show ?thesis
    using last_upto_below [of "maxPrice - 1" "price_of 156 63" "occupied bm" r] unfolding P
    by (intro exI [of _ r]) (simp add: scanBestBid_def price_of_def)
qed

section \<open>The best prices\<close>

text \<open>The lowest and the highest occupied price, with 0 for an empty side.\<close>

definition best_ask_of :: "(int \<Rightarrow> bool) \<Rightarrow> int \<Rightarrow> bool" where
  "best_ask_of occ b \<longleftrightarrow> (b = 0 \<and> (\<forall>q\<ge>1. \<not> occ q)) \<or>
     (1 \<le> b \<and> b < maxPrice \<and> occ b \<and> (\<forall>q. 1 \<le> q \<and> q < b \<longrightarrow> \<not> occ q))"

definition best_bid_of :: "(int \<Rightarrow> bool) \<Rightarrow> int \<Rightarrow> bool" where
  "best_bid_of occ b \<longleftrightarrow> (b = 0 \<and> (\<forall>q<maxPrice. \<not> occ q)) \<or>
     (1 \<le> b \<and> b < maxPrice \<and> occ b \<and> (\<forall>q. b < q \<and> q < maxPrice \<longrightarrow> \<not> occ q))"

lemma best_ask_of_unique: "best_ask_of occ b \<Longrightarrow> best_ask_of occ c \<Longrightarrow> b = c"
  unfolding best_ask_of_def by (metis linorder_neqE not_le order.strict_trans2 zero_less_one)

lemma best_bid_of_unique: "best_bid_of occ b \<Longrightarrow> best_bid_of occ c \<Longrightarrow> b = c"
  unfolding best_bid_of_def by (metis linorder_neqE)

lemma scanBestAsk_best:
  assumes "clean bm"
  shows "best_ask_of (occupied bm) (scanBestAsk bm)"
proof -
  obtain r where "first_from (occupied bm) 1 r" "scanBestAsk bm = (case r of None \<Rightarrow> 0 | Some p \<Rightarrow> p)"
    using scanBestAsk_first [OF assms] by blast
  then show ?thesis
    using assms by (cases r) (auto simp: best_ask_of_def first_from_def clean_def)
qed

lemma scanBestBid_best:
  assumes "clean bm"
  shows "best_bid_of (occupied bm) (scanBestBid bm)"
proof -
  obtain r where "last_upto (occupied bm) (maxPrice - 1) r"
    "scanBestBid bm = (case r of None \<Rightarrow> 0 | Some p \<Rightarrow> p)"
    using scanBestBid_last [OF assms] by blast
  then show ?thesis
    using assms by (cases r) (auto simp: best_bid_of_def last_upto_def clean_def)
qed

text \<open>
  C22. The word-at-a-time scans that recompute the best prices are exact: over a bitmap of valid
  prices \<open>scanBestAsk\<close> is the lowest occupied price, \<open>scanBestBid\<close> the highest, and
  each is 0 exactly when its side is empty.
\<close>

theorem scan_best_exact:
  assumes "clean bm"
  shows "best_ask_of (occupied bm) (scanBestAsk bm) \<and> best_bid_of (occupied bm) (scanBestBid bm)"
  using assms by (simp add: scanBestAsk_best scanBestBid_best)

theorem scan_best_exact_witness:
  "scanBestAsk (set_bit_at 130 (set_bit_at 5000 (\<lambda>_. 0))) = 130 \<and>
   scanBestBid (set_bit_at 130 (set_bit_at 5000 (\<lambda>_. 0))) = 5000"
proof -
  let ?bm = "set_bit_at 130 (set_bit_at 5000 (\<lambda>_. 0 :: u64))"
  have "\<not> occupied (\<lambda>_. 0) p" for p by (simp add: occupied_def)
  then have occ: "occupied ?bm = (\<lambda>p. p = 130 \<or> p = 5000)"
    by (simp add: fun_eq_iff occupied_set_bit_at)
  then have "clean ?bm" by (auto simp: clean_def)
  then have "best_ask_of (\<lambda>p. p = 130 \<or> p = 5000) (scanBestAsk ?bm)"
    and "best_bid_of (\<lambda>p. p = 130 \<or> p = 5000) (scanBestBid ?bm)"
    using scan_best_exact [of ?bm] by (simp_all add: occ)
  moreover have "best_ask_of (\<lambda>p. p = 130 \<or> p = 5000) 130" "best_bid_of (\<lambda>p. p = 130 \<or> p = 5000) 5000"
    by (auto simp: best_ask_of_def best_bid_of_def)
  ultimately show ?thesis
    by (blast intro: best_ask_of_unique best_bid_of_unique)
qed

end
