(* ===== verification/Match_Types.thy ===== *)
theory Match_Types
  imports Go_Prelude
begin

text \<open>
  The data of the matching engine: \<open>matching/model/types.go\<close>, \<open>order.go\<close>,
  \<open>direct_order.go\<close>, \<open>trade.go\<close> and the key parser of \<open>snapshot.go\<close>.
  The source's enumerations are string types, and its switches have default branches that any
  other string reaches, so they stay strings here. A \<open>DirectOrder\<close> is modelled without
  its intrusive list pointers; those belong to \<open>Match_Bucket\<close>.
\<close>

section \<open>Enumerations (types.go)\<close>

type_synonym OrderSide = string
type_synonym OrderType = string
type_synonym TimeInForce = string
type_synonym OrderStatus = string
type_synonym CancelReason = string
type_synonym STPStrategy = string

abbreviation OrderSideBuy :: OrderSide where "OrderSideBuy \<equiv> ''BUY''"
abbreviation OrderSideSell :: OrderSide where "OrderSideSell \<equiv> ''SELL''"
abbreviation OrderTypeLimit :: OrderType where "OrderTypeLimit \<equiv> ''LIMIT''"
abbreviation OrderTypeMarket :: OrderType where "OrderTypeMarket \<equiv> ''MARKET''"
abbreviation TimeInForceGTC :: TimeInForce where "TimeInForceGTC \<equiv> ''GTC''"
abbreviation TimeInForceIOC :: TimeInForce where "TimeInForceIOC \<equiv> ''IOC''"
abbreviation TimeInForceFOK :: TimeInForce where "TimeInForceFOK \<equiv> ''FOK''"
abbreviation TimeInForcePostOnly :: TimeInForce where "TimeInForcePostOnly \<equiv> ''POST_ONLY''"
abbreviation STPNone :: STPStrategy where "STPNone \<equiv> ''''"
abbreviation STPCancelTaker :: STPStrategy where "STPCancelTaker \<equiv> ''CANCEL_TAKER''"
abbreviation STPCancelMaker :: STPStrategy where "STPCancelMaker \<equiv> ''CANCEL_MAKER''"
abbreviation STPCancelBoth :: STPStrategy where "STPCancelBoth \<equiv> ''CANCEL_BOTH''"
abbreviation OrderStatusNew :: OrderStatus where "OrderStatusNew \<equiv> ''NEW''"
abbreviation OrderStatusPartiallyFilled :: OrderStatus where
  "OrderStatusPartiallyFilled \<equiv> ''PARTIALLY_FILLED''"
abbreviation OrderStatusFilled :: OrderStatus where "OrderStatusFilled \<equiv> ''FILLED''"
abbreviation OrderStatusCancelled :: OrderStatus where "OrderStatusCancelled \<equiv> ''CANCELLED''"
abbreviation OrderStatusRejected :: OrderStatus where "OrderStatusRejected \<equiv> ''REJECTED''"
abbreviation CancelReasonNone :: CancelReason where "CancelReasonNone \<equiv> ''NONE''"
abbreviation CancelReasonIOCNoLiquidity :: CancelReason where
  "CancelReasonIOCNoLiquidity \<equiv> ''IOC_NO_LIQUIDITY''"
abbreviation CancelReasonIOCPartialFill :: CancelReason where
  "CancelReasonIOCPartialFill \<equiv> ''IOC_PARTIAL_FILL''"
abbreviation CancelReasonMarketClosed :: CancelReason where
  "CancelReasonMarketClosed \<equiv> ''MARKET_CLOSED''"
abbreviation CancelReasonValidationFailed :: CancelReason where
  "CancelReasonValidationFailed \<equiv> ''VALIDATION_FAILED''"
abbreviation CancelReasonSTPTaker :: CancelReason where
  "CancelReasonSTPTaker \<equiv> ''STP_CANCEL_TAKER''"
abbreviation CancelReasonSTPMaker :: CancelReason where
  "CancelReasonSTPMaker \<equiv> ''STP_CANCEL_MAKER''"
abbreviation CancelReasonSTPBoth :: CancelReason where
  "CancelReasonSTPBoth \<equiv> ''STP_CANCEL_BOTH''"
abbreviation CancelReasonFOKNotFilled :: CancelReason where
  "CancelReasonFOKNotFilled \<equiv> ''FOK_NOT_FILLED''"
abbreviation CancelReasonPostOnlyCross :: CancelReason where
  "CancelReasonPostOnlyCross \<equiv> ''POST_ONLY_CROSS''"
abbreviation CancelReasonAmended :: CancelReason where "CancelReasonAmended \<equiv> ''AMENDED''"

definition OrderSide_IsValid :: "OrderSide \<Rightarrow> bool" where
  "OrderSide_IsValid s \<longleftrightarrow> s = OrderSideBuy \<or> s = OrderSideSell"

definition OrderType_IsValid :: "OrderType \<Rightarrow> bool" where
  "OrderType_IsValid t \<longleftrightarrow> t = OrderTypeLimit \<or> t = OrderTypeMarket"

definition TimeInForce_IsValid :: "TimeInForce \<Rightarrow> bool" where
  "TimeInForce_IsValid t \<longleftrightarrow>
     t \<in> {TimeInForceGTC, TimeInForceIOC, TimeInForceFOK, TimeInForcePostOnly}"

definition BuildBookKey :: "i64 \<Rightarrow> string \<Rightarrow> string" where
  "BuildBookKey marketID outcome = itoa marketID @ CHR '':'' # ToUpper (TrimSpace outcome)"

text \<open>\<open>strings.SplitN(s, ":", 2)\<close> on a text with a colon, as the two parts.\<close>

definition splitColon :: "string \<Rightarrow> (string \<times> string) option" where
  "splitColon s =
     (case dropWhile (\<lambda>c. c \<noteq> CHR '':'') s of
        [] \<Rightarrow> None
      | _ # rest \<Rightarrow> Some (takeWhile (\<lambda>c. c \<noteq> CHR '':'') s, rest))"

definition parseBookKey :: "string \<Rightarrow> (i64 \<times> string) option" where
  "parseBookKey key =
     (case splitColon (TrimSpace key) of
        None \<Rightarrow> None
      | Some (p0, p1) \<Rightarrow>
          (case ParseInt p0 of
             None \<Rightarrow> None
           | Some marketID \<Rightarrow> Some (marketID, ToUpper (TrimSpace p1))))"

section \<open>Orders (order.go)\<close>

record Order =
  o_OrderID :: string
  o_ClientOrderID :: string
  o_UserID :: i64
  o_MarketID :: i64
  o_Outcome :: string
  o_Side :: OrderSide
  o_Type :: OrderType
  o_TimeInForce :: TimeInForce
  o_STPStrategy :: STPStrategy
  o_Price :: i64
  o_Quantity :: i64
  o_FilledQuantity :: i64
  o_Status :: OrderStatus
  o_CancelReason :: CancelReason
  o_CreatedAtMillis :: i64
  o_UpdatedAtMillis :: i64

datatype order_error = OrderIDRequired | QuantityNotPositive | PriceOutOfRange

definition Validate :: "Order \<Rightarrow> order_error option" where
  "Validate o' =
     (if o_OrderID o' = '''' then Some OrderIDRequired
      else if o_Quantity o' \<le> 0 then Some QuantityNotPositive
      else if o_Price o' < 1 \<or> 9999 < o_Price o' then Some PriceOutOfRange
      else None)"

definition BookKey :: "Order \<Rightarrow> string" where
  "BookKey o' = BuildBookKey (o_MarketID o') (o_Outcome o')"

definition IsBuy :: "Order \<Rightarrow> bool" where
  "IsBuy o' \<longleftrightarrow> o_Side o' = OrderSideBuy"

definition IsSell :: "Order \<Rightarrow> bool" where
  "IsSell o' \<longleftrightarrow> o_Side o' = OrderSideSell"

definition IsLimit :: "Order \<Rightarrow> bool" where
  "IsLimit o' \<longleftrightarrow> o_Type o' = OrderTypeLimit"

definition IsMarket :: "Order \<Rightarrow> bool" where
  "IsMarket o' \<longleftrightarrow> o_Type o' = OrderTypeMarket"

definition RemainingQuantity :: "Order \<Rightarrow> i64" where
  "RemainingQuantity o' =
     (let remaining = wrap64 (o_Quantity o' - o_FilledQuantity o')
      in if remaining < 0 then 0 else remaining)"

definition ApplyFill :: "i64 \<Rightarrow> Order \<Rightarrow> Order" where
  "ApplyFill quantity o' =
     (let filled = wrap64 (o_FilledQuantity o' + quantity); o1 = o'\<lparr>o_FilledQuantity := filled\<rparr>
      in if o_Quantity o1 \<le> filled then o1\<lparr>o_Status := OrderStatusFilled\<rparr>
         else if 0 < filled then o1\<lparr>o_Status := OrderStatusPartiallyFilled\<rparr>
         else o1)"

definition Cancel :: "CancelReason \<Rightarrow> Order \<Rightarrow> Order" where
  "Cancel reason o' = o'\<lparr>o_CancelReason := reason, o_Status := OrderStatusCancelled\<rparr>"

definition Reject :: "CancelReason \<Rightarrow> Order \<Rightarrow> Order" where
  "Reject reason o' = o'\<lparr>o_CancelReason := reason, o_Status := OrderStatusRejected\<rparr>"

section \<open>Resting orders (direct_order.go)\<close>

record DirectOrder =
  d_OrderID :: string
  d_UserID :: i64
  d_MarketID :: i64
  d_Outcome :: string
  d_Side :: OrderSide
  d_Type :: OrderType
  d_TimeInForce :: TimeInForce
  d_STPStrategy :: STPStrategy
  d_Price :: i64
  d_Quantity :: i64
  d_FilledQuantity :: i64
  d_Status :: OrderStatus
  d_CancelReason :: CancelReason
  d_ClientOrderID :: string
  d_CreatedAtMillis :: i64
  d_UpdatedAtMillis :: i64

definition d_RemainingQuantity :: "DirectOrder \<Rightarrow> i64" where
  "d_RemainingQuantity d =
     (let r = wrap64 (d_Quantity d - d_FilledQuantity d) in if r < 0 then 0 else r)"

definition d_ApplyFill :: "i64 \<Rightarrow> DirectOrder \<Rightarrow> DirectOrder" where
  "d_ApplyFill quantity d =
     (let filled = wrap64 (d_FilledQuantity d + quantity); d1 = d\<lparr>d_FilledQuantity := filled\<rparr>
      in if d_Quantity d1 \<le> filled then d1\<lparr>d_Status := OrderStatusFilled\<rparr>
         else if 0 < filled then d1\<lparr>d_Status := OrderStatusPartiallyFilled\<rparr>
         else d1)"

definition d_Cancel :: "CancelReason \<Rightarrow> DirectOrder \<Rightarrow> DirectOrder" where
  "d_Cancel reason d = d\<lparr>d_CancelReason := reason, d_Status := OrderStatusCancelled\<rparr>"

definition d_IsBuy :: "DirectOrder \<Rightarrow> bool" where
  "d_IsBuy d \<longleftrightarrow> d_Side d = OrderSideBuy"

definition d_IsSell :: "DirectOrder \<Rightarrow> bool" where
  "d_IsSell d \<longleftrightarrow> d_Side d = OrderSideSell"

definition d_BookKey :: "DirectOrder \<Rightarrow> string" where
  "d_BookKey d = BuildBookKey (d_MarketID d) (d_Outcome d)"

definition FromOrder :: "Order \<Rightarrow> DirectOrder" where
  "FromOrder o' =
     \<lparr>d_OrderID = o_OrderID o', d_UserID = o_UserID o', d_MarketID = o_MarketID o',
      d_Outcome = o_Outcome o', d_Side = o_Side o', d_Type = o_Type o',
      d_TimeInForce = o_TimeInForce o', d_STPStrategy = o_STPStrategy o', d_Price = o_Price o',
      d_Quantity = o_Quantity o', d_FilledQuantity = o_FilledQuantity o',
      d_Status = o_Status o', d_CancelReason = o_CancelReason o',
      d_ClientOrderID = o_ClientOrderID o', d_CreatedAtMillis = o_CreatedAtMillis o',
      d_UpdatedAtMillis = o_UpdatedAtMillis o'\<rparr>"

definition ToOrder :: "DirectOrder \<Rightarrow> Order" where
  "ToOrder d =
     \<lparr>o_OrderID = d_OrderID d, o_ClientOrderID = d_ClientOrderID d, o_UserID = d_UserID d,
      o_MarketID = d_MarketID d, o_Outcome = d_Outcome d, o_Side = d_Side d,
      o_Type = d_Type d, o_TimeInForce = d_TimeInForce d, o_STPStrategy = d_STPStrategy d,
      o_Price = d_Price d, o_Quantity = d_Quantity d, o_FilledQuantity = d_FilledQuantity d,
      o_Status = d_Status d, o_CancelReason = d_CancelReason d,
      o_CreatedAtMillis = d_CreatedAtMillis d, o_UpdatedAtMillis = d_UpdatedAtMillis d\<rparr>"

text \<open>The value \<open>reset\<close> leaves in a recycled slot.\<close>

definition zeroDirectOrder :: DirectOrder where
  "zeroDirectOrder =
     \<lparr>d_OrderID = '''', d_UserID = 0, d_MarketID = 0, d_Outcome = '''', d_Side = '''',
      d_Type = '''', d_TimeInForce = '''', d_STPStrategy = '''', d_Price = 0, d_Quantity = 0,
      d_FilledQuantity = 0, d_Status = '''', d_CancelReason = '''', d_ClientOrderID = '''',
      d_CreatedAtMillis = 0, d_UpdatedAtMillis = 0\<rparr>"

section \<open>Trades (trade.go)\<close>

record Trade =
  t_Sequence :: u64
  t_TradeID :: string
  t_MarketID :: i64
  t_Outcome :: string
  t_BookKey :: string
  t_Price :: i64
  t_Quantity :: i64
  t_TakerOrderID :: string
  t_MakerOrderID :: string
  t_TakerUserID :: i64
  t_MakerUserID :: i64
  t_TakerSide :: OrderSide
  t_MakerSide :: OrderSide
  t_MatchedAtMillis :: i64
  t_EpochID :: u64

definition DeterministicTradeID :: "string \<Rightarrow> u64 \<Rightarrow> string" where
  "DeterministicTradeID bookKey localSeq =
     (let ds = utoa (unat localSeq); digits = length ds; pad = 8 - digits
      in bookKey @ CHR '':'' # replicate pad (CHR ''0'') @ ds)"

section \<open>Facts on fills\<close>

text \<open>The quantities of an order the engine can hold.\<close>

definition fill_ok :: "Order \<Rightarrow> bool" where
  "fill_ok o' \<longleftrightarrow>
     0 \<le> o_FilledQuantity o' \<and> o_FilledQuantity o' \<le> o_Quantity o' \<and> o_Quantity o' \<le> MaxInt64"

definition d_fill_ok :: "DirectOrder \<Rightarrow> bool" where
  "d_fill_ok d \<longleftrightarrow>
     0 \<le> d_FilledQuantity d \<and> d_FilledQuantity d \<le> d_Quantity d \<and> d_Quantity d \<le> MaxInt64"

named_theorems order_simps \<open>how the order operations act on the fields\<close>

lemma ToOrder_FromOrder [simp]: "ToOrder (FromOrder o') = o'"
  by (simp add: ToOrder_def FromOrder_def)

lemma FromOrder_ToOrder [simp]: "FromOrder (ToOrder d) = d"
  by (simp add: ToOrder_def FromOrder_def)

lemma d_RemainingQuantity_ToOrder: "d_RemainingQuantity d = RemainingQuantity (ToOrder d)"
  by (simp add: d_RemainingQuantity_def RemainingQuantity_def ToOrder_def)

lemma ToOrder_d_ApplyFill: "ToOrder (d_ApplyFill q d) = ApplyFill q (ToOrder d)"
  by (simp add: d_ApplyFill_def ApplyFill_def ToOrder_def Let_def)

lemma ToOrder_d_Cancel: "ToOrder (d_Cancel r d) = Cancel r (ToOrder d)"
  by (simp add: d_Cancel_def Cancel_def ToOrder_def)

lemma d_fill_ok_ToOrder: "d_fill_ok d = fill_ok (ToOrder d)"
  by (simp add: d_fill_ok_def fill_ok_def ToOrder_def)

lemma RemainingQuantity_nonneg [simp]: "0 \<le> RemainingQuantity o'"
  by (simp add: RemainingQuantity_def Let_def)

lemma d_RemainingQuantity_nonneg [simp]: "0 \<le> d_RemainingQuantity d"
  by (simp add: d_RemainingQuantity_def Let_def)

lemma RemainingQuantity_eq [order_simps]:
  "fill_ok o' \<Longrightarrow> RemainingQuantity o' = o_Quantity o' - o_FilledQuantity o'"
  by (simp add: RemainingQuantity_def fill_ok_def wrap_simps)

lemma d_RemainingQuantity_eq [order_simps]:
  "d_fill_ok d \<Longrightarrow> d_RemainingQuantity d = d_Quantity d - d_FilledQuantity d"
  by (simp add: d_RemainingQuantity_def d_fill_ok_def wrap_simps)

lemma ApplyFill_fields [order_simps]:
  "o_OrderID (ApplyFill q o') = o_OrderID o'" "o_ClientOrderID (ApplyFill q o') = o_ClientOrderID o'"
  "o_UserID (ApplyFill q o') = o_UserID o'" "o_MarketID (ApplyFill q o') = o_MarketID o'"
  "o_Outcome (ApplyFill q o') = o_Outcome o'" "o_Side (ApplyFill q o') = o_Side o'"
  "o_Type (ApplyFill q o') = o_Type o'" "o_TimeInForce (ApplyFill q o') = o_TimeInForce o'"
  "o_STPStrategy (ApplyFill q o') = o_STPStrategy o'" "o_Price (ApplyFill q o') = o_Price o'"
  "o_Quantity (ApplyFill q o') = o_Quantity o'"
  "o_FilledQuantity (ApplyFill q o') = wrap64 (o_FilledQuantity o' + q)"
  by (simp_all add: ApplyFill_def Let_def)

lemma d_ApplyFill_fields [order_simps]:
  "d_OrderID (d_ApplyFill q d) = d_OrderID d" "d_UserID (d_ApplyFill q d) = d_UserID d"
  "d_MarketID (d_ApplyFill q d) = d_MarketID d" "d_Outcome (d_ApplyFill q d) = d_Outcome d"
  "d_Side (d_ApplyFill q d) = d_Side d" "d_Price (d_ApplyFill q d) = d_Price d"
  "d_Quantity (d_ApplyFill q d) = d_Quantity d"
  "d_FilledQuantity (d_ApplyFill q d) = wrap64 (d_FilledQuantity d + q)"
  by (simp_all add: d_ApplyFill_def Let_def)

lemma Cancel_fields [order_simps]:
  "o_OrderID (Cancel r o') = o_OrderID o'" "o_UserID (Cancel r o') = o_UserID o'"
  "o_MarketID (Cancel r o') = o_MarketID o'" "o_Outcome (Cancel r o') = o_Outcome o'"
  "o_Side (Cancel r o') = o_Side o'" "o_Price (Cancel r o') = o_Price o'"
  "o_TimeInForce (Cancel r o') = o_TimeInForce o'" "o_STPStrategy (Cancel r o') = o_STPStrategy o'"
  "o_Quantity (Cancel r o') = o_Quantity o'" "o_FilledQuantity (Cancel r o') = o_FilledQuantity o'"
  "o_Status (Cancel r o') = OrderStatusCancelled" "o_CancelReason (Cancel r o') = r"
  "o_Type (Cancel r o') = o_Type o'"
  by (simp_all add: Cancel_def)

lemma d_Cancel_fields [order_simps]:
  "d_OrderID (d_Cancel r d) = d_OrderID d" "d_UserID (d_Cancel r d) = d_UserID d"
  "d_MarketID (d_Cancel r d) = d_MarketID d" "d_Outcome (d_Cancel r d) = d_Outcome d"
  "d_Side (d_Cancel r d) = d_Side d" "d_Price (d_Cancel r d) = d_Price d"
  "d_Quantity (d_Cancel r d) = d_Quantity d" "d_FilledQuantity (d_Cancel r d) = d_FilledQuantity d"
  "d_Status (d_Cancel r d) = OrderStatusCancelled" "d_CancelReason (d_Cancel r d) = r"
  by (simp_all add: d_Cancel_def)

lemma FromOrder_fields [order_simps]:
  "d_OrderID (FromOrder o') = o_OrderID o'" "d_UserID (FromOrder o') = o_UserID o'"
  "d_MarketID (FromOrder o') = o_MarketID o'" "d_Outcome (FromOrder o') = o_Outcome o'"
  "d_Side (FromOrder o') = o_Side o'" "d_Price (FromOrder o') = o_Price o'"
  "d_Quantity (FromOrder o') = o_Quantity o'" "d_FilledQuantity (FromOrder o') = o_FilledQuantity o'"
  by (simp_all add: FromOrder_def)

lemma ToOrder_fields [order_simps]:
  "o_OrderID (ToOrder d) = d_OrderID d" "o_UserID (ToOrder d) = d_UserID d"
  "o_MarketID (ToOrder d) = d_MarketID d" "o_Outcome (ToOrder d) = d_Outcome d"
  "o_Side (ToOrder d) = d_Side d" "o_Price (ToOrder d) = d_Price d"
  "o_Quantity (ToOrder d) = d_Quantity d" "o_FilledQuantity (ToOrder d) = d_FilledQuantity d"
  by (simp_all add: ToOrder_def)

lemma BookKey_ApplyFill [order_simps]: "BookKey (ApplyFill q o') = BookKey o'"
  by (simp add: BookKey_def order_simps)

lemma BookKey_Cancel [order_simps]: "BookKey (Cancel r o') = BookKey o'"
  by (simp add: BookKey_def order_simps)

lemma fill_ok_ApplyFill:
  assumes "fill_ok o'" and "0 \<le> q" and "q \<le> RemainingQuantity o'"
  shows "fill_ok (ApplyFill q o')"
    and "o_FilledQuantity (ApplyFill q o') = o_FilledQuantity o' + q"
    and "RemainingQuantity (ApplyFill q o') = RemainingQuantity o' - q"
proof -
  have q: "q \<le> o_Quantity o' - o_FilledQuantity o'"
    using assms by (simp add: order_simps)
  show f: "o_FilledQuantity (ApplyFill q o') = o_FilledQuantity o' + q"
    using assms(1,2) q by (simp add: order_simps fill_ok_def wrap_simps)
  show ok: "fill_ok (ApplyFill q o')"
    using assms(1,2) q f by (simp add: fill_ok_def order_simps)
  show "RemainingQuantity (ApplyFill q o') = RemainingQuantity o' - q"
    using assms(1) ok f by (simp add: RemainingQuantity_eq) (simp add: order_simps)
qed

lemma d_fill_ok_ApplyFill:
  assumes "d_fill_ok d" and "0 \<le> q" and "q \<le> d_RemainingQuantity d"
  shows "d_fill_ok (d_ApplyFill q d)"
    and "d_FilledQuantity (d_ApplyFill q d) = d_FilledQuantity d + q"
    and "d_RemainingQuantity (d_ApplyFill q d) = d_RemainingQuantity d - q"
  using fill_ok_ApplyFill [of "ToOrder d" q] assms
  by (simp_all add: d_fill_ok_ToOrder d_RemainingQuantity_ToOrder ToOrder_d_ApplyFill
        flip: ToOrder_fields(8))

lemma fill_ok_Cancel [simp]: "fill_ok (Cancel r o') = fill_ok o'"
  by (simp add: fill_ok_def order_simps)

lemma d_fill_ok_Cancel [simp]: "d_fill_ok (d_Cancel r d) = d_fill_ok d"
  by (simp add: d_fill_ok_def order_simps)

lemma d_fill_ok_FromOrder [simp]: "d_fill_ok (FromOrder o') = fill_ok o'"
  by (simp add: d_fill_ok_def fill_ok_def order_simps)

lemma RemainingQuantity_Cancel [simp]: "RemainingQuantity (Cancel r o') = RemainingQuantity o'"
  by (simp add: RemainingQuantity_def order_simps)

lemma d_RemainingQuantity_Cancel [simp]: "d_RemainingQuantity (d_Cancel r d) = d_RemainingQuantity d"
  by (simp add: d_RemainingQuantity_def order_simps)

lemma RemainingQuantity_ToOrder [simp]: "RemainingQuantity (ToOrder d) = d_RemainingQuantity d"
  by (simp add: d_RemainingQuantity_ToOrder)

lemma d_RemainingQuantity_FromOrder [simp]: "d_RemainingQuantity (FromOrder o') = RemainingQuantity o'"
  by (simp add: d_RemainingQuantity_ToOrder)

section \<open>Keys and identifiers\<close>

lemma BuildBookKey_normU: "BuildBookKey m out = itoa m @ CHR '':'' # normU out"
  by (simp add: BuildBookKey_def normU_def)

lemma BuildBookKey_inject: "BuildBookKey m x = BuildBookKey n y \<longleftrightarrow> m = n \<and> normU x = normU y"
  by (simp add: BuildBookKey_normU itoa_key_inject)

lemma splitColon_key: "CHR '':'' \<notin> set p \<Longrightarrow> splitColon (p @ CHR '':'' # r) = Some (p, r)"
proof -
  assume a: "CHR '':'' \<notin> set p"
  then have "dropWhile (\<lambda>c. c \<noteq> CHR '':'') (p @ CHR '':'' # r) = CHR '':'' # r"
    by (auto simp: dropWhile_append)
  moreover have "takeWhile (\<lambda>c. c \<noteq> CHR '':'') (p @ CHR '':'' # r) = p"
    using a by (auto simp: takeWhile_append)
  ultimately show ?thesis by (simp add: splitColon_def)
qed

lemma TrimSpace_BuildBookKey: "TrimSpace (BuildBookKey m x) = BuildBookKey m x"
proof (rule TrimSpace_id)
  show "\<not> is_space (hd (BuildBookKey m x))"
    using itoa_hd_not_space [of m] by (simp add: BuildBookKey_def)
  have "\<not> is_space (CHR '':'')" by (simp add: is_space_def)
  then show "\<not> is_space (last (BuildBookKey m x))"
    using TrimSpace_ends(2) [of "normU x"] by (simp add: BuildBookKey_normU)
qed

text \<open>
  A book key determines its market and outcome: parsing a key that \<open>BuildBookKey\<close>
  produced gives back the market and the normalised outcome, so distinct books never share a
  key and a snapshot's market and outcome are the book's own.
\<close>

lemma parseBookKey_BuildBookKey:
  assumes "in_int64 marketID"
  shows "parseBookKey (BuildBookKey marketID outcome) = Some (marketID, normU outcome)"
proof -
  have "splitColon (BuildBookKey marketID outcome) = Some (itoa marketID, normU outcome)"
    using itoa_no_colon by (simp add: BuildBookKey_normU splitColon_key)
  then show ?thesis
    using assms by (simp add: parseBookKey_def TrimSpace_BuildBookKey ParseInt_itoa)
qed

lemma digits_val_zeros: "digits_val 0 (replicate k (CHR ''0'') @ ds) = digits_val 0 ds"
  by (induction k) (simp_all add: digit_val_def)

text \<open>The identifier of a trade determines its book and its number, zero padding included.\<close>

lemma tradeID_inj: "DeterministicTradeID k s = DeterministicTradeID k' s' \<longleftrightarrow> k = k' \<and> s = s'"
proof
  define pd where "pd s = replicate (8 - length (utoa (unat s))) (CHR ''0'') @ utoa (unat s)"
    for s :: u64
  have id: "DeterministicTradeID k s = k @ CHR '':'' # pd s" for k s
    by (simp add: DeterministicTradeID_def pd_def Let_def)
  have val: "digits_val 0 (pd s) = unat s" for s
    by (simp add: pd_def digits_val_zeros str_simps)
  have "CHR '':'' \<notin> set (pd s)" for s
    using utoa_digits [of "unat s"] by (auto simp: pd_def list_all_iff dest: digit_not_special)
  then have sep: "CHR '':'' \<notin> set (rev (pd s))" for s by simp
  assume "DeterministicTradeID k s = DeterministicTradeID k' s'"
  then have "rev (pd s) @ CHR '':'' # rev k = rev (pd s') @ CHR '':'' # rev k'"
    unfolding id by (metis append_Cons append_Nil append_assoc rev_append rev_singleton_conv
        append_eq_Cons_conv rev.simps(2))
  then have "pd s = pd s'" and "k = k'"
    using join_sep_inject [OF sep sep] by simp_all
  then show "k = k' \<and> s = s'"
    using val [of s] val [of s'] by (metis unsigned_word_eqI)
qed simp

end
