(* ===== verification/Match_Bucket.thy ===== *)
theory Match_Bucket
  imports Match_Types
begin

text \<open>
  The storage of resting orders: the intrusive lists of \<open>matching/model/bucket.go\<close> and
  the slab allocator of \<open>order_pool.go\<close>, at the level of pointers. An address is a slab
  number and an index into that slab: \<open>grow\<close> copies the slab, and the pointers handed out
  before keep pointing into the old one. A \<open>Node\<close> is the Go struct \<open>DirectOrder\<close> with
  its pointers; its \<open>bucket\<close> back pointer, which no code reads, is left out. The theorems
  show that the allocator never hands out a slot in use and that the pointer surgery of
  \<open>Append\<close> and \<open>Remove\<close> implements a first-in first-out list with removal.
\<close>

section \<open>Memory\<close>

datatype addr = Addr (a_slab: nat) (a_idx: nat)

record Node =
  n_data :: DirectOrder
  n_prev :: "addr option"
  n_next :: "addr option"
  n_poolID :: nat

type_synonym heap = "addr \<Rightarrow> Node"

definition n_reset :: "Node \<Rightarrow> Node" where
  "n_reset n = n\<lparr>n_data := zeroDirectOrder, n_prev := None, n_next := None\<rparr>"

definition n_FromOrder :: "Order \<Rightarrow> Node \<Rightarrow> Node" where
  "n_FromOrder o' n = n\<lparr>n_data := FromOrder o', n_prev := None, n_next := None\<rparr>"

definition zeroNode :: "nat \<Rightarrow> Node" where
  "zeroNode i = \<lparr>n_data = zeroDirectOrder, n_prev = None, n_next = None, n_poolID = i\<rparr>"

section \<open>The order pool (order_pool.go)\<close>

text \<open>\<open>p_gen\<close> is the number of the current slab and \<open>p_len\<close> its length.\<close>

record OrderPool =
  p_mem :: heap
  p_gen :: nat
  p_len :: nat
  p_free :: "nat list"
  p_next :: nat

abbreviation defaultPoolSize :: int where
  "defaultPoolSize \<equiv> 64"

definition NewOrderPool :: "int \<Rightarrow> OrderPool" where
  "NewOrderPool initialSize =
     (let size = (if initialSize \<le> 0 then defaultPoolSize else initialSize)
      in \<lparr>p_mem = (\<lambda>a. zeroNode (a_idx a)), p_gen = 0, p_len = nat size, p_free = [], p_next = 0\<rparr>)"

definition grow :: "OrderPool \<Rightarrow> OrderPool" where
  "grow p =
     (let oldLen = p_len p; newLen = oldLen * 2;
          mem = (\<lambda>a. if a_slab a = Suc (p_gen p)
                      then (if a_idx a < oldLen then p_mem p (Addr (p_gen p) (a_idx a))
                            else zeroNode (a_idx a))
                      else p_mem p a)
      in p\<lparr>p_mem := mem, p_gen := Suc (p_gen p), p_len := newLen\<rparr>)"

definition Get :: "OrderPool \<Rightarrow> addr \<times> OrderPool" where
  "Get p =
     (if 0 < length (p_free p) then
        let a = Addr (p_gen p) (last (p_free p))
        in (a, p\<lparr>p_free := butlast (p_free p), p_mem := (p_mem p)(a := n_reset (p_mem p a))\<rparr>)
      else
        let p1 = (if p_len p \<le> p_next p then grow p else p); a = Addr (p_gen p1) (p_next p1)
        in (a, p1\<lparr>p_mem := (p_mem p1)(a := (p_mem p1 a)\<lparr>n_poolID := p_next p1\<rparr>),
                  p_next := p_next p1 + 1\<rparr>))"

definition Put :: "addr \<Rightarrow> OrderPool \<Rightarrow> OrderPool" where
  "Put a p =
     p\<lparr>p_mem := (p_mem p)(a := n_reset (p_mem p a)), p_free := p_free p @ [n_poolID (p_mem p a)]\<rparr>"

section \<open>Buckets (bucket.go)\<close>

record Bucket =
  b_Price :: i64
  b_Head :: "addr option"
  b_Tail :: "addr option"
  b_Volume :: i64
  b_NumOrders :: "32 word"

definition Append :: "addr \<Rightarrow> Bucket \<times> heap \<Rightarrow> Bucket \<times> heap" where
  "Append a = (\<lambda>(b, h).
     let h1 = h(a := (h a)\<lparr>n_prev := b_Tail b, n_next := None\<rparr>);
         (b1, h2) = (case b_Tail b of
             Some t \<Rightarrow> (b, h1(t := (h1 t)\<lparr>n_next := Some a\<rparr>))
           | None \<Rightarrow> (b\<lparr>b_Head := Some a\<rparr>, h1));
         b2 = b1\<lparr>b_Tail := Some a\<rparr>
     in (b2\<lparr>b_Volume := wrap64 (b_Volume b2 + d_RemainingQuantity (n_data (h2 a))),
            b_NumOrders := b_NumOrders b2 + 1\<rparr>, h2))"

definition Remove :: "addr \<Rightarrow> Bucket \<times> heap \<Rightarrow> Bucket \<times> heap" where
  "Remove a = (\<lambda>(b, h).
     let (b1, h1) = (case n_prev (h a) of
             Some q \<Rightarrow> (b, h(q := (h q)\<lparr>n_next := n_next (h a)\<rparr>))
           | None \<Rightarrow> (b\<lparr>b_Head := n_next (h a)\<rparr>, h));
         (b2, h2) = (case n_next (h1 a) of
             Some q \<Rightarrow> (b1, h1(q := (h1 q)\<lparr>n_prev := n_prev (h1 a)\<rparr>))
           | None \<Rightarrow> (b1\<lparr>b_Tail := n_prev (h1 a)\<rparr>, h1))
     in (b2\<lparr>b_Volume := wrap64 (b_Volume b2 - d_RemainingQuantity (n_data (h2 a))),
            b_NumOrders := b_NumOrders b2 - 1\<rparr>,
         h2(a := (h2 a)\<lparr>n_prev := None, n_next := None\<rparr>)))"

definition IsEmpty :: "Bucket \<Rightarrow> bool" where
  "IsEmpty b \<longleftrightarrow> b_Head b = None"

definition TotalQuantity :: "Bucket \<Rightarrow> i64" where
  "TotalQuantity b = b_Volume b"

section \<open>The allocator\<close>

text \<open>\<open>pool_inv A p\<close>: the addresses \<open>A\<close> are in use and the free list and counter agree.\<close>

definition pool_inv :: "addr set \<Rightarrow> OrderPool \<Rightarrow> bool" where
  "pool_inv A p \<longleftrightarrow>
     0 < p_len p \<and> p_next p \<le> p_len p \<and> distinct (p_free p) \<and> (\<forall>i\<in>set (p_free p). i < p_next p) \<and>
     (\<forall>a\<in>A. a_slab a \<le> p_gen p \<and> a_idx a < p_next p \<and> a_idx a \<notin> set (p_free p)) \<and>
     inj_on a_idx A \<and>
     (\<forall>a. a_slab a \<le> p_gen p \<longrightarrow> n_poolID (p_mem p a) = a_idx a)"

lemma pool_inv_New: "pool_inv {} (NewOrderPool n)"
  by (simp add: pool_inv_def NewOrderPool_def Let_def zeroNode_def)

lemma pool_inv_mem:
  assumes "pool_inv A p" and "\<And>a. n_poolID (h a) = n_poolID (p_mem p a)"
  shows "pool_inv A (p\<lparr>p_mem := h\<rparr>)"
  using assms by (simp add: pool_inv_def)

lemma pool_inv_grow: "pool_inv A p \<Longrightarrow> pool_inv A (grow p)"
  by (auto simp: pool_inv_def grow_def Let_def zeroNode_def le_Suc_eq)

lemma grow_mem: "pool_inv A p \<Longrightarrow> a \<in> A \<Longrightarrow> p_mem (grow p) a = p_mem p a"
  by (cases a) (auto simp: pool_inv_def grow_def Let_def)

lemma Get_fresh:
  assumes inv: "pool_inv A p" and get: "Get p = (a, p')"
  shows "a \<notin> A" and "pool_inv (insert a A) p'" and "\<And>b. b \<in> A \<Longrightarrow> p_mem p' b = p_mem p b"
proof -
  have "a \<notin> A \<and> pool_inv (insert a A) p' \<and> (\<forall>b\<in>A. p_mem p' b = p_mem p b)"
  proof (cases "0 < length (p_free p)")
    case True
    then have free: "p_free p = butlast (p_free p) @ [last (p_free p)]" by simp
    define xs x where "xs = butlast (p_free p)" and "x = last (p_free p)"
    have fr: "p_free p = xs @ [x]" using free by (simp only: xs_def x_def)
    then have a: "a = Addr (p_gen p) x"
      and p': "p' = p\<lparr>p_free := xs, p_mem := (p_mem p)(a := n_reset (p_mem p a))\<rparr>"
      using get by (auto simp: Get_def Let_def)
    then show ?thesis
      using inv unfolding pool_inv_def fr by (auto simp: inj_on_def n_reset_def)
  next
    case False
    define q where "q = (if p_len p \<le> p_next p then grow p else p)"
    have q: "pool_inv A q" "\<And>b. b \<in> A \<Longrightarrow> p_mem q b = p_mem p b"
      using inv pool_inv_grow [OF inv] grow_mem [OF inv] by (simp_all add: q_def)
    have lt: "p_next q < p_len q"
      using inv by (auto simp: q_def pool_inv_def grow_def Let_def)
    have a: "a = Addr (p_gen q) (p_next q)"
      and p': "p' = q\<lparr>p_mem := (p_mem q)(a := (p_mem q a)\<lparr>n_poolID := p_next q\<rparr>), p_next := p_next q + 1\<rparr>"
      using get False by (auto simp: Get_def Let_def q_def)
    have "a \<notin> A" using q(1) by (auto simp: a pool_inv_def)
    moreover have "pool_inv (insert a A) p'"
      using q(1) lt by (fastforce simp: a p' pool_inv_def inj_on_def)
    ultimately show ?thesis using q(2) by (auto simp: p')
  qed
  then show "a \<notin> A" and "pool_inv (insert a A) p'" and "\<And>b. b \<in> A \<Longrightarrow> p_mem p' b = p_mem p b"
    by auto
qed

lemma pool_inv_Put:
  assumes "pool_inv A p" and "a \<in> A"
  shows "pool_inv (A - {a}) (Put a p)"
proof -
  have "n_poolID (p_mem p a) = a_idx a"
    using assms by (auto simp: pool_inv_def)
  then show ?thesis
    using assms by (auto simp: pool_inv_def Put_def n_reset_def inj_on_def)
qed

section \<open>Linked lists\<close>

text \<open>
  \<open>seg h p i xs l n\<close>: from \<open>i\<close> the \<open>next\<close> pointers run through \<open>xs\<close> to \<open>n\<close>,
  and from \<open>l\<close> the \<open>prev\<close> pointers run back through \<open>xs\<close> to \<open>p\<close>.
\<close>

fun seg :: "heap \<Rightarrow> addr option \<Rightarrow> addr option \<Rightarrow> addr list \<Rightarrow> addr option \<Rightarrow> addr option \<Rightarrow> bool" where
  "seg h p i [] l n \<longleftrightarrow> i = n \<and> l = p"
| "seg h p i (x # xs) l n \<longleftrightarrow> i = Some x \<and> n_prev (h x) = p \<and> seg h (Some x) (n_next (h x)) xs l n"

definition dll :: "heap \<Rightarrow> Bucket \<Rightarrow> addr list \<Rightarrow> bool" where
  "dll h b xs \<longleftrightarrow> distinct xs \<and> seg h None (b_Head b) xs (b_Tail b) None"

lemma seg_append:
  "seg h p i (xs @ ys) l n \<longleftrightarrow> (\<exists>j m. seg h p i xs j m \<and> seg h j m ys l n)"
  by (induction xs arbitrary: p i) auto

lemma seg_frame:
  "seg h p i xs l n \<Longrightarrow> (\<And>x. x \<in> set xs \<Longrightarrow> n_prev (h' x) = n_prev (h x) \<and> n_next (h' x) = n_next (h x))
   \<Longrightarrow> seg h' p i xs l n"
  by (induction xs arbitrary: p i) auto

lemma dll_frame:
  "dll h b xs \<Longrightarrow> (\<And>x. x \<in> set xs \<Longrightarrow> n_prev (h' x) = n_prev (h x) \<and> n_next (h' x) = n_next (h x))
   \<Longrightarrow> dll h' b xs"
  unfolding dll_def by (blast intro: seg_frame)

lemma dll_data: "dll (h(a := (h a)\<lparr>n_data := d\<rparr>)) b xs = dll h b xs"
proof -
  have "seg (h(a := (h a)\<lparr>n_data := d\<rparr>)) p i xs l n = seg h p i xs l n" for p i l n
    by (induction xs arbitrary: p i) auto
  then show ?thesis by (simp add: dll_def)
qed

text \<open>The \<open>next\<close> pointer at the end of a segment and the \<open>prev\<close> pointer at its start.\<close>

lemma seg_set_next:
  "seg h p i (xs @ [x]) l n \<Longrightarrow> x \<notin> set xs \<Longrightarrow> seg (h(x := (h x)\<lparr>n_next := m\<rparr>)) p i (xs @ [x]) l m"
  by (auto simp: seg_append intro: seg_frame)

lemma seg_set_prev:
  "seg h p i (x # xs) l n \<Longrightarrow> x \<notin> set xs \<Longrightarrow> seg (h(x := (h x)\<lparr>n_prev := q\<rparr>)) q i (x # xs) l n"
  by (auto intro: seg_frame)

lemma seg_last: "seg h p i xs l n \<Longrightarrow> l = (if xs = [] then p else Some (last xs))"
  by (induction xs arbitrary: p i) auto

lemma seg_first: "seg h p i xs l n \<Longrightarrow> i = (if xs = [] then n else Some (hd xs))"
  by (cases xs) auto

lemma dll_empty: "dll h b [] \<longleftrightarrow> b_Head b = None \<and> b_Tail b = None"
  by (auto simp: dll_def)

lemma dll_IsEmpty: "dll h b xs \<Longrightarrow> IsEmpty b \<longleftrightarrow> xs = []"
  by (cases xs) (auto simp: dll_def IsEmpty_def)

text \<open>Following \<open>next\<close> from an element of the list reaches the next element.\<close>

lemma dll_next:
  assumes "dll h b (xs @ a # ys)"
  shows "n_next (h a) = (case ys of [] \<Rightarrow> None | y # _ \<Rightarrow> Some y)"
  using assms by (cases ys) (auto simp: dll_def seg_append)

lemma Append_data: "n_data (snd (Append a (b, h)) c) = n_data (h c)"
  and Append_poolID: "n_poolID (snd (Append a (b, h)) c) = n_poolID (h c)"
  and Append_Price: "b_Price (fst (Append a (b, h))) = b_Price b"
  by (simp_all add: Append_def Let_def split: option.splits)

lemma Append_frame:
  assumes "dll h b xs" and "c \<noteq> a" and "c \<notin> set xs"
  shows "snd (Append a (b, h)) c = h c"
proof (cases "b_Tail b")
  case (Some t)
  then have "seg h None (b_Head b) xs (Some t) None" using assms(1) by (simp add: dll_def)
  from seg_last [OF this] have "t \<in> set xs" by (cases "xs = []") auto
  with assms(2,3) Some show ?thesis by (auto simp: Append_def Let_def)
qed (use assms in \<open>simp add: Append_def Let_def\<close>)

lemma Append_dll:
  assumes "dll h b xs" and "a \<notin> set xs"
  shows "dll (snd (Append a (b, h))) (fst (Append a (b, h))) (xs @ [a])"
proof (cases xs rule: rev_cases)
  case Nil
  then show ?thesis using assms by (simp add: dll_def Append_def Let_def)
next
  case (snoc zs z)
  have s: "seg h None (b_Head b) (zs @ [z]) (b_Tail b) None" and d: "distinct (zs @ [z])"
    using assms by (auto simp: dll_def snoc)
  have t: "b_Tail b = Some z" using seg_last [OF s] by simp
  let ?h1 = "h(a := (h a)\<lparr>n_prev := Some z, n_next := None\<rparr>)"
  have "seg ?h1 None (b_Head b) (zs @ [z]) (b_Tail b) None"
    using assms(2) by (intro seg_frame [OF s]) (auto simp: snoc)
  then have "seg (?h1(z := (?h1 z)\<lparr>n_next := Some a\<rparr>)) None (b_Head b) (zs @ [z]) (b_Tail b) (Some a)"
    using d by (intro seg_set_next) auto
  then show ?thesis
    using assms d t by (auto simp: dll_def Append_def Let_def snoc seg_append)
qed

lemma Remove_data: "n_data (snd (Remove a (b, h)) c) = n_data (h c)"
  and Remove_poolID: "n_poolID (snd (Remove a (b, h)) c) = n_poolID (h c)"
  and Remove_Price: "b_Price (fst (Remove a (b, h))) = b_Price b"
  by (simp_all add: Remove_def Let_def split: option.splits prod.splits)

text \<open>The two halves of \<open>Remove\<close>: unlinking on the left and on the right.\<close>

lemma unlink_left:
  assumes "seg h None i ys j (Some a)" and "distinct ys" and "a \<notin> set ys"
  shows "case j of None \<Rightarrow> ys = [] | Some q \<Rightarrow> q \<in> set ys \<and> seg (h(q := (h q)\<lparr>n_next := m\<rparr>)) None i ys j m"
proof (cases ys rule: rev_cases)
  case Nil
  then show ?thesis using assms by simp
next
  case (snoc zs z)
  then have "j = Some z" using seg_last [OF assms(1)] by simp
  then show ?thesis
    using seg_set_next [of h None i zs z j "Some a" m] assms by (simp add: snoc)
qed

lemma unlink_right:
  assumes "seg h (Some a) i zs l None" and "distinct zs" and "a \<notin> set zs"
  shows "case i of None \<Rightarrow> zs = [] \<and> l = Some a
         | Some q \<Rightarrow> q \<in> set zs \<and> seg (h(q := (h q)\<lparr>n_prev := j\<rparr>)) j i zs l None"
proof (cases zs)
  case Nil
  then show ?thesis using assms by simp
next
  case (Cons z ws)
  then show ?thesis
    using seg_set_prev [of h "Some a" i z ws l None j] assms by auto
qed

lemma Remove_dll:
  assumes "dll h b (ys @ a # zs)"
  shows "dll (snd (Remove a (b, h))) (fst (Remove a (b, h))) (ys @ zs)"
    and "c \<notin> set (ys @ a # zs) \<Longrightarrow> snd (Remove a (b, h)) c = h c"
proof -
  let ?j = "n_prev (h a)" and ?n = "n_next (h a)"
  have dis: "distinct ys" "distinct zs" "a \<notin> set ys" "a \<notin> set zs" "set ys \<inter> set zs = {}"
    using assms by (auto simp: dll_def)
  have L: "seg h None (b_Head b) ys ?j (Some a)" and R: "seg h (Some a) ?n zs (b_Tail b) None"
    using assms by (auto simp: dll_def seg_append)
  define b1 h1 where "b1 = (case ?j of Some q \<Rightarrow> b | None \<Rightarrow> b\<lparr>b_Head := ?n\<rparr>)"
    and "h1 = (case ?j of Some q \<Rightarrow> h(q := (h q)\<lparr>n_next := ?n\<rparr>) | None \<Rightarrow> h)"
  have L1: "seg h1 None (b_Head b1) ys ?j ?n"
    using unlink_left [OF L dis(1,3), of ?n] L by (cases ?j) (auto simp: b1_def h1_def)
  have h1: "h1 c = h c" if "c \<notin> set ys" for c
    using unlink_left [OF L dis(1,3), of ?n] that by (auto simp: h1_def split: option.splits)
  have "h1 x = h x" if "x \<in> set zs" for x
    using h1 [of x] that dis(5) by blast
  then have "seg h1 (Some a) ?n zs (b_Tail b) None"
    by (intro seg_frame [OF R]) simp
  then have R1: "seg h1 (Some a) ?n zs (b_Tail b1) None"
    by (simp add: b1_def split: option.splits)
  define b2 h2 where "b2 = (case ?n of Some q \<Rightarrow> b1 | None \<Rightarrow> b1\<lparr>b_Tail := ?j\<rparr>)"
    and "h2 = (case ?n of Some q \<Rightarrow> h1(q := (h1 q)\<lparr>n_prev := ?j\<rparr>) | None \<Rightarrow> h1)"
  have h2: "h2 c = h1 c" if "c \<notin> set zs" for c
    using unlink_right [OF R1 dis(2,4), of ?j] that by (auto simp: h2_def split: option.splits)
  have R2: "seg h2 ?j ?n zs (b_Tail b2) None"
    using unlink_right [OF R1 dis(2,4), of ?j] R1 by (cases ?n) (auto simp: b2_def h2_def)
  have "h2 x = h1 x" if "x \<in> set ys" for x
    using h2 [of x] that dis(5) by blast
  then have "seg h2 None (b_Head b1) ys ?j ?n"
    by (intro seg_frame [OF L1]) simp
  then have L2: "seg h2 None (b_Head b2) ys ?j ?n"
    by (cases ?n) (simp_all add: b2_def)
  have r: "snd (Remove a (b, h)) = h2(a := (h2 a)\<lparr>n_prev := None, n_next := None\<rparr>)"
    "b_Head (fst (Remove a (b, h))) = b_Head b2" "b_Tail (fst (Remove a (b, h))) = b_Tail b2"
    using h1 [OF dis(3)] unfolding b2_def h2_def b1_def h1_def Remove_def Let_def
    by (auto split: option.splits)
  have "seg h2 None (b_Head b2) (ys @ zs) (b_Tail b2) None"
    using L2 R2 by (auto simp: seg_append)
  then have "seg (snd (Remove a (b, h))) None (b_Head b2) (ys @ zs) (b_Tail b2) None"
    unfolding r(1) using dis by (auto intro: seg_frame)
  then show "dll (snd (Remove a (b, h))) (fst (Remove a (b, h))) (ys @ zs)"
    using dis by (simp add: dll_def r(2,3))
  show "snd (Remove a (b, h)) c = h c" if "c \<notin> set (ys @ a # zs)"
    using that h1 h2 by (auto simp: r(1))
qed

end
