(* ===== verification/Match_Book.thy ===== *)
theory Match_Book
  imports Match_Bitmap Match_Bucket "HOL-Library.AList"
begin

text \<open>
  The order book of the matching engine, \<open>matching/model/order_book_direct.go\<close>: fixed
  arrays of buckets, one per price and side, the price bitmaps, the best prices, the index from
  order identifiers to resting orders and the slab allocator. The arrays are functions of the
  index; an index outside \<open>[0, maxPrice)\<close> is a Go panic, and an operation that panics
  returns \<open>None\<close>. The Go map \<open>orderIndex\<close> is an association list with distinct keys;
  the order of its entries stands for Go's unspecified iteration order.

  The specification is a book in price-time priority: for each side one list of orders, best
  price first and oldest first within a price. The theorems show that every operation on the
  arrays, pointers and bitmaps implements the corresponding list operation.
\<close>

section \<open>The book\<close>

record OrderBookDirect =
  ob_Key :: string
  askBuckets :: "int \<Rightarrow> Bucket"
  bidBuckets :: "int \<Rightarrow> Bucket"
  askBitmap :: bitmap
  bidBitmap :: bitmap
  orderIndex :: "(string \<times> addr) list"
  bestAsk :: i64
  bestBid :: i64
  ob_pool :: OrderPool

definition emptyBucket :: "i64 \<Rightarrow> Bucket" where
  "emptyBucket price =
     \<lparr>b_Price = price, b_Head = None, b_Tail = None, b_Volume = 0, b_NumOrders = 0\<rparr>"

definition NewOrderBookDirect :: "string \<Rightarrow> OrderBookDirect" where
  "NewOrderBookDirect key =
     \<lparr>ob_Key = key, askBuckets = emptyBucket, bidBuckets = emptyBucket,
      askBitmap = (\<lambda>_. 0), bidBitmap = (\<lambda>_. 0), orderIndex = [], bestAsk = 0, bestBid = 0,
      ob_pool = NewOrderPool defaultPoolSize\<rparr>"

definition in_range :: "i64 \<Rightarrow> bool" where
  "in_range price \<longleftrightarrow> 0 \<le> price \<and> price < maxPrice"

definition HasOrder :: "OrderBookDirect \<Rightarrow> string \<Rightarrow> bool" where
  "HasOrder ob orderID \<longleftrightarrow> map_of (orderIndex ob) orderID \<noteq> None"

abbreviation ob_mem :: "OrderBookDirect \<Rightarrow> heap" where
  "ob_mem ob \<equiv> p_mem (ob_pool ob)"

abbreviation ob_data :: "OrderBookDirect \<Rightarrow> addr \<Rightarrow> DirectOrder" where
  "ob_data ob a \<equiv> n_data (ob_mem ob a)"

definition AddOrder :: "Order \<Rightarrow> OrderBookDirect \<Rightarrow> OrderBookDirect option" where
  "AddOrder order ob =
     (let (a, pool1) = Get (ob_pool ob);
          h = (p_mem pool1)(a := n_FromOrder order (p_mem pool1 a));
          price = o_Price order
      in if \<not> in_range price then None
         else if IsBuy order then
           let (b, h') = Append a (bidBuckets ob price, h)
           in Some (ob\<lparr>ob_pool := pool1\<lparr>p_mem := h'\<rparr>,
                       bidBuckets := (bidBuckets ob)(price := b),
                       bidBitmap := set_bit_at price (bidBitmap ob),
                       bestBid := (if bestBid ob = 0 \<or> bestBid ob < price then price else bestBid ob),
                       orderIndex := AList.update (o_OrderID order) a (orderIndex ob)\<rparr>)
         else
           let (b, h') = Append a (askBuckets ob price, h)
           in Some (ob\<lparr>ob_pool := pool1\<lparr>p_mem := h'\<rparr>,
                       askBuckets := (askBuckets ob)(price := b),
                       askBitmap := set_bit_at price (askBitmap ob),
                       bestAsk := (if bestAsk ob = 0 \<or> price < bestAsk ob then price else bestAsk ob),
                       orderIndex := AList.update (o_OrderID order) a (orderIndex ob)\<rparr>))"

definition removeFromSide :: "addr \<Rightarrow> OrderBookDirect \<Rightarrow> OrderBookDirect option" where
  "removeFromSide a ob =
     (let price = d_Price (ob_data ob a)
      in if \<not> in_range price then None
         else if d_IsBuy (ob_data ob a) then
           let (b, h') = Remove a (bidBuckets ob price, ob_mem ob);
               ob1 = ob\<lparr>ob_pool := (ob_pool ob)\<lparr>p_mem := h'\<rparr>, bidBuckets := (bidBuckets ob)(price := b)\<rparr>
           in if IsEmpty b then
                let ob2 = ob1\<lparr>bidBitmap := clear_bit_at price (bidBitmap ob1)\<rparr>
                in Some (if price = bestBid ob2 then ob2\<lparr>bestBid := scanBestBid (bidBitmap ob2)\<rparr> else ob2)
              else Some ob1
         else
           let (b, h') = Remove a (askBuckets ob price, ob_mem ob);
               ob1 = ob\<lparr>ob_pool := (ob_pool ob)\<lparr>p_mem := h'\<rparr>, askBuckets := (askBuckets ob)(price := b)\<rparr>
           in if IsEmpty b then
                let ob2 = ob1\<lparr>askBitmap := clear_bit_at price (askBitmap ob1)\<rparr>
                in Some (if price = bestAsk ob2 then ob2\<lparr>bestAsk := scanBestAsk (askBitmap ob2)\<rparr> else ob2)
              else Some ob1)"

definition RemoveDirectOrder :: "addr \<Rightarrow> OrderBookDirect \<Rightarrow> OrderBookDirect option" where
  "RemoveDirectOrder a ob =
     (case removeFromSide a ob of
        None \<Rightarrow> None
      | Some ob1 \<Rightarrow>
          Some (ob1\<lparr>orderIndex := AList.delete (d_OrderID (ob_data ob1 a)) (orderIndex ob1),
                    ob_pool := Put a (ob_pool ob1)\<rparr>))"

definition RemoveFromMap :: "string \<Rightarrow> OrderBookDirect \<Rightarrow> OrderBookDirect option" where
  "RemoveFromMap orderID ob =
     (case map_of (orderIndex ob) orderID of
        None \<Rightarrow> Some ob
      | Some a \<Rightarrow>
          (case removeFromSide a ob of
             None \<Rightarrow> None
           | Some ob1 \<Rightarrow>
               Some (ob1\<lparr>orderIndex := AList.delete orderID (orderIndex ob1),
                         ob_pool := Put a (ob_pool ob1)\<rparr>)))"

definition RemoveOrder :: "Order \<Rightarrow> OrderBookDirect \<Rightarrow> OrderBookDirect option" where
  "RemoveOrder order ob =
     (case map_of (orderIndex ob) (o_OrderID order) of
        None \<Rightarrow> Some ob
      | Some a \<Rightarrow>
          (case removeFromSide a ob of
             None \<Rightarrow> None
           | Some ob1 \<Rightarrow>
               Some (ob1\<lparr>orderIndex := AList.delete (o_OrderID order) (orderIndex ob1),
                         ob_pool := Put a (ob_pool ob1)\<rparr>)))"

definition BestBidPrice :: "OrderBookDirect \<Rightarrow> i64 \<times> bool" where
  "BestBidPrice ob = (if bestBid ob = 0 then (0, False) else (bestBid ob, True))"

definition BestAskPrice :: "OrderBookDirect \<Rightarrow> i64 \<times> bool" where
  "BestAskPrice ob = (if bestAsk ob = 0 then (0, False) else (bestAsk ob, True))"

definition IsCross :: "Order \<Rightarrow> OrderBookDirect \<Rightarrow> bool" where
  "IsCross order ob =
     (if IsBuy order then (if bestAsk ob = 0 then False else bestAsk ob \<le> o_Price order)
      else if bestBid ob = 0 then False else o_Price order \<le> bestBid ob)"

definition IsCrossWithPrice :: "Order \<Rightarrow> i64 \<Rightarrow> bool" where
  "IsCrossWithPrice order price = (if IsBuy order then price \<le> o_Price order else o_Price order \<le> price)"

definition GetDirectOrder :: "OrderBookDirect \<Rightarrow> string \<Rightarrow> addr option" where
  "GetDirectOrder ob orderID = map_of (orderIndex ob) orderID"

definition OrderCount :: "OrderBookDirect \<Rightarrow> nat" where
  "OrderCount ob = length (orderIndex ob)"

definition RestingOrders :: "OrderBookDirect \<Rightarrow> Order list" where
  "RestingOrders ob = map (\<lambda>(_, a). ToOrder (ob_data ob a)) (orderIndex ob)"

definition FirstAskBucket :: "OrderBookDirect \<Rightarrow> int option" where
  "FirstAskBucket ob = (if bestAsk ob = 0 then None else Some (bestAsk ob))"

definition FirstBidBucket :: "OrderBookDirect \<Rightarrow> int option" where
  "FirstBidBucket ob = (if bestBid ob = 0 then None else Some (bestBid ob))"

section \<open>Snapshots (snapshot.go)\<close>

record BookLevel =
  l_Price :: i64
  l_Quantity :: i64

record BookSnapshot =
  s_Key :: string
  s_MarketID :: i64
  s_Outcome :: string
  s_Bids :: "BookLevel list"
  s_Asks :: "BookLevel list"
  s_BestBid :: i64
  s_BestAsk :: i64

text \<open>The loops of \<open>Snapshot\<close>, with the number of levels still wanted as the counter.\<close>

fun snap_levels :: "(int \<Rightarrow> Bucket) \<Rightarrow> (int \<Rightarrow> int option) \<Rightarrow> nat \<Rightarrow> int option \<Rightarrow> BookLevel list" where
  "snap_levels bs nxt 0 b = []"
| "snap_levels bs nxt (Suc k) None = []"
| "snap_levels bs nxt (Suc k) (Some i) =
     \<lparr>l_Price = b_Price (bs i), l_Quantity = b_Volume (bs i)\<rparr> # snap_levels bs nxt k (nxt (b_Price (bs i)))"

definition Snapshot :: "int \<Rightarrow> OrderBookDirect \<Rightarrow> BookSnapshot" where
  "Snapshot limit0 ob =
     (let limit = (if limit0 \<le> 0 then 5 else limit0);
          bids = snap_levels (bidBuckets ob) (NextBidBucket (bidBitmap ob)) (nat limit) (FirstBidBucket ob);
          asks = snap_levels (askBuckets ob) (NextAskBucket (askBitmap ob)) (nat limit) (FirstAskBucket ob);
          (marketID, outcome) = (case parseBookKey (ob_Key ob) of Some (m, x) \<Rightarrow> (m, x) | None \<Rightarrow> (0, ''''))
      in \<lparr>s_Key = ob_Key ob, s_MarketID = marketID, s_Outcome = outcome, s_Bids = bids, s_Asks = asks,
          s_BestBid = (if 0 < bestBid ob then bestBid ob else 0),
          s_BestAsk = (if 0 < bestAsk ob then bestAsk ob else 0)\<rparr>)"

section \<open>The representation\<close>

text \<open>
  The two sides of the book are treated alike: \<open>True\<close> is the bid side, \<open>False\<close> the ask
  side. \<open>L s p\<close> is the list of the addresses resting at price \<open>p\<close> on side \<open>s\<close>.
\<close>

type_synonym layout = "bool \<Rightarrow> int \<Rightarrow> addr list"

definition side_buckets :: "bool \<Rightarrow> OrderBookDirect \<Rightarrow> int \<Rightarrow> Bucket" where
  "side_buckets s ob = (if s then bidBuckets ob else askBuckets ob)"

definition side_bitmap :: "bool \<Rightarrow> OrderBookDirect \<Rightarrow> bitmap" where
  "side_bitmap s ob = (if s then bidBitmap ob else askBitmap ob)"

definition side_best :: "bool \<Rightarrow> OrderBookDirect \<Rightarrow> i64" where
  "side_best s ob = (if s then bestBid ob else bestAsk ob)"

definition better :: "bool \<Rightarrow> int \<Rightarrow> int \<Rightarrow> bool" where
  "better s p q \<longleftrightarrow> (if s then q < p else p < q)"

definition best_ok :: "bool \<Rightarrow> (int \<Rightarrow> bool) \<Rightarrow> int \<Rightarrow> bool" where
  "best_ok s occ b \<longleftrightarrow> (if s then best_bid_of occ b else best_ask_of occ b)"

definition live :: "layout \<Rightarrow> addr set" where
  "live L = (\<Union>s p. set (L s p))"

definition side_rep :: "(int \<Rightarrow> addr list) \<Rightarrow> bool \<Rightarrow> OrderBookDirect \<Rightarrow> bool" where
  "side_rep M s ob \<longleftrightarrow>
     (\<forall>p. dll (ob_mem ob) (side_buckets s ob p) (M p) \<and> b_Price (side_buckets s ob p) = p) \<and>
     (\<forall>p a. a \<in> set (M p) \<longrightarrow>
        1 \<le> p \<and> p < maxPrice \<and> d_Price (ob_data ob a) = p \<and> d_IsBuy (ob_data ob a) = s) \<and>
     (\<forall>p. occupied (side_bitmap s ob) p \<longleftrightarrow> M p \<noteq> []) \<and>
     best_ok s (\<lambda>p. M p \<noteq> []) (side_best s ob)"

definition index_rep :: "layout \<Rightarrow> OrderBookDirect \<Rightarrow> bool" where
  "index_rep L ob \<longleftrightarrow>
     (\<forall>a\<in>live L. map_of (orderIndex ob) (d_OrderID (ob_data ob a)) = Some a) \<and>
     (\<forall>k a. map_of (orderIndex ob) k = Some a \<longrightarrow> a \<in> live L \<and> d_OrderID (ob_data ob a) = k) \<and>
     distinct (map fst (orderIndex ob))"

definition book_rep :: "layout \<Rightarrow> OrderBookDirect \<Rightarrow> bool" where
  "book_rep L ob \<longleftrightarrow> (\<forall>s. side_rep (L s) s ob) \<and> index_rep L ob \<and> pool_inv (live L) (ob_pool ob)"

lemma live_in: "a \<in> set (L s p) \<Longrightarrow> a \<in> live L"
  by (auto simp: live_def)

lemma side_repD:
  assumes "side_rep M s ob"
  shows "dll (ob_mem ob) (side_buckets s ob p) (M p)" and "b_Price (side_buckets s ob p) = p"
    and "a \<in> set (M p) \<Longrightarrow> 1 \<le> p" and "a \<in> set (M p) \<Longrightarrow> p < maxPrice"
    and "a \<in> set (M p) \<Longrightarrow> d_Price (ob_data ob a) = p"
    and "a \<in> set (M p) \<Longrightarrow> d_IsBuy (ob_data ob a) = s"
    and "occupied (side_bitmap s ob) p \<longleftrightarrow> M p \<noteq> []"
    and "best_ok s (\<lambda>p. M p \<noteq> []) (side_best s ob)"
  using assms unfolding side_rep_def by blast+

lemma book_repD:
  assumes "book_rep L ob"
  shows "side_rep (L s) s ob" and "index_rep L ob" and "pool_inv (live L) (ob_pool ob)"
  using assms by (auto simp: book_rep_def)

lemma index_repD:
  assumes "index_rep L ob"
  shows "a \<in> live L \<Longrightarrow> map_of (orderIndex ob) (d_OrderID (ob_data ob a)) = Some a"
    and "map_of (orderIndex ob) k = Some a \<Longrightarrow> a \<in> live L"
    and "map_of (orderIndex ob) k = Some a \<Longrightarrow> d_OrderID (ob_data ob a) = k"
    and "distinct (map fst (orderIndex ob))"
  using assms unfolding index_rep_def by blast+

text \<open>An address rests in one place only.\<close>

lemma rep_place:
  assumes "book_rep L ob" and "a \<in> set (L s p)" and "a \<in> set (L t q)"
  shows "s = t" and "p = q"
  using assms by (metis book_repD(1) side_repD(5,6))+

lemma side_rep_clean: "side_rep M s ob \<Longrightarrow> clean (side_bitmap s ob)"
  unfolding clean_def using side_repD(3,4,7) by (metis hd_in_set)

lemma best_ok_scan:
  "clean bm \<Longrightarrow> best_ok True (occupied bm) (scanBestBid bm)"
  "clean bm \<Longrightarrow> best_ok False (occupied bm) (scanBestAsk bm)"
  by (simp_all add: best_ok_def scanBestAsk_best scanBestBid_best)

lemma best_ok_insert:
  assumes "best_ok s occ b" and "1 \<le> p" and "p < maxPrice" and "\<And>q. occ' q \<longleftrightarrow> q = p \<or> occ q"
  shows "best_ok s occ' (if b = 0 \<or> better s p b then p else b)"
proof (cases s)
  case True
  then show ?thesis
    using assms by (auto simp: best_ok_def best_bid_of_def better_def)
next
  case False
  then show ?thesis
    using assms by (auto simp: best_ok_def best_ask_of_def better_def)
qed

lemma best_ok_delete:
  assumes "best_ok s occ b" and "p \<noteq> b" and "\<And>q. occ' q \<longleftrightarrow> q \<noteq> p \<and> occ q"
  shows "best_ok s occ' b"
  using assms by (auto simp: best_ok_def best_bid_of_def best_ask_of_def split: if_splits)

lemma best_ok_cong: "(\<And>q. occ' q \<longleftrightarrow> occ q) \<Longrightarrow> best_ok s occ' b = best_ok s occ b"
  by (simp add: best_ok_def best_bid_of_def best_ask_of_def)

lemma book_rep_New: "book_rep (\<lambda>_ _. []) (NewOrderBookDirect key)"
  by (auto simp: book_rep_def side_rep_def index_rep_def live_def NewOrderBookDirect_def
      side_buckets_def side_bitmap_def side_best_def best_ok_def best_ask_of_def best_bid_of_def
      emptyBucket_def dll_def occupied_def pool_inv_New)

section \<open>Adding an order\<close>

definition push :: "layout \<Rightarrow> bool \<Rightarrow> int \<Rightarrow> addr \<Rightarrow> layout" where
  "push L s p a = L(s := (L s)(p := L s p @ [a]))"

lemma set_push: "set (push L s p a t q) = set (L t q) \<union> (if t = s \<and> q = p then {a} else {})"
  by (auto simp: push_def)

lemma live_push: "live (push L s p a) = insert a (live L)"
proof -
  have "a \<in> live (push L s p a)"
    by (rule live_in [of _ _ s p]) (simp add: push_def)
  moreover have "live L \<subseteq> live (push L s p a)" "live (push L s p a) \<subseteq> insert a (live L)"
    unfolding live_def set_push by (auto split: if_splits)
  ultimately show ?thesis by blast
qed

lemma push_other: "q \<noteq> p \<or> t \<noteq> s \<Longrightarrow> push L s p a t q = L t q"
  by (auto simp: push_def)

text \<open>Writing the fields of one side, and reading them back.\<close>

definition set_side :: "bool \<Rightarrow> (int \<Rightarrow> Bucket) \<Rightarrow> bitmap \<Rightarrow> i64 \<Rightarrow> OrderBookDirect \<Rightarrow> OrderBookDirect" where
  "set_side s bs bm best ob =
     (if s then ob\<lparr>bidBuckets := bs, bidBitmap := bm, bestBid := best\<rparr>
      else ob\<lparr>askBuckets := bs, askBitmap := bm, bestAsk := best\<rparr>)"

lemma set_side_simps [simp]:
  "side_buckets t (set_side s bs bm best ob) = (if t = s then bs else side_buckets t ob)"
  "side_bitmap t (set_side s bs bm best ob) = (if t = s then bm else side_bitmap t ob)"
  "side_best t (set_side s bs bm best ob) = (if t = s then best else side_best t ob)"
  "ob_Key (set_side s bs bm best ob) = ob_Key ob"
  "orderIndex (set_side s bs bm best ob) = orderIndex ob"
  "ob_pool (set_side s bs bm best ob) = ob_pool ob"
  by (auto simp: set_side_def side_buckets_def side_bitmap_def side_best_def)

lemma side_pool_simps [simp]:
  "side_buckets t (ob\<lparr>ob_pool := x\<rparr>) = side_buckets t ob"
  "side_bitmap t (ob\<lparr>ob_pool := x\<rparr>) = side_bitmap t ob"
  "side_best t (ob\<lparr>ob_pool := x\<rparr>) = side_best t ob"
  "side_buckets t (ob\<lparr>orderIndex := y\<rparr>) = side_buckets t ob"
  "side_bitmap t (ob\<lparr>orderIndex := y\<rparr>) = side_bitmap t ob"
  "side_best t (ob\<lparr>orderIndex := y\<rparr>) = side_best t ob"
  by (simp_all add: side_buckets_def side_bitmap_def side_best_def)

lemma AddOrder_eq:
  assumes "in_range (o_Price o')" and "Get (ob_pool ob) = (a, pool1)" and "s = IsBuy o'"
    and "Append a (side_buckets s ob (o_Price o'), (p_mem pool1)(a := n_FromOrder o' (p_mem pool1 a))) = (b, h)"
  shows "AddOrder o' ob = Some ((set_side s ((side_buckets s ob)(o_Price o' := b))
      (set_bit_at (o_Price o') (side_bitmap s ob))
      (if side_best s ob = 0 \<or> better s (o_Price o') (side_best s ob) then o_Price o' else side_best s ob)
      ob)\<lparr>ob_pool := pool1\<lparr>p_mem := h\<rparr>, orderIndex := AList.update (o_OrderID o') a (orderIndex ob)\<rparr>)"
  using assms
  by (cases s) (auto simp: AddOrder_def set_side_def side_buckets_def side_bitmap_def side_best_def better_def Let_def)

lemma AddOrder_rep:
  assumes rep: "book_rep L ob" and price: "1 \<le> o_Price o'" "o_Price o' < maxPrice"
    and new: "\<not> HasOrder ob (o_OrderID o')"
  obtains a ob' where "AddOrder o' ob = Some ob'" and "ob_Key ob' = ob_Key ob" and "a \<notin> live L"
    and "book_rep (push L (IsBuy o') (o_Price o') a) ob'"
    and "ob_data ob' a = FromOrder o'" and "\<And>b. b \<in> live L \<Longrightarrow> ob_data ob' b = ob_data ob b"
proof -
  let ?p = "o_Price o'" and ?s = "IsBuy o'"
  obtain a pool1 where get: "Get (ob_pool ob) = (a, pool1)" by fastforce
  note G = Get_fresh [OF book_repD(3) [OF rep] get]
  define h where "h = (p_mem pool1)(a := n_FromOrder o' (p_mem pool1 a))"
  define r where "r = Append a (side_buckets ?s ob ?p, h)"
  define ob' where "ob' = (set_side ?s ((side_buckets ?s ob)(?p := fst r)) (set_bit_at ?p (side_bitmap ?s ob))
      (if side_best ?s ob = 0 \<or> better ?s ?p (side_best ?s ob) then ?p else side_best ?s ob)
      ob)\<lparr>ob_pool := pool1\<lparr>p_mem := snd r\<rparr>, orderIndex := AList.update (o_OrderID o') a (orderIndex ob)\<rparr>"
  have add: "AddOrder o' ob = Some ob'"
    using AddOrder_eq [OF _ get refl, of o' "fst r" "snd r"] price
    by (simp add: in_range_def ob'_def h_def r_def)
  have key: "ob_Key ob' = ob_Key ob"
    and pool: "ob_pool ob' = pool1\<lparr>p_mem := snd r\<rparr>"
    and bk: "\<And>t. side_buckets t ob' = (if t = ?s then (side_buckets ?s ob)(?p := fst r) else side_buckets t ob)"
    and bm: "\<And>t. side_bitmap t ob' = (if t = ?s then set_bit_at ?p (side_bitmap ?s ob) else side_bitmap t ob)"
    and best: "\<And>t. side_best t ob' =
              (if t = ?s \<and> (side_best ?s ob = 0 \<or> better ?s ?p (side_best ?s ob)) then ?p else side_best t ob)"
    and idx: "orderIndex ob' = AList.update (o_OrderID o') a (orderIndex ob)"
    by (simp_all add: ob'_def)
  have hl: "h b = ob_mem ob b" if "b \<in> live L" for b
    using that G(1,3) by (auto simp: h_def)
  have dll: "dll h (side_buckets t ob q) (L t q)" for t q
    using hl by (intro dll_frame [OF side_repD(1) [OF book_repD(1) [OF rep]]]) (simp add: live_in)
  have data: "n_data (snd r b) = n_data (h b)" for b
    by (simp add: r_def Append_data)
  have frame: "snd r b = h b" if "b \<noteq> a" "b \<notin> set (L ?s ?p)" for b
    unfolding r_def using dll that by (rule Append_frame)
  have da: "ob_data ob' a = FromOrder o'" and db: "\<And>b. b \<in> live L \<Longrightarrow> ob_data ob' b = ob_data ob b"
    using hl by (simp_all add: pool data) (simp add: h_def n_FromOrder_def)
  have fresh: "a \<notin> set (L t q)" for t q using G(1) live_in by blast
  have side: "side_rep (push L ?s ?p a t) t ob'" for t
    unfolding side_rep_def
  proof (intro conjI allI impI)
    fix q
    show "dll (ob_mem ob') (side_buckets t ob' q) (push L ?s ?p a t q)"
    proof (cases "t = ?s \<and> q = ?p")
      case True
      then show ?thesis
        using Append_dll [OF dll fresh] by (simp add: pool bk push_def r_def)
    next
      case False
      have "snd r x = h x" if "x \<in> set (L t q)" for x
      proof (rule frame)
        show "x \<noteq> a" using fresh that by blast
        show "x \<notin> set (L ?s ?p)" using False rep_place [OF rep that] by blast
      qed
      then have "dll (snd r) (side_buckets t ob q) (L t q)"
        by (intro dll_frame [OF dll]) simp
      then show ?thesis using False by (auto simp: pool bk push_def)
    qed
    show "b_Price (side_buckets t ob' q) = q"
      using side_repD(2) [OF book_repD(1) [OF rep]] by (auto simp: bk r_def Append_Price)
    show "occupied (side_bitmap t ob') q \<longleftrightarrow> push L ?s ?p a t q \<noteq> []"
      using side_repD(7) [OF book_repD(1) [OF rep]] price
      by (auto simp: bm occupied_set_bit_at push_def)
  next
    fix q c assume c: "c \<in> set (push L ?s ?p a t q)"
    have "1 \<le> q \<and> q < maxPrice \<and> d_Price (ob_data ob' c) = q \<and> d_IsBuy (ob_data ob' c) = t"
    proof (cases "c = a")
      case True
      then have "q = ?p" "t = ?s" using c fresh by (auto simp: push_def split: if_splits)
      then show ?thesis using True price da by (simp add: order_simps d_IsBuy_def IsBuy_def)
    next
      case False
      then have "c \<in> set (L t q)" using c by (auto simp: push_def split: if_splits)
      then show ?thesis
        using db [OF live_in] side_repD(3-6) [OF book_repD(1) [OF rep]] by simp
    qed
    then show "1 \<le> q" "q < maxPrice" "d_Price (ob_data ob' c) = q" "d_IsBuy (ob_data ob' c) = t"
      by auto
  next
    have old: "best_ok t (\<lambda>p. L t p \<noteq> []) (side_best t ob)"
      by (rule side_repD(8) [OF book_repD(1) [OF rep]])
    show "best_ok t (\<lambda>p. push L ?s ?p a t p \<noteq> []) (side_best t ob')"
    proof (cases "t = ?s")
      case True
      have "best_ok t (\<lambda>p. push L ?s ?p a t p \<noteq> [])
          (if side_best t ob = 0 \<or> better t ?p (side_best t ob) then ?p else side_best t ob)"
        by (rule best_ok_insert [OF old price]) (auto simp: push_def True)
      then show ?thesis using True by (auto simp: best split: if_splits)
    next
      case False
      then show ?thesis using old by (simp add: best push_def)
    qed
  qed
  have "index_rep (push L ?s ?p a) ob'"
    unfolding index_rep_def live_push idx
  proof (intro conjI ballI allI impI)
    fix b assume b: "b \<in> insert a (live L)"
    show "map_of (AList.update (o_OrderID o') a (orderIndex ob)) (d_OrderID (ob_data ob' b)) = Some b"
    proof (cases "b = a")
      case True
      then show ?thesis by (simp add: da update_conv' order_simps)
    next
      case False
      then have l: "b \<in> live L" using b by simp
      then have "d_OrderID (ob_data ob b) \<noteq> o_OrderID o'"
        using index_repD(1) [OF book_repD(2) [OF rep]] new unfolding HasOrder_def by force
      then show ?thesis
        using l index_repD(1) [OF book_repD(2) [OF rep]] by (simp add: db update_conv')
    qed
  next
    fix k b assume k: "map_of (AList.update (o_OrderID o') a (orderIndex ob)) k = Some b"
    have "b \<in> insert a (live L) \<and> d_OrderID (ob_data ob' b) = k"
    proof (cases "k = o_OrderID o'")
      case True
      then show ?thesis using k da by (auto simp: update_conv' order_simps)
    next
      case False
      then have "map_of (orderIndex ob) k = Some b" using k by (simp add: update_conv')
      then show ?thesis using index_repD(2,3) [OF book_repD(2) [OF rep]] db by simp
    qed
    then show "b \<in> insert a (live L)" and "d_OrderID (ob_data ob' b) = k" by simp_all
  next
    show "distinct (map fst (AList.update (o_OrderID o') a (orderIndex ob)))"
      using index_repD(4) [OF book_repD(2) [OF rep]] by (rule distinct_update)
  qed
  moreover have "pool_inv (live (push L ?s ?p a)) (ob_pool ob')"
    unfolding live_push pool using G(2) by (rule pool_inv_mem)
      (simp add: r_def Append_poolID h_def n_FromOrder_def)
  ultimately have "book_rep (push L ?s ?p a) ob'" using side by (simp add: book_rep_def)
  then show thesis using that [OF add key G(1)] da db by blast
qed

section \<open>Removing an order\<close>

definition pull :: "layout \<Rightarrow> bool \<Rightarrow> int \<Rightarrow> addr \<Rightarrow> layout" where
  "pull L s p a = L(s := (L s)(p := remove1 a (L s p)))"

definition scan :: "bool \<Rightarrow> bitmap \<Rightarrow> i64" where
  "scan s bm = (if s then scanBestBid bm else scanBestAsk bm)"

lemma removeFromSide_eq:
  assumes "in_range (d_Price (ob_data ob a))" and "s = d_IsBuy (ob_data ob a)"
    and "p = d_Price (ob_data ob a)"
    and "Remove a (side_buckets s ob p, ob_mem ob) = (b, h)"
    and "bm = (if IsEmpty b then clear_bit_at p (side_bitmap s ob) else side_bitmap s ob)"
  shows "removeFromSide a ob = Some ((set_side s ((side_buckets s ob)(p := b)) bm
      (if IsEmpty b \<and> p = side_best s ob then scan s bm else side_best s ob) ob)
      \<lparr>ob_pool := (ob_pool ob)\<lparr>p_mem := h\<rparr>\<rparr>)"
  using assms
  by (cases s) (auto simp: removeFromSide_def set_side_def side_buckets_def side_bitmap_def
      side_best_def scan_def Let_def)

lemma remove1_split: "a \<in> set xs \<Longrightarrow> distinct xs \<Longrightarrow> \<exists>ys zs. xs = ys @ a # zs \<and> remove1 a xs = ys @ zs"
  by (induction xs) (auto intro: exI [of _ "[]"], metis append_Cons)

lemma RemoveDirectOrder_rep:
  assumes rep: "book_rep L ob" and a: "a \<in> set (L s p)"
  obtains ob' where "RemoveDirectOrder a ob = Some ob'" and "ob_Key ob' = ob_Key ob"
    and "book_rep (pull L s p a) ob'" and "\<And>b. b \<noteq> a \<Longrightarrow> ob_data ob' b = ob_data ob b"
    and "live (pull L s p a) = live L - {a}"
    and "orderIndex ob' = AList.delete (d_OrderID (ob_data ob a)) (orderIndex ob)"
proof -
  note S = side_repD [OF book_repD(1) [OF rep]]
  have pr: "1 \<le> p" "p < maxPrice" "d_Price (ob_data ob a) = p" "d_IsBuy (ob_data ob a) = s"
    using S(3-6) [OF a] by simp_all
  have dis: "distinct (L t q)" for t q using S(1) by (simp add: dll_def)
  define r where "r = Remove a (side_buckets s ob p, ob_mem ob)"
  define bm where "bm = (if IsEmpty (fst r) then clear_bit_at p (side_bitmap s ob) else side_bitmap s ob)"
  define ob1 where "ob1 = (set_side s ((side_buckets s ob)(p := fst r)) bm
      (if IsEmpty (fst r) \<and> p = side_best s ob then scan s bm else side_best s ob) ob)
      \<lparr>ob_pool := (ob_pool ob)\<lparr>p_mem := snd r\<rparr>\<rparr>"
  define ob' where "ob' = ob1\<lparr>orderIndex := AList.delete (d_OrderID (ob_data ob1 a)) (orderIndex ob1),
      ob_pool := Put a (ob_pool ob1)\<rparr>"
  have "removeFromSide a ob = Some ob1"
    unfolding ob1_def by (rule removeFromSide_eq) (use pr in \<open>simp_all add: in_range_def r_def bm_def\<close>)
  then have rem: "RemoveDirectOrder a ob = Some ob'"
    by (simp add: RemoveDirectOrder_def ob'_def)
  have data1: "n_data (snd r b) = ob_data ob b" for b by (simp add: r_def Remove_data)
  have key: "ob_Key ob' = ob_Key ob"
    and bk: "\<And>t. side_buckets t ob' = (if t = s then (side_buckets s ob)(p := fst r) else side_buckets t ob)"
    and bmp: "\<And>t. side_bitmap t ob' = (if t = s then bm else side_bitmap t ob)"
    and best: "\<And>t. side_best t ob' = (if t = s \<and> IsEmpty (fst r) \<and> p = side_best s ob then scan s bm else side_best t ob)"
    and idx: "orderIndex ob' = AList.delete (d_OrderID (ob_data ob a)) (orderIndex ob)"
    and mem: "ob_mem ob' = (snd r)(a := n_reset (snd r a))"
    by (simp_all add: ob'_def ob1_def data1 Put_def)
  have db: "ob_data ob' b = ob_data ob b" if "b \<noteq> a" for b
    using that by (simp add: mem data1)
  obtain ys zs where spl: "L s p = ys @ a # zs" and rm: "remove1 a (L s p) = ys @ zs"
    using remove1_split [OF a dis] by blast
  have sub: "set (pull L s p a t q) = set (L t q) - {a}" for t q
  proof (cases "t = s \<and> q = p")
    case True
    then show ?thesis using dis [of s p] by (simp add: pull_def set_remove1_eq)
  next
    case False
    then have "a \<notin> set (L t q)" using rep_place [OF rep a, of t q] by blast
    then show ?thesis using False by (auto simp: pull_def)
  qed
  then have anot: "a \<notin> set (pull L s p a t q)" for t q by blast
  have live: "live (pull L s p a) = live L - {a}"
    unfolding live_def sub by auto
  have D: "dll (ob_mem ob) (side_buckets s ob p) (ys @ a # zs)" using S(1) [of s p] spl by simp
  have R: "dll (snd r) (fst r) (ys @ zs)" using Remove_dll(1) [OF D] by (simp add: r_def)
  have frame: "snd r b = ob_mem ob b" if "b \<notin> set (L s p)" for b
    using Remove_dll(2) [OF D, of b] that by (simp add: r_def spl)
  have emp: "IsEmpty (fst r) \<longleftrightarrow> pull L s p a s p = []"
    using dll_IsEmpty [OF R] by (simp add: pull_def rm)
  have occ: "occupied (side_bitmap t ob') q \<longleftrightarrow> pull L s p a t q \<noteq> []" for t q
  proof (cases "t = s \<and> q = p")
    case True
    then show ?thesis using S(7) [of s p] a pr(1) emp by (auto simp: bmp bm_def occupied_clear_bit_at)
  next
    case False
    then show ?thesis using S(7) [of t q] pr(1) by (auto simp: bmp bm_def occupied_clear_bit_at pull_def)
  qed
  have side: "side_rep (pull L s p a t) t ob'" for t
    unfolding side_rep_def
  proof (intro conjI allI impI)
    fix q
    have "dll (snd r) (side_buckets t ob' q) (pull L s p a t q)"
    proof (cases "t = s \<and> q = p")
      case True
      then show ?thesis using R by (simp add: bk pull_def rm)
    next
      case False
      have "snd r x = ob_mem ob x" if "x \<in> set (L t q)" for x
        using False rep_place [OF rep that, of s p] by (intro frame) blast
      then have "dll (snd r) (side_buckets t ob q) (L t q)"
        by (intro dll_frame [OF S(1)]) simp
      then show ?thesis using False by (auto simp: bk pull_def)
    qed
    then show "dll (ob_mem ob') (side_buckets t ob' q) (pull L s p a t q)"
      by (rule dll_frame) (use anot in \<open>auto simp: mem\<close>)
    show "b_Price (side_buckets t ob' q) = q"
      using S(2) by (auto simp: bk r_def Remove_Price)
    show "occupied (side_bitmap t ob') q \<longleftrightarrow> pull L s p a t q \<noteq> []" by (rule occ)
  next
    fix q c assume "c \<in> set (pull L s p a t q)"
    then have c: "c \<in> set (L t q)" "c \<noteq> a" by (auto simp: sub)
    show "1 \<le> q" "q < maxPrice" "d_Price (ob_data ob' c) = q" "d_IsBuy (ob_data ob' c) = t"
      using S(3-6) [OF c(1)] db [OF c(2)] by simp_all
  next
    have old: "best_ok t (\<lambda>p. L t p \<noteq> []) (side_best t ob)" by (rule S(8))
    show "best_ok t (\<lambda>q. pull L s p a t q \<noteq> []) (side_best t ob')"
    proof (cases "t = s \<and> IsEmpty (fst r)")
      case True
      have "clean (side_bitmap s ob)" by (rule side_rep_clean [OF book_repD(1) [OF rep]])
      then have cl: "clean bm"
        using pr(1) by (auto simp: clean_def bm_def occupied_clear_bit_at)
      show ?thesis
      proof (cases "p = side_best s ob")
        case eq: True
        have "best_ok s (occupied bm) (scan s bm)"
          using best_ok_scan [OF cl] by (cases s) (simp_all add: scan_def)
        moreover have "occupied bm = (\<lambda>q. pull L s p a s q \<noteq> [])"
        proof
          show "occupied bm q = (pull L s p a s q \<noteq> [])" for q using occ [of s q] by (simp only: bmp refl if_True)
        qed
        ultimately have "best_ok s (\<lambda>q. pull L s p a s q \<noteq> []) (scan s bm)" by (simp only:)
        then show ?thesis using True eq by (simp add: best)
      next
        case False
        then have "best_ok t (\<lambda>q. pull L s p a t q \<noteq> []) (side_best t ob)"
          using True emp by (intro best_ok_delete [OF old, of p]) (auto simp: pull_def)
        then show ?thesis using False by (simp add: best)
      qed
    next
      case False
      then have "(pull L s p a t q \<noteq> []) = (L t q \<noteq> [])" for q
        using emp a by (auto simp: pull_def)
      moreover have "side_best t ob' = side_best t ob" using False by (auto simp: best)
      ultimately show ?thesis using old by simp
    qed
  qed
  note ia = index_repD(1) [OF book_repD(2) [OF rep]]
  have "index_rep (pull L s p a) ob'"
    unfolding index_rep_def live idx
  proof (intro conjI ballI allI impI)
    fix b assume b: "b \<in> live L - {a}"
    then have "d_OrderID (ob_data ob b) \<noteq> d_OrderID (ob_data ob a)"
      using ia [of b] ia [OF live_in [of a L, OF a]] by auto
    then show "map_of (AList.delete (d_OrderID (ob_data ob a)) (orderIndex ob)) (d_OrderID (ob_data ob' b)) = Some b"
      using b db ia by (simp add: delete_conv')
  next
    fix k b assume "map_of (AList.delete (d_OrderID (ob_data ob a)) (orderIndex ob)) k = Some b"
    then have kb: "map_of (orderIndex ob) k = Some b" "k \<noteq> d_OrderID (ob_data ob a)"
      by (simp_all add: delete_conv' split: if_splits)
    then have "b \<in> live L" "d_OrderID (ob_data ob b) = k" "b \<noteq> a"
      using index_repD(2,3) [OF book_repD(2) [OF rep] kb(1)] by blast+
    then show "b \<in> live L - {a}" and "d_OrderID (ob_data ob' b) = k" using db by auto
  next
    show "distinct (map fst (AList.delete (d_OrderID (ob_data ob a)) (orderIndex ob)))"
      using index_repD(4) [OF book_repD(2) [OF rep]] by (rule distinct_delete)
  qed
  moreover have "pool_inv (live L - {a}) (Put a ((ob_pool ob)\<lparr>p_mem := snd r\<rparr>))"
    by (intro pool_inv_Put pool_inv_mem book_repD(3) [OF rep] live_in [of a L, OF a])
       (simp add: r_def Remove_poolID)
  then have "pool_inv (live (pull L s p a)) (ob_pool ob')"
    by (simp add: live ob'_def ob1_def)
  ultimately have "book_rep (pull L s p a) ob'" using side by (simp add: book_rep_def)
  then show thesis using that [OF rem key _ db live idx] by blast
qed

end
