(* ===== verification/Match_Spec.thy ===== *)
theory Match_Spec
  imports Match_Book
begin

text \<open>
  The specification of the order book: for each side the resting orders in price-time priority,
  as one list. \<open>book_abs ob A\<close> relates the book of \<open>order_book_direct.go\<close> to such
  lists, and the simulation theorems show that adding an order is insertion behind the orders
  of the same or a better price, that removing one drops it from its list, and that the walk
  \<open>First\<close>/\<open>Next\<close> over the buckets visits the prices in priority order.
\<close>

section \<open>Priority lists\<close>

text \<open>The resting orders of the bid side (\<open>True\<close>) and of the ask side (\<open>False\<close>).\<close>

type_synonym ptbook = "bool \<Rightarrow> DirectOrder list"

definition pt_insert :: "bool \<Rightarrow> DirectOrder \<Rightarrow> DirectOrder list \<Rightarrow> DirectOrder list" where
  "pt_insert s d xs =
     takeWhile (\<lambda>x. \<not> better s (d_Price d) (d_Price x)) xs @
     d # dropWhile (\<lambda>x. \<not> better s (d_Price d) (d_Price x)) xs"

definition pt_add :: "Order \<Rightarrow> ptbook \<Rightarrow> ptbook" where
  "pt_add o' A = A(IsBuy o' := pt_insert (IsBuy o') (FromOrder o') (A (IsBuy o')))"

definition pt_remove :: "string \<Rightarrow> ptbook \<Rightarrow> ptbook" where
  "pt_remove k A = (\<lambda>s. filter (\<lambda>d. d_OrderID d \<noteq> k) (A s))"

definition pt_empty :: ptbook where
  "pt_empty = (\<lambda>_. [])"

definition pt_ids :: "ptbook \<Rightarrow> string set" where
  "pt_ids A = d_OrderID ` (set (A True) \<union> set (A False))"

text \<open>The prices of a side, best first.\<close>

definition prices :: "bool \<Rightarrow> int list" where
  "prices s = (if s then rev [1..9999] else [1..9999])"

definition addrs :: "layout \<Rightarrow> bool \<Rightarrow> addr list" where
  "addrs L s = concat (map (L s) (prices s))"

definition book_abs :: "OrderBookDirect \<Rightarrow> ptbook \<Rightarrow> bool" where
  "book_abs ob A \<longleftrightarrow> (\<exists>L. book_rep L ob \<and> A = (\<lambda>s. map (ob_data ob) (addrs L s)))"

lemma prices_facts:
  fixes n :: int
  shows "set (if s then rev [1..n] else [1..n]) = {1..n}"
    and "distinct (if s then rev [1..n] else [1..n])"
    and "sorted_wrt (better s) (if s then rev [1..n] else [1..n])"
proof -
  have "sorted_wrt (<) [1..n]" by (simp add: strict_sorted_iff)
  then show "sorted_wrt (better s) (if s then rev [1..n] else [1..n])"
    by (cases s) (simp_all add: better_def [abs_def] sorted_wrt_rev)
qed simp_all

lemma set_prices [simp]: "set (prices s) = {1..9999}"
  unfolding prices_def by (rule prices_facts)

lemma distinct_prices [simp]: "distinct (prices s)"
  unfolding prices_def by (rule prices_facts)

lemma sorted_prices: "sorted_wrt (better s) (prices s)"
  unfolding prices_def by (rule prices_facts)

lemma prices_split: "1 \<le> p \<Longrightarrow> p < maxPrice \<Longrightarrow> \<exists>xs ys. prices s = xs @ p # ys"
  by (intro split_list) simp

lemma set_addrs: "book_rep L ob \<Longrightarrow> set (addrs L s) = (\<Union>p. set (L s p))"
  using side_repD(3,4) [OF book_repD(1)] by (fastforce simp: addrs_def)

lemma live_addrs: "book_rep L ob \<Longrightarrow> live L = set (addrs L True) \<union> set (addrs L False)"
  by (auto simp: live_def set_addrs) (metis (full_types))

lemma distinct_concat_levels:
  assumes "distinct ps" and "\<And>p. distinct (f p)" and "\<And>p q x. x \<in> set (f p) \<Longrightarrow> x \<in> set (f q) \<Longrightarrow> p = q"
  shows "distinct (concat (map f ps))"
  using assms(1)
proof (induction ps)
  case (Cons p ps)
  have "set (f p) \<inter> set (concat (map f ps)) = {}"
    using Cons.prems assms(3) [of _ p] by auto
  then show ?case using Cons assms(2) by simp
qed simp

lemma distinct_addrs:
  assumes "book_rep L ob"
  shows "distinct (addrs L s)"
  unfolding addrs_def
proof (rule distinct_concat_levels)
  show "distinct (L s p)" for p
    using side_repD(1) [OF book_repD(1) [OF assms], of s p] by (simp add: dll_def)
  show "p = q" if "x \<in> set (L s p)" "x \<in> set (L s q)" for p q x
    using that by (rule rep_place(2) [OF assms])
qed simp

lemma addrs_disjoint: "book_rep L ob \<Longrightarrow> a \<in> set (addrs L s) \<Longrightarrow> a \<in> set (addrs L t) \<Longrightarrow> s = t"
  using rep_place(1) [of L ob a s _ t] by (auto simp: set_addrs)

text \<open>The list of a side is in priority order.\<close>

lemma addrs_sorted:
  assumes "book_rep L ob"
  shows "sorted_wrt (\<lambda>a b. \<not> better s (d_Price (ob_data ob b)) (d_Price (ob_data ob a))) (addrs L s)"
proof -
  have "sorted_wrt (\<lambda>a b. \<not> better s (d_Price (ob_data ob b)) (d_Price (ob_data ob a))) (concat (map (L s) ps))"
    if "sorted_wrt (better s) ps" for ps
    using that
  proof (induction ps)
    case (Cons p ps)
    have pr: "d_Price (ob_data ob a) = q" if "a \<in> set (L s q)" for a q
      using side_repD(5) [OF book_repD(1) [OF assms]] that by blast
    have "sorted_wrt (\<lambda>a b. \<not> better s (d_Price (ob_data ob b)) (d_Price (ob_data ob a))) (L s p)"
      using pr [of _ p] by (simp add: sorted_wrt_iff_nth_less better_def)
    moreover have "\<not> better s q p" if "q \<in> set ps" for q
      using Cons.prems that by (auto simp: better_def split: if_splits)
    ultimately show ?case
      using Cons by (auto simp: sorted_wrt_append pr)
  qed simp
  then show ?thesis using sorted_prices by (simp add: addrs_def)
qed

section \<open>Adding and removing\<close>

lemma prices_after:
  assumes "prices s = xs @ p # ys"
  shows "set ys = {q. 1 \<le> q \<and> q < maxPrice \<and> better s p q}"
    and "set xs = {q. 1 \<le> q \<and> q < maxPrice \<and> better s q p}"
proof -
  have srt: "sorted_wrt (better s) (xs @ p # ys)" using sorted_prices [of s] assms by simp
  have ub: "set xs \<union> {p} \<union> set ys = {1..9999}" using set_prices [of s] assms by auto
  have y: "better s p q" if "q \<in> set ys" for q using srt that by (simp add: sorted_wrt_append)
  have x: "better s q p" if "q \<in> set xs" for q using srt that by (simp add: sorted_wrt_append)
  have asym: "\<not> (better s p q \<and> better s q p)" "\<not> better s p p" for q
    by (auto simp: better_def split: if_splits)
  have mem: "q \<in> set xs \<union> {p} \<union> set ys \<longleftrightarrow> 1 \<le> q \<and> q < maxPrice" for q
    unfolding ub by auto
  show "set ys = {q. 1 \<le> q \<and> q < maxPrice \<and> better s p q}"
    using mem x y asym by blast
  show "set xs = {q. 1 \<le> q \<and> q < maxPrice \<and> better s q p}"
    using mem x y asym by blast
qed

lemma addrs_push:
  assumes "book_rep L ob" and "1 \<le> p" and "p < maxPrice"
  obtains xs ys where "addrs L s = xs @ ys" and "addrs (push L s p a) s = xs @ a # ys"
    and "\<And>x. x \<in> set xs \<Longrightarrow> \<not> better s p (d_Price (ob_data ob x))"
    and "\<And>y. y \<in> set ys \<Longrightarrow> better s p (d_Price (ob_data ob y))"
proof -
  obtain us vs where pr: "prices s = us @ p # vs" using prices_split assms by blast
  have notin: "p \<notin> set us" "p \<notin> set vs"
    using distinct_prices [of s] pr by simp_all
  note D = side_repD(5) [OF book_repD(1) [OF assms(1)]]
  have same: "map (push L s p a s) qs = map (L s) qs" if "p \<notin> set qs" for qs
    using that by (induction qs) (auto simp: push_def)
  let ?xs = "concat (map (L s) us) @ L s p" and ?ys = "concat (map (L s) vs)"
  have "addrs L s = ?xs @ ?ys" by (simp add: addrs_def pr)
  moreover have "addrs (push L s p a) s = ?xs @ a # ?ys"
    unfolding addrs_def pr using notin by (simp add: same) (simp add: push_def)
  moreover have "\<not> better s p (d_Price (ob_data ob x))" if "x \<in> set ?xs" for x
    using that prices_after(2) [OF pr] D by (auto simp: better_def split: if_splits)
  moreover have "better s p (d_Price (ob_data ob y))" if "y \<in> set ?ys" for y
    using that prices_after(1) [OF pr] D by auto
  ultimately show thesis using that by blast
qed

lemma addrs_push_other: "t \<noteq> s \<Longrightarrow> addrs (push L s p a) t = addrs L t"
  by (simp add: addrs_def push_def)

lemma pt_insert_split:
  assumes "\<And>x. x \<in> set xs \<Longrightarrow> \<not> better s (d_Price d) (d_Price x)"
    and "\<And>y. y \<in> set ys \<Longrightarrow> better s (d_Price d) (d_Price y)"
  shows "pt_insert s d (xs @ ys) = xs @ d # ys"
  using assms by (cases ys) (simp_all add: pt_insert_def)

text \<open>Adding an order implements insertion behind its equals.\<close>

lemma AddOrder_abs:
  assumes "book_abs ob A" and "1 \<le> o_Price o'" and "o_Price o' < maxPrice"
    and "\<not> HasOrder ob (o_OrderID o')"
  obtains ob' where "AddOrder o' ob = Some ob'" and "ob_Key ob' = ob_Key ob"
    and "book_abs ob' (pt_add o' A)"
proof -
  let ?s = "IsBuy o'" and ?p = "o_Price o'"
  obtain L where rep: "book_rep L ob" and A: "A = (\<lambda>s. map (ob_data ob) (addrs L s))"
    using assms(1) by (auto simp: book_abs_def)
  obtain a ob' where add: "AddOrder o' ob = Some ob'" "ob_Key ob' = ob_Key ob" "a \<notin> live L"
    and rep': "book_rep (push L ?s ?p a) ob'" and da: "ob_data ob' a = FromOrder o'"
    and db: "\<And>b. b \<in> live L \<Longrightarrow> ob_data ob' b = ob_data ob b"
    using AddOrder_rep [OF rep assms(2-4)] by blast
  have same: "map (ob_data ob') xs = map (ob_data ob) xs" if "set xs \<subseteq> live L" for xs
    using that db by (induction xs) auto
  have lv: "set (addrs L t) \<subseteq> live L" for t by (cases t) (auto simp: live_addrs [OF rep])
  obtain xs ys where xy: "addrs L ?s = xs @ ys" "addrs (push L ?s ?p a) ?s = xs @ a # ys"
    and xb: "\<And>x. x \<in> set xs \<Longrightarrow> \<not> better ?s ?p (d_Price (ob_data ob x))"
    and yb: "\<And>y. y \<in> set ys \<Longrightarrow> better ?s ?p (d_Price (ob_data ob y))"
    using addrs_push [OF rep assms(2,3), of ?s a] by blast
  have lxy: "set xs \<subseteq> live L" "set ys \<subseteq> live L" using lv [of ?s] xy(1) by auto
  have "pt_insert ?s (FromOrder o') (map (ob_data ob) xs @ map (ob_data ob) ys) =
      map (ob_data ob) xs @ FromOrder o' # map (ob_data ob) ys"
    by (rule pt_insert_split) (use xb yb in \<open>auto simp: order_simps\<close>)
  then have "map (ob_data ob') (addrs (push L ?s ?p a) ?s) = pt_insert ?s (FromOrder o') (A ?s)"
    by (simp add: xy A da same [OF lxy(1)] same [OF lxy(2)])
  moreover have "map (ob_data ob') (addrs (push L ?s ?p a) t) = A t" if "t \<noteq> ?s" for t
    using that same [OF lv] by (simp add: addrs_push_other A)
  ultimately have "pt_add o' A = (\<lambda>t. map (ob_data ob') (addrs (push L ?s ?p a) t))"
    by (auto simp: pt_add_def fun_eq_iff)
  then have "book_abs ob' (pt_add o' A)" using rep' by (auto simp: book_abs_def)
  then show thesis using that add by blast
qed

lemma addrs_pull:
  assumes "book_rep L ob" and "a \<in> set (L s p)"
  shows "addrs (pull L s p a) t = filter (\<lambda>b. b \<noteq> a) (addrs L t)"
proof -
  have "pull L s p a t q = filter (\<lambda>b. b \<noteq> a) (L t q)" for q
  proof (cases "t = s \<and> q = p")
    case True
    have "distinct (L s p)"
      using side_repD(1) [OF book_repD(1) [OF assms(1)], of s p] by (simp add: dll_def)
    then show ?thesis
      using True by (simp add: pull_def distinct_remove1_removeAll removeAll_filter_not_eq eq_commute)
  next
    case False
    then have "a \<notin> set (L t q)" using rep_place [OF assms(1,2), of t q] by blast
    then have "filter (\<lambda>b. b \<noteq> a) (L t q) = L t q" by (intro filter_True) auto
    then show ?thesis using False by (auto simp: pull_def)
  qed
  then have "pull L s p a t = (\<lambda>q. filter (\<lambda>b. b \<noteq> a) (L t q))" by (rule ext)
  then show ?thesis by (simp add: addrs_def filter_concat comp_def)
qed

text \<open>Removing an order drops it from its list, whichever side it rests on.\<close>

lemma RemoveDirectOrder_abs:
  assumes "book_abs ob A" and "GetDirectOrder ob k = Some a"
  obtains ob' where "RemoveDirectOrder a ob = Some ob'" and "ob_Key ob' = ob_Key ob"
    and "book_abs ob' (pt_remove k A)"
proof -
  obtain L where rep: "book_rep L ob" and A: "A = (\<lambda>s. map (ob_data ob) (addrs L s))"
    using assms(1) by (auto simp: book_abs_def)
  note I = index_repD [OF book_repD(2) [OF rep]]
  have ak: "a \<in> live L" "d_OrderID (ob_data ob a) = k"
    using I(2,3) assms(2) by (auto simp: GetDirectOrder_def)
  obtain s p where sp: "a \<in> set (L s p)" using ak(1) by (auto simp: live_def)
  obtain ob' where r: "RemoveDirectOrder a ob = Some ob'" "ob_Key ob' = ob_Key ob"
    "book_rep (pull L s p a) ob'" and db: "\<And>b. b \<noteq> a \<Longrightarrow> ob_data ob' b = ob_data ob b"
    using RemoveDirectOrder_rep [OF rep sp] by metis
  have "pt_remove k A t = map (ob_data ob') (addrs (pull L s p a) t)" for t
  proof -
    have "d_OrderID (ob_data ob b) \<noteq> k \<longleftrightarrow> b \<noteq> a" if "b \<in> set (addrs L t)" for b
    proof -
      have "b \<in> live L" using that by (cases t) (auto simp: live_addrs [OF rep])
      then have "map_of (orderIndex ob) (d_OrderID (ob_data ob b)) = Some b" by (rule I(1))
      moreover have "map_of (orderIndex ob) k = Some a" using I(1) [OF ak(1)] ak(2) by simp
      ultimately show ?thesis using ak(2) by (cases "b = a") auto
    qed
    then have "filter (\<lambda>b. d_OrderID (ob_data ob b) \<noteq> k) (addrs L t) = filter (\<lambda>b. b \<noteq> a) (addrs L t)"
      by (rule filter_cong [OF refl])
    then show ?thesis
      using db by (simp add: pt_remove_def A addrs_pull [OF rep sp] filter_map comp_def)
  qed
  then have "pt_remove k A = (\<lambda>t. map (ob_data ob') (addrs (pull L s p a) t))" by (rule ext)
  then have "book_abs ob' (pt_remove k A)" using r(3) unfolding book_abs_def by blast
  then show thesis using that r by blast
qed

section \<open>Walking the buckets\<close>

definition First :: "bool \<Rightarrow> OrderBookDirect \<Rightarrow> int option" where
  "First s ob = (if s then FirstBidBucket ob else FirstAskBucket ob)"

definition Next :: "bool \<Rightarrow> OrderBookDirect \<Rightarrow> int \<Rightarrow> int option" where
  "Next s ob = (if s then NextBidBucket (bidBitmap ob) else NextAskBucket (askBitmap ob))"

lemma find_sorted:
  assumes "sorted_wrt (better s) ps"
    and "case r of None \<Rightarrow> \<forall>q\<in>set ps. \<not> P q
         | Some p \<Rightarrow> p \<in> set ps \<and> P p \<and> (\<forall>q\<in>set ps. better s q p \<longrightarrow> \<not> P q)"
  shows "find P ps = r"
  using assms
proof (induction ps)
  case Nil
  then show ?case by (cases r) auto
next
  case (Cons q ps)
  have irr: "\<not> better s x x" for x by (simp add: better_def)
  have asym: "better s x y \<Longrightarrow> \<not> better s y x" for x y by (simp add: better_def split: if_splits)
  show ?case
  proof (cases r)
    case None
    then show ?thesis using Cons by (simp add: find_None_iff)
  next
    case (Some p)
    then show ?thesis
      using Cons irr asym by (cases "p = q") auto
  qed
qed

lemma First_find:
  assumes "book_rep L ob"
  shows "First s ob = find (\<lambda>p. L s p \<noteq> []) (prices s)"
proof -
  have "best_ok s (\<lambda>p. L s p \<noteq> []) (side_best s ob)"
    using side_repD(8) [OF book_repD(1) [OF assms]] .
  then have "case First s ob of None \<Rightarrow> \<forall>q\<in>set (prices s). \<not> L s q \<noteq> []
         | Some p \<Rightarrow> p \<in> set (prices s) \<and> L s p \<noteq> [] \<and> (\<forall>q\<in>set (prices s). better s q p \<longrightarrow> \<not> L s q \<noteq> [])"
    by (cases s) (auto simp: First_def FirstBidBucket_def FirstAskBucket_def side_best_def best_ok_def
        best_bid_of_def best_ask_of_def better_def)
  then show ?thesis by (rule find_sorted [OF sorted_prices, symmetric])
qed

lemma Next_find:
  assumes "book_rep L ob" and "prices s = xs @ p # ys"
  shows "Next s ob p = find (\<lambda>q. L s q \<noteq> []) ys"
proof -
  have p: "1 \<le> p" "p < maxPrice"
  proof -
    have "p \<in> set (prices s)" unfolding assms(2) by simp
    then show "1 \<le> p" "p < maxPrice" by simp_all
  qed
  have cl: "clean (side_bitmap s ob)" by (rule side_rep_clean [OF book_repD(1) [OF assms(1)]])
  have occ: "occupied (side_bitmap s ob) q \<longleftrightarrow> L s q \<noteq> []" for q
    using side_repD(7) [OF book_repD(1) [OF assms(1)]] .
  have "case Next s ob p of None \<Rightarrow> \<forall>q\<in>set ys. \<not> occupied (side_bitmap s ob) q
         | Some p' \<Rightarrow> p' \<in> set ys \<and> occupied (side_bitmap s ob) p' \<and>
             (\<forall>q\<in>set ys. better s q p' \<longrightarrow> \<not> occupied (side_bitmap s ob) q)"
  proof (cases s)
    case True
    then show ?thesis
      using NextBidBucket_last [of "side_bitmap s ob" p] cl p
      unfolding prices_after(1) [OF assms(2)]
      by (auto simp: Next_def side_bitmap_def last_upto_def better_def clean_def split: option.splits)
  next
    case False
    then show ?thesis
      using NextAskBucket_first [of "side_bitmap s ob" p] cl p
      unfolding prices_after(1) [OF assms(2)]
      by (auto simp: Next_def side_bitmap_def first_from_def better_def clean_def split: option.splits)
  qed
  moreover have "sorted_wrt (better s) ys"
    using sorted_prices [of s] assms(2) by (simp add: sorted_wrt_append)
  ultimately show ?thesis
    using find_sorted [of s ys "\<lambda>q. L s q \<noteq> []" "Next s ob p"] unfolding occ by simp
qed

section \<open>Rewriting the data of resting orders\<close>

lemma book_rep_data:
  assumes "book_rep L ob"
    and "\<And>a. n_prev (h a) = n_prev (ob_mem ob a) \<and> n_next (h a) = n_next (ob_mem ob a) \<and>
             n_poolID (h a) = n_poolID (ob_mem ob a)"
    and "\<And>a. d_OrderID (n_data (h a)) = d_OrderID (ob_data ob a)"
    and "\<And>a. d_Price (n_data (h a)) = d_Price (ob_data ob a)"
    and "\<And>a. d_IsBuy (n_data (h a)) = d_IsBuy (ob_data ob a)"
  shows "book_rep L (ob\<lparr>ob_pool := (ob_pool ob)\<lparr>p_mem := h\<rparr>\<rparr>)"
proof -
  have "dll h b xs = dll (ob_mem ob) b xs" for b xs
    using dll_frame [of h b xs "ob_mem ob"] dll_frame [of "ob_mem ob" b xs h] assms(2) by auto
  then have "side_rep (L s) s (ob\<lparr>ob_pool := (ob_pool ob)\<lparr>p_mem := h\<rparr>\<rparr>)" for s
    using book_repD(1) [OF assms(1), of s] assms(4,5) by (simp add: side_rep_def)
  moreover have "index_rep L (ob\<lparr>ob_pool := (ob_pool ob)\<lparr>p_mem := h\<rparr>\<rparr>)"
    using book_repD(2) [OF assms(1)] assms(3) by (simp add: index_rep_def)
  moreover have "pool_inv (live L) ((ob_pool ob)\<lparr>p_mem := h\<rparr>)"
    using book_repD(3) [OF assms(1)] assms(2) by (intro pool_inv_mem) auto
  ultimately show ?thesis by (simp add: book_rep_def)
qed

text \<open>The loop that removes a list of resting orders at the end of \<open>match\<close>.\<close>

fun RemoveAll :: "addr list \<Rightarrow> OrderBookDirect \<Rightarrow> OrderBookDirect option" where
  "RemoveAll [] ob = Some ob"
| "RemoveAll (a # as) ob =
     (case RemoveDirectOrder a ob of None \<Rightarrow> None | Some ob1 \<Rightarrow> RemoveAll as ob1)"

lemma RemoveAll_rep:
  assumes "book_rep L ob" and "distinct rs" and "set rs \<subseteq> live L"
  obtains ob' L' where "RemoveAll rs ob = Some ob'" and "ob_Key ob' = ob_Key ob" and "book_rep L' ob'"
    and "\<And>t. addrs L' t = filter (\<lambda>b. b \<notin> set rs) (addrs L t)"
    and "\<And>b. b \<notin> set rs \<Longrightarrow> ob_data ob' b = ob_data ob b"
proof -
  have "\<exists>ob' L'. RemoveAll rs ob = Some ob' \<and> ob_Key ob' = ob_Key ob \<and> book_rep L' ob' \<and>
      (\<forall>t. addrs L' t = filter (\<lambda>b. b \<notin> set rs) (addrs L t)) \<and>
      (\<forall>b. b \<notin> set rs \<longrightarrow> ob_data ob' b = ob_data ob b)"
    using assms
  proof (induction rs arbitrary: ob L)
    case (Cons a rs)
    then obtain s p where sp: "a \<in> set (L s p)" by (auto simp: live_def)
    obtain ob1 where r: "RemoveDirectOrder a ob = Some ob1" "ob_Key ob1 = ob_Key ob"
      "book_rep (pull L s p a) ob1" "live (pull L s p a) = live L - {a}"
      and db: "\<And>b. b \<noteq> a \<Longrightarrow> ob_data ob1 b = ob_data ob b"
      using RemoveDirectOrder_rep [OF Cons.prems(1) sp] by metis
    have "set rs \<subseteq> live (pull L s p a)" using Cons.prems(2,3) r(4) by auto
    then obtain ob' L' where ih: "RemoveAll rs ob1 = Some ob'" "ob_Key ob' = ob_Key ob1" "book_rep L' ob'"
      "\<forall>t. addrs L' t = filter (\<lambda>b. b \<notin> set rs) (addrs (pull L s p a) t)"
      "\<forall>b. b \<notin> set rs \<longrightarrow> ob_data ob' b = ob_data ob1 b"
      using Cons.IH [OF r(3)] Cons.prems(2) by auto
    then show ?case
      using r db by (intro exI [of _ ob'] exI [of _ L'])
        (auto simp: addrs_pull [OF Cons.prems(1) sp] intro: filter_cong)
  qed auto
  then show thesis using that by blast
qed

end
