(* ===== verification/Match_Engine.thy ===== *)
theory Match_Engine
  imports Match_Spec
begin

text \<open>
  The matching engine, \<open>matching/engine/engine.go\<close>: placing, matching, cancelling,
  amending and restoring orders on the books of \<open>Match_Book\<close>. An operation returns
  \<open>None\<close> when the Go code panics or does not return; the two loops that follow pointers
  are partial functions, and \<open>Match_Proofs\<close> shows that they return. Trades are stamped with
  \<open>time.Now\<close>, the parameter \<open>clk\<close>: the time read for the trade with a given sequence
  number. The engine's reusable buffers are dropped, since \<open>match\<close> hands out copies. The
  counter \<open>sequence\<close>, a pointer that the engines of one \<open>AsyncEngine\<close> share, is the
  value the running engine reads and writes.
\<close>

section \<open>Results and errors\<close>

record Result =
  r_Order :: "Order option"
  r_Affected :: "Order list"
  r_Trades :: "Trade list"
  r_Book :: BookSnapshot

record CancelResult =
  c_Orders :: "Order list"
  c_Books :: "BookSnapshot list"

datatype engine_error =
    OrderIsNil
  | InvalidOrder order_error
  | DuplicateOrderID string
  | UnsupportedOrderType OrderType
  | CancelReasonRequired
  | BookNotFound string
  | OrderNotFound string
  | RestoreFailed string order_error

definition zeroSnapshot :: BookSnapshot where
  "zeroSnapshot = \<lparr>s_Key = '''', s_MarketID = 0, s_Outcome = '''', s_Bids = [], s_Asks = [],
     s_BestBid = 0, s_BestAsk = 0\<rparr>"

definition zeroResult :: "Order option \<Rightarrow> Result" where
  "zeroResult o' = \<lparr>r_Order = o', r_Affected = [], r_Trades = [], r_Book = zeroSnapshot\<rparr>"

record Engine =
  books :: "(string \<times> OrderBookDirect) list"
  e_sequence :: u64
  e_localSeq :: u64

definition New :: Engine where
  "New = \<lparr>books = [], e_sequence = 0, e_localSeq = 0\<rparr>"

definition SetSequence :: "u64 \<Rightarrow> Engine \<Rightarrow> Engine" where
  "SetSequence s e = e\<lparr>e_sequence := s\<rparr>"

definition LocalSeq :: "Engine \<Rightarrow> u64" where
  "LocalSeq e = e_localSeq e"

definition SetLocalSeq :: "u64 \<Rightarrow> Engine \<Rightarrow> Engine" where
  "SetLocalSeq s e = e\<lparr>e_localSeq := s\<rparr>"

definition BookCount :: "Engine \<Rightarrow> nat" where
  "BookCount e = length (filter (\<lambda>(_, ob). 0 < OrderCount ob) (books e))"

definition ExportBooks :: "Engine \<Rightarrow> (string \<times> OrderBookDirect) list" where
  "ExportBooks e = books e"

definition getOrCreateBook :: "string \<Rightarrow> Engine \<Rightarrow> OrderBookDirect \<times> Engine" where
  "getOrCreateBook key e =
     (case map_of (books e) key of
        Some ob \<Rightarrow> (ob, e)
      | None \<Rightarrow> let ob = NewOrderBookDirect key in (ob, e\<lparr>books := AList.update key ob (books e)\<rparr>))"

section \<open>Self-trade prevention\<close>

definition stpWouldCancelTaker :: "Order \<Rightarrow> DirectOrder \<Rightarrow> bool" where
  "stpWouldCancelTaker taker maker =
     (if o_UserID taker \<noteq> d_UserID maker \<or> o_STPStrategy taker = STPNone then False
      else o_STPStrategy taker = STPCancelTaker \<or> o_STPStrategy taker = STPCancelBoth)"

definition stpWouldSkipMaker :: "Order \<Rightarrow> DirectOrder \<Rightarrow> bool" where
  "stpWouldSkipMaker taker maker =
     (if o_UserID taker \<noteq> d_UserID maker \<or> o_STPStrategy taker = STPNone then False
      else o_STPStrategy taker = STPCancelMaker \<or> o_STPStrategy taker = STPCancelBoth)"

section \<open>The match loop\<close>

text \<open>The local variables of \<open>match\<close>: the taker, the memory of the book, the buffers, the
  counters and \<open>takerDone\<close>.\<close>

record MatchState =
  m_order :: Order
  m_mem :: heap
  m_trades :: "Trade list"
  m_affected :: "Order list"
  m_toRemove :: "addr list"
  m_localSeq :: u64
  m_sequence :: u64
  m_takerDone :: bool

definition set_data :: "addr \<Rightarrow> DirectOrder \<Rightarrow> MatchState \<Rightarrow> MatchState" where
  "set_data a d st = st\<lparr>m_mem := (m_mem st)(a := (m_mem st a)\<lparr>n_data := d\<rparr>)\<rparr>"

definition mkTrade :: "(u64 \<Rightarrow> i64) \<Rightarrow> string \<Rightarrow> Order \<Rightarrow> DirectOrder \<Rightarrow> i64 \<Rightarrow> u64 \<Rightarrow> u64 \<Rightarrow> Trade" where
  "mkTrade clk bookKey order maker tradeQty localSeq seq =
     \<lparr>t_Sequence = seq, t_TradeID = DeterministicTradeID bookKey localSeq,
      t_MarketID = o_MarketID order, t_Outcome = o_Outcome order, t_BookKey = bookKey,
      t_Price = d_Price maker, t_Quantity = tradeQty, t_TakerOrderID = o_OrderID order,
      t_MakerOrderID = d_OrderID maker, t_TakerUserID = o_UserID order,
      t_MakerUserID = d_UserID maker, t_TakerSide = o_Side order, t_MakerSide = d_Side maker,
      t_MatchedAtMillis = clk seq, t_EpochID = 0\<rparr>"

text \<open>One iteration of the inner loop, for the maker at address \<open>a\<close>.\<close>

definition match_maker ::
  "(u64 \<Rightarrow> i64) \<Rightarrow> string \<Rightarrow> STPStrategy \<Rightarrow> addr \<Rightarrow> MatchState \<Rightarrow> MatchState" where
  "match_maker clk bookKey stpStrategy a st =
     (let order = m_order st; maker = n_data (m_mem st a) in
      if o_UserID order = d_UserID maker \<and> stpStrategy \<noteq> STPNone then
        if stpStrategy = STPCancelTaker then
          st\<lparr>m_order := Cancel CancelReasonSTPTaker order, m_takerDone := True\<rparr>
        else if stpStrategy = STPCancelMaker then
          let maker1 = d_Cancel CancelReasonSTPMaker maker; st1 = set_data a maker1 st
          in st1\<lparr>m_affected := m_affected st1 @ [ToOrder maker1], m_toRemove := m_toRemove st1 @ [a]\<rparr>
        else if stpStrategy = STPCancelBoth then
          let maker1 = d_Cancel CancelReasonSTPBoth maker; st1 = set_data a maker1 st
          in st1\<lparr>m_order := Cancel CancelReasonSTPBoth order,
                 m_affected := m_affected st1 @ [ToOrder maker1],
                 m_toRemove := m_toRemove st1 @ [a], m_takerDone := True\<rparr>
        else st
      else if o_UserID order = d_UserID maker then st
      else
        let tradeQty = min (RemainingQuantity order) (d_RemainingQuantity maker) in
        if tradeQty \<le> 0 then st
        else
          let order1 = ApplyFill tradeQty order; maker1 = d_ApplyFill tradeQty maker;
              localSeq = m_localSeq st + 1; seq = m_sequence st + 1;
              st1 = (set_data a maker1 st)\<lparr>m_order := order1, m_localSeq := localSeq, m_sequence := seq\<rparr>;
              st2 = st1\<lparr>m_trades := m_trades st1 @ [mkTrade clk bookKey order1 maker1 tradeQty localSeq seq],
                        m_affected := m_affected st1 @ [ToOrder maker1]\<rparr>
          in if d_RemainingQuantity maker1 = 0 then st2\<lparr>m_toRemove := m_toRemove st2 @ [a]\<rparr> else st2)"

definition active :: "MatchState \<Rightarrow> bool" where
  "active st \<longleftrightarrow> 0 < RemainingQuantity (m_order st) \<and> \<not> m_takerDone st"

partial_function (option) match_makers ::
  "(u64 \<Rightarrow> i64) \<Rightarrow> string \<Rightarrow> STPStrategy \<Rightarrow> addr option \<Rightarrow> MatchState \<Rightarrow> MatchState option" where
  "match_makers clk bookKey stpStrategy maker st =
     (case maker of
        None \<Rightarrow> Some st
      | Some a \<Rightarrow>
          if active st then
            match_makers clk bookKey stpStrategy (n_next (m_mem st a)) (match_maker clk bookKey stpStrategy a st)
          else Some st)"

partial_function (option) match_buckets ::
  "(u64 \<Rightarrow> i64) \<Rightarrow> string \<Rightarrow> STPStrategy \<Rightarrow> (int \<Rightarrow> Bucket) \<Rightarrow> (int \<Rightarrow> int option) \<Rightarrow> (int \<Rightarrow> bool) \<Rightarrow>
   int option \<Rightarrow> MatchState \<Rightarrow> MatchState option" where
  "match_buckets clk bookKey stpStrategy bs nxt cross bucket st =
     (case bucket of
        None \<Rightarrow> Some st
      | Some i \<Rightarrow>
          if active st then
            if \<not> cross (b_Price (bs i)) then Some st
            else Option.bind (match_makers clk bookKey stpStrategy (b_Head (bs i)) st)
                   (match_buckets clk bookKey stpStrategy bs nxt cross (nxt (b_Price (bs i))))
          else Some st)"

text \<open>What one order did: the order and the book after it, the trades, the resting orders it
  touched and the counters.\<close>

record Exec =
  x_order :: Order
  x_book :: OrderBookDirect
  x_trades :: "Trade list"
  x_affected :: "Order list"
  x_localSeq :: u64
  x_sequence :: u64

definition noExec :: "Order \<Rightarrow> OrderBookDirect \<Rightarrow> u64 \<Rightarrow> u64 \<Rightarrow> Exec" where
  "noExec o' ob ls sq =
     \<lparr>x_order = o', x_book = ob, x_trades = [], x_affected = [], x_localSeq = ls, x_sequence = sq\<rparr>"

definition match :: "(u64 \<Rightarrow> i64) \<Rightarrow> Order \<Rightarrow> OrderBookDirect \<Rightarrow> u64 \<Rightarrow> u64 \<Rightarrow> Exec option" where
  "match clk order ob ls sq =
     (if \<not> IsCross order ob then Some (noExec order ob ls sq)
      else
        let bookKey = BookKey order; stpStrategy = o_STPStrategy order;
            st0 = \<lparr>m_order = order, m_mem = ob_mem ob, m_trades = [], m_affected = [], m_toRemove = [],
                   m_localSeq = ls, m_sequence = sq, m_takerDone = False\<rparr>;
            run = (if IsBuy order
                   then match_buckets clk bookKey stpStrategy (askBuckets ob) (NextAskBucket (askBitmap ob))
                          (\<lambda>p. p \<le> o_Price order) (FirstAskBucket ob) st0
                   else match_buckets clk bookKey stpStrategy (bidBuckets ob) (NextBidBucket (bidBitmap ob))
                          (\<lambda>p. o_Price order \<le> p) (FirstBidBucket ob) st0)
        in case run of
             None \<Rightarrow> None
           | Some st \<Rightarrow>
               (case RemoveAll (m_toRemove st) (ob\<lparr>ob_pool := (ob_pool ob)\<lparr>p_mem := m_mem st\<rparr>\<rparr>) of
                  None \<Rightarrow> None
                | Some ob' \<Rightarrow>
                    Some \<lparr>x_order = m_order st, x_book = ob', x_trades = m_trades st,
                          x_affected = m_affected st, x_localSeq = m_localSeq st,
                          x_sequence = m_sequence st\<rparr>))"

section \<open>Fill or kill\<close>

text \<open>The simulation of \<open>fokCanFill\<close>: the flag is its early \<open>return false\<close>.\<close>

partial_function (option) fok_makers ::
  "Order \<Rightarrow> heap \<Rightarrow> addr option \<Rightarrow> i64 \<Rightarrow> (bool \<times> i64) option" where
  "fok_makers order h maker remaining =
     (case maker of
        None \<Rightarrow> Some (False, remaining)
      | Some a \<Rightarrow>
          if 0 < remaining then
            if stpWouldCancelTaker order (n_data (h a)) then Some (True, remaining)
            else if stpWouldSkipMaker order (n_data (h a)) then fok_makers order h (n_next (h a)) remaining
            else let qty = min remaining (d_RemainingQuantity (n_data (h a)))
                 in fok_makers order h (n_next (h a)) (if 0 < qty then wrap64 (remaining - qty) else remaining)
          else Some (False, remaining))"

partial_function (option) fok_buckets ::
  "Order \<Rightarrow> heap \<Rightarrow> (int \<Rightarrow> Bucket) \<Rightarrow> (int \<Rightarrow> int option) \<Rightarrow> (int \<Rightarrow> bool) \<Rightarrow>
   int option \<Rightarrow> i64 \<Rightarrow> (bool \<times> i64) option" where
  "fok_buckets order h bs nxt cross bucket remaining =
     (case bucket of
        None \<Rightarrow> Some (False, remaining)
      | Some i \<Rightarrow>
          if 0 < remaining then
            if \<not> cross (b_Price (bs i)) then Some (False, remaining)
            else Option.bind (fok_makers order h (b_Head (bs i)) remaining)
                   (\<lambda>(stop, r). if stop then Some (True, r)
                                else fok_buckets order h bs nxt cross (nxt (b_Price (bs i))) r)
          else Some (False, remaining))"

definition fokCanFill :: "Order \<Rightarrow> OrderBookDirect \<Rightarrow> bool option" where
  "fokCanFill order ob =
     (let remaining = RemainingQuantity order;
          run = (if IsBuy order
                 then fok_buckets order (ob_mem ob) (askBuckets ob) (NextAskBucket (askBitmap ob))
                        (\<lambda>p. p \<le> o_Price order) (FirstAskBucket ob) remaining
                 else fok_buckets order (ob_mem ob) (bidBuckets ob) (NextBidBucket (bidBitmap ob))
                        (\<lambda>p. o_Price order \<le> p) (FirstBidBucket ob) remaining)
      in case run of None \<Rightarrow> None | Some (stop, r) \<Rightarrow> Some (\<not> stop \<and> r = 0))"

section \<open>Time in force\<close>

definition processPostOnly :: "Order \<Rightarrow> OrderBookDirect \<Rightarrow> u64 \<Rightarrow> u64 \<Rightarrow> Exec option" where
  "processPostOnly order ob ls sq =
     (if IsCross order ob then Some (noExec (Cancel CancelReasonPostOnlyCross order) ob ls sq)
      else case AddOrder order ob of
             None \<Rightarrow> None
           | Some ob1 \<Rightarrow> Some (noExec (order\<lparr>o_Status := OrderStatusNew\<rparr>) ob1 ls sq))"

definition processFOK :: "(u64 \<Rightarrow> i64) \<Rightarrow> Order \<Rightarrow> OrderBookDirect \<Rightarrow> u64 \<Rightarrow> u64 \<Rightarrow> Exec option" where
  "processFOK clk order ob ls sq =
     (if \<not> IsCross order ob then Some (noExec (Cancel CancelReasonFOKNotFilled order) ob ls sq)
      else case fokCanFill order ob of
             None \<Rightarrow> None
           | Some ok \<Rightarrow>
               if \<not> ok then Some (noExec (Cancel CancelReasonFOKNotFilled order) ob ls sq)
               else match clk order ob ls sq)"

definition processGTCOrIOC :: "(u64 \<Rightarrow> i64) \<Rightarrow> Order \<Rightarrow> OrderBookDirect \<Rightarrow> u64 \<Rightarrow> u64 \<Rightarrow> Exec option" where
  "processGTCOrIOC clk order0 ob ls sq =
     (case match clk order0 ob ls sq of
        None \<Rightarrow> None
      | Some x \<Rightarrow>
          let order = x_order x in
          if RemainingQuantity order = 0 then Some x
          else if o_Status order = OrderStatusCancelled then Some x
          else if o_TimeInForce order = TimeInForceIOC then
            if length (x_trades x) = 0
            then Some (x\<lparr>x_order := Cancel CancelReasonIOCNoLiquidity order\<rparr>)
            else Some (x\<lparr>x_order := Cancel CancelReasonIOCPartialFill order\<rparr>)
          else
            (case AddOrder order (x_book x) of
               None \<Rightarrow> None
             | Some ob1 \<Rightarrow>
                 Some (x\<lparr>x_book := ob1,
                         x_order := (if 0 < o_FilledQuantity order
                                     then order\<lparr>o_Status := OrderStatusPartiallyFilled\<rparr>
                                     else order\<lparr>o_Status := OrderStatusNew\<rparr>)\<rparr>)))"

definition processLimitOrder :: "(u64 \<Rightarrow> i64) \<Rightarrow> Order \<Rightarrow> OrderBookDirect \<Rightarrow> u64 \<Rightarrow> u64 \<Rightarrow> Exec option" where
  "processLimitOrder clk order ob ls sq =
     (if o_TimeInForce order = TimeInForcePostOnly then processPostOnly order ob ls sq
      else if o_TimeInForce order = TimeInForceFOK then processFOK clk order ob ls sq
      else processGTCOrIOC clk order ob ls sq)"

section \<open>The operations\<close>

type_synonym 'a outcome = "('a \<times> engine_error option \<times> Engine) option"

definition PlaceOrder :: "(u64 \<Rightarrow> i64) \<Rightarrow> Order option \<Rightarrow> Engine \<Rightarrow> Result outcome" where
  "PlaceOrder clk order_ptr e =
     (case order_ptr of
        None \<Rightarrow> Some (zeroResult None, Some OrderIsNil, e)
      | Some order0 \<Rightarrow>
          (case Validate order0 of
             Some err \<Rightarrow>
               Some (zeroResult (Some (Reject CancelReasonValidationFailed order0)), Some (InvalidOrder err), e)
           | None \<Rightarrow>
               let order = (if o_Status order0 = '''' then order0\<lparr>o_Status := OrderStatusNew\<rparr> else order0);
                   (ob, e1) = getOrCreateBook (BookKey order) e
               in if HasOrder ob (o_OrderID order) then
                    Some (zeroResult (Some (Reject CancelReasonValidationFailed order)),
                          Some (DuplicateOrderID (o_OrderID order)), e1)
                  else if o_Type order = OrderTypeLimit then
                    (case processLimitOrder clk order ob (e_localSeq e1) (e_sequence e1) of
                       None \<Rightarrow> None
                     | Some x \<Rightarrow>
                         Some (\<lparr>r_Order = Some (x_order x), r_Affected = x_affected x,
                                r_Trades = x_trades x, r_Book = Snapshot 5 (x_book x)\<rparr>, None,
                               e1\<lparr>books := AList.update (BookKey order) (x_book x) (books e1),
                                  e_localSeq := x_localSeq x, e_sequence := x_sequence x\<rparr>))
                  else
                    Some (zeroResult (Some (Reject CancelReasonValidationFailed order)),
                          Some (UnsupportedOrderType (o_Type order)), e1)))"

definition RestoreOrder :: "Order option \<Rightarrow> Engine \<Rightarrow> (engine_error option \<times> Engine) option" where
  "RestoreOrder order_ptr e =
     (case order_ptr of
        None \<Rightarrow> Some (None, e)
      | Some order \<Rightarrow>
          (case Validate order of
             Some err \<Rightarrow> Some (Some (RestoreFailed (o_OrderID order) err), e)
           | None \<Rightarrow>
               if RemainingQuantity order \<le> 0 then Some (None, e)
               else
                 let (ob, e1) = getOrCreateBook (BookKey order) e in
                 if HasOrder ob (o_OrderID order) then Some (None, e1)
                 else
                   let restored =
                         (if o_Status order = '''' then
                            (if 0 < o_FilledQuantity order
                             then order\<lparr>o_Status := OrderStatusPartiallyFilled\<rparr>
                             else order\<lparr>o_Status := OrderStatusNew\<rparr>)
                          else order)
                   in case AddOrder restored ob of
                        None \<Rightarrow> None
                      | Some ob1 \<Rightarrow> Some (None, e1\<lparr>books := AList.update (BookKey order) ob1 (books e1)\<rparr>)))"

text \<open>
  Cancelling resting orders. The first loop collects the cancelled orders and the keys of the
  books it touched, the second takes the snapshots and drops the books left empty.
\<close>

definition cancelResting :: "CancelReason \<Rightarrow> i64 \<Rightarrow> addr \<Rightarrow> OrderBookDirect \<Rightarrow> (Order \<times> OrderBookDirect) option" where
  "cancelResting reason nowMillis a ob =
     (let d = (d_Cancel reason (ob_data ob a))\<lparr>d_UpdatedAtMillis := nowMillis\<rparr>;
          ob1 = ob\<lparr>ob_pool := (ob_pool ob)\<lparr>p_mem := (ob_mem ob)(a := (ob_mem ob a)\<lparr>n_data := d\<rparr>)\<rparr>\<rparr>
      in case RemoveDirectOrder a ob1 of None \<Rightarrow> None | Some ob2 \<Rightarrow> Some (ToOrder d, ob2))"

fun cancel_loop :: "CancelReason \<Rightarrow> i64 \<Rightarrow> Order option list \<Rightarrow> Order list \<Rightarrow> string list \<Rightarrow> Engine \<Rightarrow>
    (Order list \<times> string list \<times> Engine) option" where
  "cancel_loop reason now [] cancelled keys e = Some (cancelled, keys, e)"
| "cancel_loop reason now (None # cs) cancelled keys e = cancel_loop reason now cs cancelled keys e"
| "cancel_loop reason now (Some c # cs) cancelled keys e =
     (case map_of (books e) (BookKey c) of
        None \<Rightarrow> cancel_loop reason now cs cancelled keys e
      | Some ob \<Rightarrow>
          (case GetDirectOrder ob (o_OrderID c) of
             None \<Rightarrow> cancel_loop reason now cs cancelled keys e
           | Some a \<Rightarrow>
               if d_RemainingQuantity (ob_data ob a) \<le> 0 then cancel_loop reason now cs cancelled keys e
               else
                 (case cancelResting reason now a ob of
                    None \<Rightarrow> None
                  | Some (result, ob1) \<Rightarrow>
                      cancel_loop reason now cs (cancelled @ [result])
                        (if ob_Key ob1 \<in> set keys then keys else keys @ [ob_Key ob1])
                        (e\<lparr>books := AList.update (BookKey c) ob1 (books e)\<rparr>))))"

fun snapshot_loop :: "string list \<Rightarrow> BookSnapshot list \<Rightarrow> Engine \<Rightarrow> BookSnapshot list \<times> Engine" where
  "snapshot_loop [] snaps e = (snaps, e)"
| "snapshot_loop (k # ks) snaps e =
     (case map_of (books e) k of
        None \<Rightarrow> snapshot_loop ks snaps e
      | Some ob \<Rightarrow>
          snapshot_loop ks (snaps @ [Snapshot 5 ob])
            (if OrderCount ob = 0 then e\<lparr>books := AList.delete k (books e)\<rparr> else e))"

definition CancelOrders :: "i64 \<Rightarrow> Order option list \<Rightarrow> CancelReason \<Rightarrow> Engine \<Rightarrow> CancelResult outcome" where
  "CancelOrders nowMillis orders reason e =
     (if length orders = 0 then Some (\<lparr>c_Orders = [], c_Books = []\<rparr>, None, e)
      else if reason = '''' then Some (\<lparr>c_Orders = [], c_Books = []\<rparr>, Some CancelReasonRequired, e)
      else
        case cancel_loop reason nowMillis orders [] [] e of
          None \<Rightarrow> None
        | Some (cancelled, bookKeys, e1) \<Rightarrow>
            let (snapshots, e2) = snapshot_loop bookKeys [] e1
            in Some (\<lparr>c_Orders = cancelled, c_Books = snapshots\<rparr>, None, e2))"

definition AmendOrder :: "(u64 \<Rightarrow> i64) \<Rightarrow> i64 \<Rightarrow> Order option \<Rightarrow> i64 \<Rightarrow> i64 \<Rightarrow> Engine \<Rightarrow> Result outcome" where
  "AmendOrder clk nowMillis original_ptr newPrice newQty e =
     (case original_ptr of
        None \<Rightarrow> Some (zeroResult None, Some OrderIsNil, e)
      | Some original \<Rightarrow>
          (case map_of (books e) (BookKey original) of
             None \<Rightarrow> Some (zeroResult None, Some (BookNotFound (BookKey original)), e)
           | Some ob \<Rightarrow>
               (case GetDirectOrder ob (o_OrderID original) of
                  None \<Rightarrow> Some (zeroResult None, Some (OrderNotFound (o_OrderID original)), e)
                | Some a \<Rightarrow>
                    if d_RemainingQuantity (ob_data ob a) \<le> 0
                    then Some (zeroResult None, Some (OrderNotFound (o_OrderID original)), e)
                    else
                      (case cancelResting CancelReasonAmended nowMillis a ob of
                         None \<Rightarrow> None
                       | Some (cancelled, ob1) \<Rightarrow>
                           let e1 = e\<lparr>books := AList.update (BookKey original) ob1 (books e)\<rparr>;
                               am1 = cancelled\<lparr>o_Status := OrderStatusNew, o_CancelReason := '''', o_FilledQuantity := 0\<rparr>;
                               am2 = (if 0 < newPrice then am1\<lparr>o_Price := newPrice\<rparr> else am1);
                               amended = (if 0 < newQty then am2\<lparr>o_Quantity := newQty\<rparr> else am2)
                           in case PlaceOrder clk (Some amended) e1 of
                                None \<Rightarrow> None
                              | Some (result, err, e2) \<Rightarrow>
                                  Some (result\<lparr>r_Affected := cancelled # r_Affected result\<rparr>, err, e2)))))"

end
