(* ===== verification/Match_Priority.thy ===== *)
theory Match_Priority
  imports Match_Engine "HOL-Library.Sublist"
begin

text \<open>
  The reference semantics of matching, on values: a taker meets the list of resting orders it
  crosses, in price-time priority. \<open>vmatch\<close> returns the taker, the trades and what is left
  of the list. Its properties are those of the engine, proved once here and carried over to the
  pointer structures in \<open>Match_Refine\<close>.
\<close>

section \<open>Matching a list of makers\<close>

record Core =
  k_order :: Order
  k_trades :: "Trade list"
  k_affected :: "Order list"
  k_localSeq :: u64
  k_sequence :: u64
  k_done :: bool

definition k_active :: "Core \<Rightarrow> bool" where
  "k_active c \<longleftrightarrow> 0 < RemainingQuantity (k_order c) \<and> \<not> k_done c"

text \<open>One maker: the new state, the maker afterwards, and whether it stays in the book.\<close>

definition vmaker :: "(u64 \<Rightarrow> i64) \<Rightarrow> string \<Rightarrow> STPStrategy \<Rightarrow> DirectOrder \<Rightarrow> Core \<Rightarrow> Core \<times> DirectOrder \<times> bool" where
  "vmaker clk key stp d c =
     (if o_UserID (k_order c) = d_UserID d then
        if stp = STPCancelTaker then
          (c\<lparr>k_order := Cancel CancelReasonSTPTaker (k_order c), k_done := True\<rparr>, d, True)
        else if stp = STPCancelMaker then
          (let d1 = d_Cancel CancelReasonSTPMaker d in (c\<lparr>k_affected := k_affected c @ [ToOrder d1]\<rparr>, d1, False))
        else if stp = STPCancelBoth then
          (let d1 = d_Cancel CancelReasonSTPBoth d
           in (c\<lparr>k_order := Cancel CancelReasonSTPBoth (k_order c), k_affected := k_affected c @ [ToOrder d1],
                 k_done := True\<rparr>, d1, False))
        else (c, d, True)
      else
        let q = min (RemainingQuantity (k_order c)) (d_RemainingQuantity d) in
        if q \<le> 0 then (c, d, True)
        else
          let o1 = ApplyFill q (k_order c); d1 = d_ApplyFill q d;
              ls = k_localSeq c + 1; sq = k_sequence c + 1
          in (c\<lparr>k_order := o1, k_trades := k_trades c @ [mkTrade clk key o1 d1 q ls sq],
                k_affected := k_affected c @ [ToOrder d1], k_localSeq := ls, k_sequence := sq\<rparr>,
              d1, d_RemainingQuantity d1 \<noteq> 0))"

fun vmatch :: "(u64 \<Rightarrow> i64) \<Rightarrow> string \<Rightarrow> STPStrategy \<Rightarrow> DirectOrder list \<Rightarrow> Core \<Rightarrow> Core \<times> DirectOrder list" where
  "vmatch clk key stp [] c = (c, [])"
| "vmatch clk key stp (d # ds) c =
     (if k_active c then
        let (c1, d1, keep) = vmaker clk key stp d c; (c2, rest) = vmatch clk key stp ds c1
        in (c2, if keep then d1 # rest else rest)
      else (c, d # ds))"

text \<open>A resting order that can still trade.\<close>

definition d_open :: "DirectOrder \<Rightarrow> bool" where
  "d_open d \<longleftrightarrow> d_fill_ok d \<and> 0 < d_RemainingQuantity d"

lemma d_open_iff: "d_open d \<longleftrightarrow> 0 \<le> d_FilledQuantity d \<and> d_FilledQuantity d < d_Quantity d \<and> d_Quantity d \<le> MaxInt64"
proof -
  have "d_fill_ok d \<Longrightarrow> 0 < d_RemainingQuantity d \<longleftrightarrow> d_FilledQuantity d < d_Quantity d"
    by (simp add: d_RemainingQuantity_eq)
  then show ?thesis unfolding d_open_def by (auto simp: d_fill_ok_def)
qed

section \<open>One maker\<close>

text \<open>The fields that matching never changes.\<close>

definition same_order :: "Order \<Rightarrow> Order \<Rightarrow> bool" where
  "same_order a b \<longleftrightarrow> o_OrderID a = o_OrderID b \<and> o_UserID a = o_UserID b \<and> o_MarketID a = o_MarketID b \<and>
     o_Outcome a = o_Outcome b \<and> o_Side a = o_Side b \<and> o_Type a = o_Type b \<and>
     o_TimeInForce a = o_TimeInForce b \<and> o_STPStrategy a = o_STPStrategy b \<and> o_Price a = o_Price b \<and>
     o_Quantity a = o_Quantity b"

definition same_maker :: "DirectOrder \<Rightarrow> DirectOrder \<Rightarrow> bool" where
  "same_maker a b \<longleftrightarrow> d_OrderID a = d_OrderID b \<and> d_UserID a = d_UserID b \<and> d_MarketID a = d_MarketID b \<and>
     d_Outcome a = d_Outcome b \<and> d_Side a = d_Side b \<and> d_Price a = d_Price b \<and> d_Quantity a = d_Quantity b"

lemma same_order_refl [simp]: "same_order a a" by (simp add: same_order_def)

lemma same_order_trans: "same_order a b \<Longrightarrow> same_order b c \<Longrightarrow> same_order a c"
  by (simp add: same_order_def)

lemma same_order_ops [simp]: "same_order a (ApplyFill q a)" "same_order a (Cancel r a)"
  by (simp_all add: same_order_def order_simps)

lemma same_maker_refl [simp]: "same_maker a a" by (simp add: same_maker_def)

lemma same_maker_ops [simp]: "same_maker a (d_ApplyFill q a)" "same_maker a (d_Cancel r a)"
  by (simp_all add: same_maker_def order_simps)

text \<open>
  \<open>trade_of\<close>: the trade that taker and maker make for a quantity, without its numbers.
\<close>

definition trade_of :: "string \<Rightarrow> Order \<Rightarrow> DirectOrder \<Rightarrow> Trade \<Rightarrow> bool" where
  "trade_of key o' d t \<longleftrightarrow> t_BookKey t = key \<and> t_Price t = d_Price d \<and> t_MakerOrderID t = d_OrderID d \<and>
     t_MakerUserID t = d_UserID d \<and> t_MakerSide t = d_Side d \<and> t_TakerOrderID t = o_OrderID o' \<and>
     t_TakerUserID t = o_UserID o' \<and> t_TakerSide t = o_Side o' \<and> t_MarketID t = o_MarketID o' \<and>
     t_Outcome t = o_Outcome o' \<and> 0 < t_Quantity t \<and> t_Quantity t \<le> d_RemainingQuantity d \<and>
     o_UserID o' \<noteq> d_UserID d"

text \<open>What one maker does to the state, by cases.\<close>

datatype visit = Skip | StopTaker | DropMaker | StopBoth | Fill int

definition visit_of :: "STPStrategy \<Rightarrow> DirectOrder \<Rightarrow> Core \<Rightarrow> visit" where
  "visit_of stp d c =
     (if o_UserID (k_order c) = d_UserID d then
        if stp = STPCancelTaker then StopTaker else if stp = STPCancelMaker then DropMaker
        else if stp = STPCancelBoth then StopBoth else Skip
      else Fill (min (RemainingQuantity (k_order c)) (d_RemainingQuantity d)))"

lemma vmaker_cases:
  assumes "k_active c" and "d_open d" and "fill_ok (k_order c)" and "vmaker clk key stp d c = (c', d', keep)"
  shows "case visit_of stp d c of
      Skip \<Rightarrow> c' = c \<and> d' = d \<and> keep
    | StopTaker \<Rightarrow> c' = c\<lparr>k_order := Cancel CancelReasonSTPTaker (k_order c), k_done := True\<rparr> \<and> d' = d \<and> keep
    | DropMaker \<Rightarrow> d' = d_Cancel CancelReasonSTPMaker d \<and> \<not> keep \<and>
        c' = c\<lparr>k_affected := k_affected c @ [ToOrder d']\<rparr>
    | StopBoth \<Rightarrow> d' = d_Cancel CancelReasonSTPBoth d \<and> \<not> keep \<and>
        c' = c\<lparr>k_order := Cancel CancelReasonSTPBoth (k_order c), k_affected := k_affected c @ [ToOrder d'], k_done := True\<rparr>
    | Fill q \<Rightarrow> 0 < q \<and> q \<le> RemainingQuantity (k_order c) \<and> q \<le> d_RemainingQuantity d \<and>
        o_UserID (k_order c) \<noteq> d_UserID d \<and>
        d' = d_ApplyFill q d \<and> keep = (d_RemainingQuantity d' \<noteq> 0) \<and>
        c' = c\<lparr>k_order := ApplyFill q (k_order c),
               k_trades := k_trades c @ [mkTrade clk key (ApplyFill q (k_order c)) d' q (k_localSeq c + 1) (k_sequence c + 1)],
               k_affected := k_affected c @ [ToOrder d'], k_localSeq := k_localSeq c + 1, k_sequence := k_sequence c + 1\<rparr>"
  using assms
  by (auto simp: vmaker_def visit_of_def Let_def k_active_def d_open_def split: if_splits)

section \<open>Runs\<close>

definition fill_core :: "(u64 \<Rightarrow> i64) \<Rightarrow> string \<Rightarrow> int \<Rightarrow> DirectOrder \<Rightarrow> Core \<Rightarrow> Core" where
  "fill_core clk key q d c =
     c\<lparr>k_order := ApplyFill q (k_order c),
       k_trades := k_trades c @ [mkTrade clk key (ApplyFill q (k_order c)) (d_ApplyFill q d) q (k_localSeq c + 1) (k_sequence c + 1)],
       k_affected := k_affected c @ [ToOrder (d_ApplyFill q d)], k_localSeq := k_localSeq c + 1,
       k_sequence := k_sequence c + 1\<rparr>"

lemma fill_core_simps [simp]:
  "k_order (fill_core clk key q d c) = ApplyFill q (k_order c)"
  "k_localSeq (fill_core clk key q d c) = k_localSeq c + 1"
  "k_sequence (fill_core clk key q d c) = k_sequence c + 1"
  "k_done (fill_core clk key q d c) = k_done c"
  "k_trades (fill_core clk key q d c) =
     k_trades c @ [mkTrade clk key (ApplyFill q (k_order c)) (d_ApplyFill q d) q (k_localSeq c + 1) (k_sequence c + 1)]"
  "k_affected (fill_core clk key q d c) = k_affected c @ [ToOrder (d_ApplyFill q d)]"
  by (simp_all add: fill_core_def)

inductive vrun :: "(u64 \<Rightarrow> i64) \<Rightarrow> string \<Rightarrow> STPStrategy \<Rightarrow> DirectOrder list \<Rightarrow> Core \<Rightarrow> Core \<Rightarrow> DirectOrder list \<Rightarrow> bool"
  for clk key stp where
  vr_nil: "vrun clk key stp [] c c []"
| vr_stop: "\<not> k_active c \<Longrightarrow> vrun clk key stp (d # ds) c c (d # ds)"
| vr_skip: "k_active c \<Longrightarrow> o_UserID (k_order c) = d_UserID d \<Longrightarrow>
    stp \<notin> {STPCancelTaker, STPCancelMaker, STPCancelBoth} \<Longrightarrow>
    vrun clk key stp ds c c' rest \<Longrightarrow> vrun clk key stp (d # ds) c c' (d # rest)"
| vr_taker: "k_active c \<Longrightarrow> o_UserID (k_order c) = d_UserID d \<Longrightarrow> stp = STPCancelTaker \<Longrightarrow>
    vrun clk key stp (d # ds) c (c\<lparr>k_order := Cancel CancelReasonSTPTaker (k_order c), k_done := True\<rparr>) (d # ds)"
| vr_maker: "k_active c \<Longrightarrow> o_UserID (k_order c) = d_UserID d \<Longrightarrow> stp = STPCancelMaker \<Longrightarrow>
    vrun clk key stp ds (c\<lparr>k_affected := k_affected c @ [ToOrder (d_Cancel CancelReasonSTPMaker d)]\<rparr>) c' rest \<Longrightarrow>
    vrun clk key stp (d # ds) c c' rest"
| vr_both: "k_active c \<Longrightarrow> o_UserID (k_order c) = d_UserID d \<Longrightarrow> stp = STPCancelBoth \<Longrightarrow>
    vrun clk key stp (d # ds) c
      (c\<lparr>k_order := Cancel CancelReasonSTPBoth (k_order c),
         k_affected := k_affected c @ [ToOrder (d_Cancel CancelReasonSTPBoth d)], k_done := True\<rparr>) ds"
| vr_fill: "k_active c \<Longrightarrow> o_UserID (k_order c) \<noteq> d_UserID d \<Longrightarrow>
    q = min (RemainingQuantity (k_order c)) (d_RemainingQuantity d) \<Longrightarrow> 0 < q \<Longrightarrow>
    vrun clk key stp ds (fill_core clk key q d c) c' rest \<Longrightarrow>
    vrun clk key stp (d # ds) c c' ((if d_RemainingQuantity (d_ApplyFill q d) \<noteq> 0 then [d_ApplyFill q d] else []) @ rest)"

lemma vmatch_inactive: "\<not> k_active c \<Longrightarrow> vmatch clk key stp ds c = (c, ds)"
  by (cases ds) simp_all

lemma vmatch_vrun:
  assumes "vmatch clk key stp ds c = (c', rest)" and "fill_ok (k_order c)" and "\<forall>d\<in>set ds. d_open d"
  shows "vrun clk key stp ds c c' rest"
  using assms
proof (induction ds arbitrary: c c' rest)
  case Nil
  then show ?case by (auto intro: vr_nil)
next
  case (Cons d ds)
  show ?case
  proof (cases "k_active c")
    case False
    then show ?thesis using Cons.prems by (auto intro: vr_stop)
  next
    case True
    obtain c1 d1 keep where v: "vmaker clk key stp d c = (c1, d1, keep)" by (metis prod_cases3)
    obtain c2 rs where m: "vmatch clk key stp ds c1 = (c2, rs)" by fastforce
    have c': "c' = c2" and rest: "rest = (if keep then d1 # rs else rs)"
      using Cons.prems(1) True v m by auto
    have od: "d_open d" "\<forall>x\<in>set ds. d_open x" using Cons.prems(3) by auto
    note vc = vmaker_cases [OF True od(1) Cons.prems(2) v]
    show ?thesis
    proof (cases "visit_of stp d c")
      case Skip
      then have "c1 = c" "d1 = d" keep "o_UserID (k_order c) = d_UserID d"
        "stp \<notin> {STPCancelTaker, STPCancelMaker, STPCancelBoth}"
        using vc by (auto simp: visit_of_def split: if_splits)
      then show ?thesis
        using Cons.IH [of c c2 rs] m od Cons.prems(2) True vr_skip [of c d stp clk key ds c2 rs] by (simp add: c' rest)
    next
      case StopTaker
      then have "stp = STPCancelTaker" "o_UserID (k_order c) = d_UserID d"
        by (auto simp: visit_of_def split: if_splits)
      moreover have c1: "c1 = c\<lparr>k_order := Cancel CancelReasonSTPTaker (k_order c), k_done := True\<rparr>" "d1 = d" keep
        using vc StopTaker by auto
      moreover have "\<not> k_active c1" by (simp add: c1 k_active_def)
      then have "c2 = c1" "rs = ds" using m vmatch_inactive by auto
      ultimately show ?thesis using True by (auto simp: c' rest intro: vr_taker)
    next
      case DropMaker
      then have "stp = STPCancelMaker" "o_UserID (k_order c) = d_UserID d"
        by (auto simp: visit_of_def split: if_splits)
      moreover have c1: "\<not> keep" "c1 = c\<lparr>k_affected := k_affected c @ [ToOrder (d_Cancel CancelReasonSTPMaker d)]\<rparr>"
        using vc DropMaker by auto
      moreover have "vrun clk key stp ds c1 c2 rs"
        using m od Cons.prems(2) by (intro Cons.IH) (auto simp: c1)
      ultimately show ?thesis using True by (auto simp: c' rest intro: vr_maker)
    next
      case StopBoth
      then have "stp = STPCancelBoth" "o_UserID (k_order c) = d_UserID d"
        by (auto simp: visit_of_def split: if_splits)
      moreover have c1: "\<not> keep" "c1 = c\<lparr>k_order := Cancel CancelReasonSTPBoth (k_order c),
          k_affected := k_affected c @ [ToOrder (d_Cancel CancelReasonSTPBoth d)], k_done := True\<rparr>"
        using vc StopBoth by auto
      moreover have "\<not> k_active c1" by (simp add: c1 k_active_def)
      then have "c2 = c1" "rs = ds" using m vmatch_inactive by auto
      ultimately show ?thesis using True by (auto simp: c' rest intro: vr_both)
    next
      case (Fill q)
      then have q: "q = min (RemainingQuantity (k_order c)) (d_RemainingQuantity d)"
        by (auto simp: visit_of_def split: if_splits)
      have f: "0 < q" "q \<le> RemainingQuantity (k_order c)" "o_UserID (k_order c) \<noteq> d_UserID d" "d1 = d_ApplyFill q d"
        "keep = (d_RemainingQuantity d1 \<noteq> 0)" "c1 = fill_core clk key q d c"
        using vc Fill by (auto simp: fill_core_def)
      have "vrun clk key stp ds c1 c2 rs"
        using m od Cons.prems(2) f(1,2) fill_ok_ApplyFill(1) [of "k_order c" q] by (intro Cons.IH) (auto simp: f(6))
      then have "vrun clk key stp (d # ds) c c2
          ((if d_RemainingQuantity (d_ApplyFill q d) \<noteq> 0 then [d_ApplyFill q d] else []) @ rs)"
        using True f q by (intro vr_fill) auto
      then show ?thesis using f(4,5) by (simp add: c' rest split: if_splits)
    qed
  qed
qed

lemma vrun_order:
  assumes "vrun clk key stp ds c c' rest" and "fill_ok (k_order c)" and "\<forall>d\<in>set ds. d_open d"
  shows "same_order (k_order c) (k_order c')" and "fill_ok (k_order c')"
proof -
  have "same_order (k_order c) (k_order c') \<and> fill_ok (k_order c')"
    using assms
  proof (induction rule: vrun.induct)
    case (vr_fill c d q ds c' rest)
    then show ?case
      using fill_ok_ApplyFill(1) [of "k_order c" q] same_order_trans [OF same_order_ops(1) [of "k_order c" q]]
      by auto
  qed auto
  then show "same_order (k_order c) (k_order c')" and "fill_ok (k_order c')" by auto
qed

text \<open>The trades of a run: which they are, their sum and their numbers.\<close>

definition trade_qty :: "Trade list \<Rightarrow> int" where
  "trade_qty ts = sum_list (map t_Quantity ts)"

lemma trade_qty_simps [simp]: "trade_qty [] = 0" "trade_qty (t # ts) = t_Quantity t + trade_qty ts"
  "trade_qty (ts @ us) = trade_qty ts + trade_qty us"
  by (simp_all add: trade_qty_def)

definition numbered :: "string \<Rightarrow> u64 \<Rightarrow> u64 \<Rightarrow> Trade list \<Rightarrow> bool" where
  "numbered key ls sq ts \<longleftrightarrow>
     map t_TradeID ts = map (\<lambda>i. DeterministicTradeID key (ls + of_nat (Suc i))) [0..<length ts] \<and>
     map t_Sequence ts = map (\<lambda>i. sq + of_nat (Suc i)) [0..<length ts]"

lemma map_upt_shift: "map f [0..<Suc n] = f 0 # map (\<lambda>i. f (Suc i)) [0..<n]"
  by (simp add: upt_conv_Cons map_Suc_upt [symmetric] comp_def del: upt_Suc)

lemma numbered_Cons:
  assumes "t_TradeID t = DeterministicTradeID key (ls + 1)" and "t_Sequence t = sq + 1"
    and "numbered key (ls + 1) (sq + 1) ts"
  shows "numbered key ls sq (t # ts)"
  using assms unfolding numbered_def length_Cons map_upt_shift by (simp add: add.assoc)

definition trades_of_run :: "string \<Rightarrow> Core \<Rightarrow> DirectOrder list \<Rightarrow> Core \<Rightarrow> Trade list \<Rightarrow> bool" where
  "trades_of_run key c ds c' ts \<longleftrightarrow>
     k_trades c' = k_trades c @ ts \<and>
     o_FilledQuantity (k_order c') = o_FilledQuantity (k_order c) + trade_qty ts \<and>
     (\<forall>t\<in>set ts. \<exists>d\<in>set ds. trade_of key (k_order c) d t) \<and>
     subseq (map t_MakerOrderID ts) (map d_OrderID ds) \<and>
     subseq (map t_Price ts) (map d_Price ds) \<and>
     k_localSeq c' = k_localSeq c + of_nat (length ts) \<and>
     k_sequence c' = k_sequence c + of_nat (length ts) \<and>
     numbered key (k_localSeq c) (k_sequence c) ts"

lemma trades_of_run_none [simp]:
  assumes "k_trades c' = k_trades c" and "o_FilledQuantity (k_order c') = o_FilledQuantity (k_order c)"
    and "k_localSeq c' = k_localSeq c" and "k_sequence c' = k_sequence c"
  shows "trades_of_run key c ds c' []"
  using assms by (simp add: trades_of_run_def numbered_def)

lemma trades_of_run_skip:
  assumes "trades_of_run key c ds c' ts" and "k_trades c = k_trades c0" and "k_order c = k_order c0"
    and "k_localSeq c = k_localSeq c0" and "k_sequence c = k_sequence c0"
  shows "trades_of_run key c0 (d # ds) c' ts"
  using assms unfolding trades_of_run_def by (auto simp: list_emb_Cons)

lemma trades_of_run_fill:
  assumes "trades_of_run key (fill_core clk key q d c) ds c' ts" and "fill_ok (k_order c)" and "d_open d"
    and "0 < q" and "q \<le> RemainingQuantity (k_order c)" and "q \<le> d_RemainingQuantity d"
    and "o_UserID (k_order c) \<noteq> d_UserID d"
  shows "\<exists>t. t_Quantity t = q \<and> t_MakerOrderID t = d_OrderID d \<and> trades_of_run key c (d # ds) c' (t # ts)"
proof -
  let ?t = "mkTrade clk key (ApplyFill q (k_order c)) (d_ApplyFill q d) q (k_localSeq c + 1) (k_sequence c + 1)"
  have t: "trade_of key (k_order c) d ?t"
    using assms by (simp add: trade_of_def mkTrade_def order_simps)
  have f: "o_FilledQuantity (ApplyFill q (k_order c)) = o_FilledQuantity (k_order c) + q"
    using assms by (intro fill_ok_ApplyFill) auto
  have *: "trade_of key (ApplyFill q (k_order c)) x u = trade_of key (k_order c) x u" for x u
    by (simp add: trade_of_def order_simps)
  have n: "numbered key (k_localSeq c) (k_sequence c) (?t # ts)"
    using assms(1) by (intro numbered_Cons) (auto simp: mkTrade_def trades_of_run_def)
  have "trades_of_run key c (d # ds) c' (?t # ts)"
    using assms(1) t f n unfolding trades_of_run_def
    by (auto simp: * mkTrade_def order_simps)
  then show ?thesis by (intro exI [of _ ?t]) (simp add: mkTrade_def order_simps)
qed

lemma vrun_trades:
  assumes "vrun clk key stp ds c c' rest" and "fill_ok (k_order c)" and "\<forall>d\<in>set ds. d_open d"
  shows "\<exists>ts. trades_of_run key c ds c' ts"
  using assms
proof (induction rule: vrun.induct)
  case (vr_fill c d q ds c' rest)
  then obtain ts where "trades_of_run key (fill_core clk key q d c) ds c' ts"
    using fill_ok_ApplyFill(1) [of "k_order c" q] by auto
  then show ?case
    using trades_of_run_fill vr_fill by (metis list.set_intros(1) min.cobounded1 min.cobounded2)
next
  case (vr_skip c d ds c' rest)
  then show ?case using trades_of_run_skip by fastforce
next
  case (vr_maker c d ds c' rest)
  then show ?case using trades_of_run_skip by fastforce
qed (auto intro!: exI [of _ "[]"] simp: order_simps)

text \<open>What is left of the makers.\<close>

lemma d_open_fill:
  assumes "d_open d" and "0 < q" and "q \<le> d_RemainingQuantity d" and "d_RemainingQuantity (d_ApplyFill q d) \<noteq> 0"
  shows "d_open (d_ApplyFill q d)"
  using assms d_fill_ok_ApplyFill [of d q] d_RemainingQuantity_nonneg [of "d_ApplyFill q d"]
  by (auto simp: d_open_def order.strict_iff_order)

lemma vrun_rest:
  assumes "vrun clk key stp ds c c' rest" and "fill_ok (k_order c)" and "\<forall>d\<in>set ds. d_open d"
  shows "(\<forall>r\<in>set rest. d_open r \<and> (\<exists>d\<in>set ds. same_maker d r)) \<and>
         subseq (map d_OrderID rest) (map d_OrderID ds)"
  using assms
proof (induction rule: vrun.induct)
  case (vr_fill c d q ds c' rest)
  have "fill_ok (ApplyFill q (k_order c))"
    using vr_fill by (intro fill_ok_ApplyFill(1)) auto
  then have ih: "(\<forall>r\<in>set rest. d_open r \<and> (\<exists>d\<in>set ds. same_maker d r)) \<and>
      subseq (map d_OrderID rest) (map d_OrderID ds)"
    using vr_fill by simp
  have "d_open (d_ApplyFill q d)" if "d_RemainingQuantity (d_ApplyFill q d) \<noteq> 0"
    using vr_fill that by (intro d_open_fill) auto
  then show ?case
    using ih same_maker_ops(1) [of d q] by (auto simp: order_simps intro: list_emb_Cons)
qed (fastforce intro: list_emb_Cons)+

lemma vrun_inactive: "vrun clk key stp ds c c' rest \<Longrightarrow> \<not> k_active c \<Longrightarrow> c' = c \<and> rest = ds"
  by (auto elim: vrun.cases)

text \<open>A taker that is still active has left nobody to trade with.\<close>

lemma vrun_exhausts:
  assumes "vrun clk key stp ds c c' rest" and "fill_ok (k_order c)" and "\<forall>d\<in>set ds. d_open d" and "k_active c'"
  shows "\<forall>r\<in>set rest. d_UserID r = o_UserID (k_order c')"
  using assms
proof (induction rule: vrun.induct)
  case (vr_skip c d ds c' rest)
  have "same_order (k_order c) (k_order c')"
    using vr_skip by (intro vrun_order(1)) auto
  then show ?case using vr_skip by (auto simp: same_order_def)
next
  case (vr_fill c d q ds c' rest)
  have ok: "fill_ok (ApplyFill q (k_order c))"
    and rem: "RemainingQuantity (ApplyFill q (k_order c)) = RemainingQuantity (k_order c) - q"
    using vr_fill by (auto intro: fill_ok_ApplyFill)
  have drem: "d_RemainingQuantity (d_ApplyFill q d) = d_RemainingQuantity d - q"
    using vr_fill by (intro d_fill_ok_ApplyFill) (auto simp: d_open_def)
  have "k_active (fill_core clk key q d c)"
  proof (rule ccontr)
    assume "\<not> k_active (fill_core clk key q d c)"
    then have "c' = fill_core clk key q d c"
      using vrun_inactive [OF vr_fill(5)] by blast
    then show False using vr_fill.prems(3) \<open>\<not> k_active (fill_core clk key q d c)\<close> by simp
  qed
  then have "q \<noteq> RemainingQuantity (k_order c)"
    using rem by (auto simp: k_active_def)
  then have "d_RemainingQuantity (d_ApplyFill q d) = 0"
    using vr_fill(3) drem by (auto simp: min_def split: if_splits)
  then show ?case using vr_fill ok by simp
qed (auto simp: k_active_def)

lemma vrun_done:
  assumes "vrun clk key stp ds c c' rest" and "\<not> k_done c" and "k_done c'"
  shows "o_Status (k_order c') = OrderStatusCancelled" and "stp = STPCancelTaker \<or> stp = STPCancelBoth"
proof -
  have "o_Status (k_order c') = OrderStatusCancelled \<and> (stp = STPCancelTaker \<or> stp = STPCancelBoth)"
    using assms by (induction rule: vrun.induct) (auto simp: order_simps)
  then show "o_Status (k_order c') = OrderStatusCancelled" and "stp = STPCancelTaker \<or> stp = STPCancelBoth"
    by auto
qed

text \<open>How much of a maker the trades took.\<close>

definition taken :: "string \<Rightarrow> Trade list \<Rightarrow> int" where
  "taken k ts = trade_qty (filter (\<lambda>t. t_MakerOrderID t = k) ts)"

lemma taken_simps [simp]: "taken k [] = 0"
  "taken k (t # ts) = (if t_MakerOrderID t = k then t_Quantity t else 0) + taken k ts"
  by (simp_all add: taken_def)

lemma taken_none: "k \<notin> t_MakerOrderID ` set ts \<Longrightarrow> taken k ts = 0"
  by (induction ts) auto

text \<open>
  The accounts of the makers after a run: one that is still in the book has its filled quantity
  raised by what was taken from it; one that is gone was taken in full, unless it was the
  taker's own.
\<close>

definition makers_account :: "i64 \<Rightarrow> DirectOrder list \<Rightarrow> DirectOrder list \<Rightarrow> Trade list \<Rightarrow> bool" where
  "makers_account user ds rest ts \<longleftrightarrow>
     (\<forall>d\<in>set ds. (\<exists>r\<in>set rest. same_maker d r \<and> d_FilledQuantity r = d_FilledQuantity d + taken (d_OrderID d) ts) \<or>
        (d_OrderID d \<notin> d_OrderID ` set rest \<and> (taken (d_OrderID d) ts = d_RemainingQuantity d \<or>
           d_UserID d = user \<and> taken (d_OrderID d) ts = 0)))"

lemma makers_account_untouched: "makers_account user ds ds []"
  unfolding makers_account_def by (intro ballI disjI1 bexI) auto

lemma distinct_map_head: "distinct (map f (d # ds)) \<Longrightarrow> x \<in> set ds \<Longrightarrow> f x \<noteq> f d"
  by (metis distinct.simps(2) image_eqI list.set_map list.simps(9))

lemma subseq_set: "subseq xs ys \<Longrightarrow> set xs \<subseteq> set ys"
  by (induction rule: list_emb.induct) auto

lemma subseq_head_gone:
  assumes "subseq (map g rest) (map f ds)" and "distinct (map f (d # ds))"
  shows "f d \<notin> g ` set rest"
  using subseq_set [OF assms(1)] assms(2) by auto

lemma taken_head:
  assumes "trades_of_run key c ds c' ts" and "distinct (map d_OrderID (d # ds))"
  shows "taken (d_OrderID d) ts = 0"
proof (rule taken_none)
  have "subseq (map t_MakerOrderID ts) (map d_OrderID ds)"
    using assms(1) by (simp add: trades_of_run_def)
  then show "d_OrderID d \<notin> t_MakerOrderID ` set ts"
    using assms(2) by (rule subseq_head_gone)
qed

lemma makers_account_Cons:
  assumes "makers_account user ds rest ts" and "distinct (map d_OrderID (d # ds))"
    and "\<And>x. x \<in> set ds \<Longrightarrow> taken (d_OrderID x) ts' = taken (d_OrderID x) ts"
    and "set rest' = set rest \<union> D" and "\<And>x. x \<in> D \<Longrightarrow> d_OrderID x = d_OrderID d"
    and "(\<exists>r\<in>D. same_maker d r \<and> d_FilledQuantity r = d_FilledQuantity d + taken (d_OrderID d) ts') \<or>
        (d_OrderID d \<notin> d_OrderID ` set rest' \<and> (taken (d_OrderID d) ts' = d_RemainingQuantity d \<or>
           d_UserID d = user \<and> taken (d_OrderID d) ts' = 0))"
  shows "makers_account user (d # ds) rest' ts'"
  unfolding makers_account_def
proof
  fix x assume x: "x \<in> set (d # ds)"
  show "(\<exists>r\<in>set rest'. same_maker x r \<and> d_FilledQuantity r = d_FilledQuantity x + taken (d_OrderID x) ts') \<or>
        (d_OrderID x \<notin> d_OrderID ` set rest' \<and> (taken (d_OrderID x) ts' = d_RemainingQuantity x \<or>
           d_UserID x = user \<and> taken (d_OrderID x) ts' = 0))"
  proof (cases "x = d")
    case True
    then show ?thesis using assms(4,6) by auto
  next
    case False
    then have xs: "x \<in> set ds" using x by simp
    have ne: "d_OrderID x \<noteq> d_OrderID d" using distinct_map_head [OF assms(2) xs] .
    have "d_OrderID x \<notin> d_OrderID ` D" using assms(5) ne by auto
    then show ?thesis
      using assms(1) xs unfolding makers_account_def assms(3) [OF xs] assms(4) by blast
  qed
qed

lemma vrun_account:
  assumes "vrun clk key stp ds c c' rest" and "fill_ok (k_order c)" and "\<forall>d\<in>set ds. d_open d"
    and "distinct (map d_OrderID ds)"
  shows "\<exists>ts. trades_of_run key c ds c' ts \<and> makers_account (o_UserID (k_order c)) ds rest ts"
  using assms
proof (induction rule: vrun.induct)
  case (vr_nil c)
  show ?case by (intro exI [of _ "[]"]) (simp add: makers_account_untouched)
next
  case (vr_stop c d ds)
  show ?case by (intro exI [of _ "[]"]) (simp add: makers_account_untouched)
next
  case (vr_taker c d ds)
  show ?case by (intro exI [of _ "[]"]) (simp add: makers_account_untouched order_simps)
next
  case (vr_both c d ds)
  then show ?case
    using makers_account_untouched [of "o_UserID (k_order c)" ds]
    by (intro exI [of _ "[]"]) (auto simp: makers_account_def order_simps)
next
  case (vr_skip c d ds c' rest)
  then obtain ts where ts: "trades_of_run key c ds c' ts" "makers_account (o_UserID (k_order c)) ds rest ts"
    by auto
  have "taken (d_OrderID d) ts = 0" using taken_head [OF ts(1) vr_skip.prems(3)] .
  then have "makers_account (o_UserID (k_order c)) (d # ds) (d # rest) ts"
    by (intro makers_account_Cons [OF ts(2) vr_skip.prems(3), where D = "{d}"]) auto
  then show ?case using trades_of_run_skip [OF ts(1)] by blast
next
  case (vr_maker c d ds c' rest)
  let ?c = "c\<lparr>k_affected := k_affected c @ [ToOrder (d_Cancel CancelReasonSTPMaker d)]\<rparr>"
  have kc: "k_order ?c = k_order c" by simp
  have p: "fill_ok (k_order ?c)" "\<forall>x\<in>set ds. d_open x" "distinct (map d_OrderID ds)"
    using vr_maker.prems by simp_all
  from vr_maker.IH [OF p] obtain ts
    where ts: "trades_of_run key ?c ds c' ts" "makers_account (o_UserID (k_order c)) ds rest ts"
    unfolding kc by blast
  have "taken (d_OrderID d) ts = 0" using taken_head [OF ts(1) vr_maker.prems(3)] .
  moreover have "subseq (map d_OrderID rest) (map d_OrderID ds)"
    by (rule conjunct2 [OF vrun_rest [OF vr_maker(4) p(1,2)]])
  then have "d_OrderID d \<notin> d_OrderID ` set rest"
    using vr_maker.prems(3) by (rule subseq_head_gone)
  ultimately have "makers_account (o_UserID (k_order c)) (d # ds) rest ts"
    using vr_maker(2) by (intro makers_account_Cons [OF ts(2) vr_maker.prems(3), where D = "{}"]) auto
  moreover have "trades_of_run key c (d # ds) c' ts" by (rule trades_of_run_skip [OF ts(1)]) simp_all
  ultimately show ?case by blast
next
  case (vr_fill c d q ds c' rest)
  let ?d = "d_ApplyFill q d"
  have ok: "fill_ok (ApplyFill q (k_order c))"
    using vr_fill by (intro fill_ok_ApplyFill(1)) auto
  have p: "fill_ok (k_order (fill_core clk key q d c))" "\<forall>x\<in>set ds. d_open x" "distinct (map d_OrderID ds)"
    using vr_fill.prems ok by simp_all
  from vr_fill.IH [OF p] obtain ts where ts: "trades_of_run key (fill_core clk key q d c) ds c' ts"
    and "makers_account (o_UserID (ApplyFill q (k_order c))) ds rest ts"
    unfolding fill_core_simps by blast
  then have ma: "makers_account (o_UserID (k_order c)) ds rest ts" by (simp add: order_simps)
  have qb: "q \<le> RemainingQuantity (k_order c)" "q \<le> d_RemainingQuantity d" "d_open d"
    using vr_fill(3) vr_fill.prems(2) by simp_all
  obtain t where t: "t_Quantity t = q" "t_MakerOrderID t = d_OrderID d"
    and tr: "trades_of_run key c (d # ds) c' (t # ts)"
    using trades_of_run_fill [OF ts vr_fill.prems(1) qb(3) vr_fill(4) qb(1,2) vr_fill(2)] by blast
  have td: "taken (d_OrderID d) (t # ts) = q"
    using taken_head [OF ts vr_fill.prems(3)] t by simp
  have other: "taken (d_OrderID x) (t # ts) = taken (d_OrderID x) ts" if "x \<in> set ds" for x
    using distinct_map_head [OF vr_fill.prems(3) that] t(2) by simp
  have "subseq (map d_OrderID rest) (map d_OrderID ds)"
    by (rule conjunct2 [OF vrun_rest [OF vr_fill(5) p(1,2)]])
  then have gone: "d_OrderID d \<notin> d_OrderID ` set rest"
    using vr_fill.prems(3) by (rule subseq_head_gone)
  have df: "d_FilledQuantity ?d = d_FilledQuantity d + q" "d_RemainingQuantity ?d = d_RemainingQuantity d - q"
    using qb vr_fill(4) by (auto intro: d_fill_ok_ApplyFill simp: d_open_def)
  let ?rest = "(if d_RemainingQuantity ?d \<noteq> 0 then [?d] else []) @ rest"
  have "makers_account (o_UserID (k_order c)) (d # ds) ?rest (t # ts)"
  proof (cases "d_RemainingQuantity ?d = 0")
    case True
    then show ?thesis
      using td df(2) gone by (intro makers_account_Cons [OF ma vr_fill.prems(3) other, where D = "{}"]) simp_all
  next
    case False
    have "same_maker d ?d \<and> d_FilledQuantity ?d = d_FilledQuantity d + taken (d_OrderID d) (t # ts)"
      using df(1) td by simp
    then show ?thesis
      using False by (intro makers_account_Cons [OF ma vr_fill.prems(3) other, where D = "{?d}"])
        (simp_all add: order_simps)
  qed
  then show ?case using tr by blast
qed

section \<open>Fill or kill\<close>

fun vfok :: "Order \<Rightarrow> DirectOrder list \<Rightarrow> i64 \<Rightarrow> bool \<times> i64" where
  "vfok o' [] r = (False, r)"
| "vfok o' (d # ds) r =
     (if 0 < r then
        if stpWouldCancelTaker o' d then (True, r)
        else if stpWouldSkipMaker o' d then vfok o' ds r
        else let q = min r (d_RemainingQuantity d) in vfok o' ds (if 0 < q then wrap64 (r - q) else r)
      else (False, r))"

text \<open>The strategies for which the simulation and the match agree on the taker's own orders.\<close>

definition stp_decided :: "Order \<Rightarrow> DirectOrder list \<Rightarrow> bool" where
  "stp_decided o' ds \<longleftrightarrow> o_STPStrategy o' \<in> {STPCancelTaker, STPCancelMaker, STPCancelBoth} \<or>
     (\<forall>d\<in>set ds. d_UserID d \<noteq> o_UserID o')"

lemma vfok_fills:
  assumes "vrun clk key stp ds c c' rest" and "fill_ok (k_order c)" and "\<forall>d\<in>set ds. d_open d"
    and "stp = o_STPStrategy o'" and "o_UserID o' = o_UserID (k_order c)" and "stp_decided o' ds"
    and "vfok o' ds (RemainingQuantity (k_order c)) = (False, 0)" and "\<not> k_done c"
  shows "RemainingQuantity (k_order c') = 0 \<and> \<not> k_done c'"
  using assms
proof (induction rule: vrun.induct)
  case (vr_stop c d ds)
  then have "\<not> 0 < RemainingQuantity (k_order c)" by (auto simp: k_active_def)
  then show ?case using vr_stop.prems(7) RemainingQuantity_nonneg [of "k_order c"] by (simp add: vr_stop)
next
  case (vr_skip c d ds c' rest)
  then show ?case by (auto simp: stp_decided_def)
next
  case (vr_taker c d ds)
  then show ?case by (auto simp: stpWouldCancelTaker_def k_active_def)
next
  case (vr_both c d ds)
  then show ?case by (auto simp: stpWouldCancelTaker_def k_active_def)
next
  case (vr_maker c d ds c' rest)
  then have "vfok o' (d # ds) (RemainingQuantity (k_order c)) = vfok o' ds (RemainingQuantity (k_order c))"
    by (simp add: stpWouldCancelTaker_def stpWouldSkipMaker_def k_active_def)
  then show ?case using vr_maker by (simp add: stp_decided_def)
next
  case (vr_fill c d q ds c' rest)
  have ok: "fill_ok (ApplyFill q (k_order c))"
    and rem: "RemainingQuantity (ApplyFill q (k_order c)) = RemainingQuantity (k_order c) - q"
    using vr_fill by (auto intro: fill_ok_ApplyFill)
  have "RemainingQuantity (k_order c) \<le> MaxInt64"
    using vr_fill.prems(1) by (simp add: order_simps) (simp add: fill_ok_def)
  then have "wrap64 (RemainingQuantity (k_order c) - q) = RemainingQuantity (k_order c) - q"
    using vr_fill(3,4) by (intro wrap64_id) auto
  then have "vfok o' (d # ds) (RemainingQuantity (k_order c)) = vfok o' ds (RemainingQuantity (k_order c) - q)"
    using vr_fill(1-4) vr_fill.prems(4)
    by (simp add: stpWouldCancelTaker_def stpWouldSkipMaker_def k_active_def)
  then have "vfok o' ds (RemainingQuantity (k_order (fill_core clk key q d c))) = (False, 0)"
    using vr_fill.prems(6) rem by simp
  then show ?case
    using vr_fill.prems ok by (intro vr_fill.IH) (auto simp: stp_decided_def ApplyFill_fields(3))
qed simp

text \<open>The simulation never reports more than the makers hold, and counts what it reports.\<close>

lemma vfok_inactive: "r \<le> 0 \<Longrightarrow> vfok o' ds r = (False, r)"
  by (cases ds) auto

end
