(* ===== verification/Match_Refine.thy ===== *)
theory Match_Refine
  imports Match_Priority
begin

text \<open>
  The engine refines the reference semantics: the loops of \<open>match\<close> and \<open>fokCanFill\<close> over
  buckets and pointers return, and what they compute is \<open>vmatch\<close> and \<open>vfok\<close> on the list
  of resting orders that the taker crosses, in price-time priority.
\<close>

section \<open>The inner loop\<close>

definition core :: "MatchState \<Rightarrow> Core" where
  "core st = \<lparr>k_order = m_order st, k_trades = m_trades st, k_affected = m_affected st,
     k_localSeq = m_localSeq st, k_sequence = m_sequence st, k_done = m_takerDone st\<rparr>"

lemma active_core: "active st = k_active (core st)"
  by (simp add: active_def k_active_def core_def)

text \<open>What matching leaves alone in the memory.\<close>

definition mem_frame :: "heap \<Rightarrow> heap \<Rightarrow> bool" where
  "mem_frame h h' \<longleftrightarrow> (\<forall>a. n_prev (h' a) = n_prev (h a) \<and> n_next (h' a) = n_next (h a) \<and>
     n_poolID (h' a) = n_poolID (h a) \<and> same_maker (n_data (h a)) (n_data (h' a)))"

lemma mem_frame_refl [simp]: "mem_frame h h"
  by (simp add: mem_frame_def)

lemma mem_frame_trans: "mem_frame h h' \<Longrightarrow> mem_frame h' h'' \<Longrightarrow> mem_frame h h''"
  by (simp add: mem_frame_def same_maker_def)

lemma mem_frame_next: "mem_frame h h' \<Longrightarrow> n_next (h' a) = n_next (h a)"
  by (simp add: mem_frame_def)

lemma mem_frame_set_data:
  "same_maker (n_data (m_mem st a)) d \<Longrightarrow> mem_frame (m_mem st) (m_mem (set_data a d st))"
  by (simp add: mem_frame_def set_data_def)

lemma set_data_simps [simp]:
  "m_mem (set_data a d st) = (m_mem st)(a := (m_mem st a)\<lparr>n_data := d\<rparr>)"
  "m_order (set_data a d st) = m_order st" "m_trades (set_data a d st) = m_trades st"
  "m_affected (set_data a d st) = m_affected st" "m_toRemove (set_data a d st) = m_toRemove st"
  "m_localSeq (set_data a d st) = m_localSeq st" "m_sequence (set_data a d st) = m_sequence st"
  "m_takerDone (set_data a d st) = m_takerDone st"
  by (simp_all add: set_data_def)

lemma match_maker_frame: "mem_frame (m_mem st) (m_mem (match_maker clk key stp a st))"
  by (auto simp: match_maker_def Let_def mem_frame_def)

lemma match_maker_other: "b \<noteq> a \<Longrightarrow> m_mem (match_maker clk key stp a st) b = m_mem st b"
  by (auto simp: match_maker_def Let_def)

lemma match_maker_vmaker:
  "\<exists>keep. vmaker clk key stp (n_data (m_mem st a)) (core st) =
      (core (match_maker clk key stp a st), n_data (m_mem (match_maker clk key stp a st) a), keep) \<and>
    m_toRemove (match_maker clk key stp a st) = m_toRemove st @ (if keep then [] else [a])"
  by (auto simp: match_maker_def vmaker_def core_def Let_def)

definition walk1 :: "(u64 \<Rightarrow> i64) \<Rightarrow> string \<Rightarrow> STPStrategy \<Rightarrow> addr \<Rightarrow> MatchState \<Rightarrow> MatchState" where
  "walk1 clk key stp a st = (if active st then match_maker clk key stp a st else st)"

abbreviation walk :: "(u64 \<Rightarrow> i64) \<Rightarrow> string \<Rightarrow> STPStrategy \<Rightarrow> addr list \<Rightarrow> MatchState \<Rightarrow> MatchState" where
  "walk clk key stp \<equiv> fold (walk1 clk key stp)"

lemma walk_inactive: "\<not> active st \<Longrightarrow> walk clk key stp xs st = st"
  by (induction xs) (simp_all add: walk1_def)

lemma walk_frame: "mem_frame (m_mem st) (m_mem (walk clk key stp xs st))"
proof (induction xs arbitrary: st)
  case (Cons a xs)
  have "mem_frame (m_mem st) (m_mem (walk1 clk key stp a st))"
    by (simp add: walk1_def match_maker_frame)
  then show ?case using Cons mem_frame_trans by auto
qed simp

lemma walk_other: "b \<notin> set xs \<Longrightarrow> m_mem (walk clk key stp xs st) b = m_mem st b"
  by (induction xs arbitrary: st) (simp_all add: walk1_def match_maker_other)

lemma match_makers_walk:
  "seg (m_mem st) p i xs l None \<Longrightarrow> match_makers clk key stp i st = Some (walk clk key stp xs st)"
proof (induction xs arbitrary: p i st)
  case Nil
  then show ?case by (simp add: match_makers.simps)
next
  case (Cons a xs)
  then have i: "i = Some a" and s: "seg (m_mem st) (Some a) (n_next (m_mem st a)) xs l None" by auto
  show ?case
  proof (cases "active st")
    case True
    have "seg (m_mem (match_maker clk key stp a st)) (Some a) (n_next (m_mem st a)) xs l None"
      using match_maker_frame [of st clk key stp a] by (intro seg_frame [OF s]) (auto simp: mem_frame_def)
    then have "match_makers clk key stp (n_next (m_mem st a)) (match_maker clk key stp a st) =
        Some (walk clk key stp xs (match_maker clk key stp a st))"
      by (rule Cons.IH)
    moreover have "walk1 clk key stp a st = match_maker clk key stp a st" using True by (simp add: walk1_def)
    ultimately show ?thesis
      using True match_makers.simps [of clk key stp i st] by (simp add: i)
  next
    case False
    then show ?thesis
      using match_makers.simps [of clk key stp i st] walk_inactive [OF False, of clk key stp "a # xs"]
      by (simp add: i)
  qed
qed

text \<open>A walk is a run of the reference semantics on the values it meets.\<close>

lemma walk_vmatch:
  assumes "distinct as"
  shows "\<exists>rs. vmatch clk key stp (map (\<lambda>a. n_data (m_mem st a)) as) (core st) =
      (core (walk clk key stp as st),
       map (\<lambda>a. n_data (m_mem (walk clk key stp as st) a)) (filter (\<lambda>a. a \<notin> set rs) as)) \<and>
    m_toRemove (walk clk key stp as st) = m_toRemove st @ rs \<and> distinct rs \<and> set rs \<subseteq> set as"
  using assms
proof (induction as arbitrary: st)
  case Nil
  then show ?case by simp
next
  case (Cons a as)
  show ?case
  proof (cases "active st")
    case False
    then show ?thesis
      using walk_inactive [OF False, of clk key stp "a # as"]
      by (intro exI [of _ "[]"]) (simp add: active_core)
  next
    case True
    let ?st = "match_maker clk key stp a st"
    let ?st' = "walk clk key stp as ?st"
    have w: "walk clk key stp (a # as) st = ?st'" using True by (simp add: walk1_def)
    obtain keep where v: "vmaker clk key stp (n_data (m_mem st a)) (core st) = (core ?st, n_data (m_mem ?st a), keep)"
      and rm: "m_toRemove ?st = m_toRemove st @ (if keep then [] else [a])"
      using match_maker_vmaker by blast
    obtain rs where ih: "vmatch clk key stp (map (\<lambda>a. n_data (m_mem ?st a)) as) (core ?st) =
        (core ?st', map (\<lambda>a. n_data (m_mem ?st' a)) (filter (\<lambda>a. a \<notin> set rs) as))"
      "m_toRemove ?st' = m_toRemove ?st @ rs" "distinct rs" "set rs \<subseteq> set as"
      using Cons by fastforce
    have a: "a \<notin> set as" "distinct as" using Cons.prems by simp_all
    have same: "map (\<lambda>b. n_data (m_mem ?st b)) as = map (\<lambda>b. n_data (m_mem st b)) as"
    proof (rule map_cong [OF refl])
      fix b assume "b \<in> set as"
      then have "b \<noteq> a" using a(1) by blast
      then show "n_data (m_mem ?st b) = n_data (m_mem st b)" by (simp add: match_maker_other)
    qed
    have "m_mem ?st' a = m_mem ?st a" using a(1) by (rule walk_other)
    moreover have "a \<notin> set rs" using a(1) ih(4) by blast
    moreover have "filter (\<lambda>b. b \<notin> insert a (set rs)) as = filter (\<lambda>b. b \<notin> set rs) as"
      using a(1) by (intro filter_cong) auto
    ultimately show ?thesis
      using ih v rm True a unfolding w
      by (intro exI [of _ "(if keep then [] else [a]) @ rs"]) (auto simp: same active_core)
  qed
qed

section \<open>The outer loop\<close>

lemma match_buckets_walk:
  assumes rep: "book_rep L ob" and mono: "\<And>p q. better s p q \<Longrightarrow> cross q \<Longrightarrow> cross p"
    and "prices s = qs @ ps" and "mem_frame (ob_mem ob) (m_mem st)"
  shows "match_buckets clk key stp (side_buckets s ob) (Next s ob) cross (find (\<lambda>p. L s p \<noteq> []) ps) st =
    Some (walk clk key stp (concat (map (L s) (filter cross ps))) st)"
  using assms(3,4)
proof (induction ps arbitrary: qs st)
  case Nil
  then show ?case by (simp add: match_buckets.simps)
next
  case (Cons p ps)
  note S = side_repD [OF book_repD(1) [OF rep, of s]]
  show ?case
  proof (cases "L s p = []")
    case True
    then show ?thesis using Cons.IH [of "qs @ [p]" st] Cons.prems by simp
  next
    case False
    let ?run = "match_buckets clk key stp (side_buckets s ob) (Next s ob) cross"
    have eq: "?run (Some p) st =
      (if active st then
         if \<not> cross p then Some st
         else Option.bind (match_makers clk key stp (b_Head (side_buckets s ob p)) st) (?run (Next s ob p))
       else Some st)"
      using match_buckets.simps [of clk key stp "side_buckets s ob" "Next s ob" cross "Some p" st] S(2)
      by simp
    show ?thesis
    proof (cases "active st \<and> cross p")
      case True
      let ?st = "walk clk key stp (L s p) st"
      have "seg (ob_mem ob) None (b_Head (side_buckets s ob p)) (L s p) (b_Tail (side_buckets s ob p)) None"
        using S(1) [of p] by (simp add: dll_def)
      then have "seg (m_mem st) None (b_Head (side_buckets s ob p)) (L s p) (b_Tail (side_buckets s ob p)) None"
        by (rule seg_frame) (use Cons.prems(2) in \<open>simp add: mem_frame_def\<close>)
      then have "match_makers clk key stp (b_Head (side_buckets s ob p)) st = Some ?st"
        by (rule match_makers_walk)
      moreover have "mem_frame (ob_mem ob) (m_mem ?st)"
        using Cons.prems(2) walk_frame by (rule mem_frame_trans)
      then have "?run (find (\<lambda>p. L s p \<noteq> []) ps) ?st =
          Some (walk clk key stp (concat (map (L s) (filter cross ps))) ?st)"
        using Cons.IH [of "qs @ [p]" ?st] Cons.prems(1) by simp
      moreover have "Next s ob p = find (\<lambda>p. L s p \<noteq> []) ps"
        using Next_find [OF rep Cons.prems(1)] .
      ultimately show ?thesis using False eq True by simp
    next
      case stop: False
      then have one: "?run (Some p) st = Some st" using eq by auto
      show ?thesis
      proof (cases "active st")
        case True
        then have "\<not> cross p" using stop by simp
        moreover have "better s p q" if "q \<in> set ps" for q
          using prices_after(1) [OF Cons.prems(1)] that by simp
        ultimately have "filter cross (p # ps) = []"
          using mono by (auto simp: filter_empty_conv)
        then show ?thesis using False one by simp
      next
        case False
        then show ?thesis using one \<open>L s p \<noteq> []\<close> by (simp add: walk_inactive)
      qed
    qed
  qed
qed

text \<open>The resting orders a taker crosses.\<close>

definition crosses :: "Order \<Rightarrow> DirectOrder \<Rightarrow> bool" where
  "crosses o' d \<longleftrightarrow> (if IsBuy o' then d_Price d \<le> o_Price o' else o_Price o' \<le> d_Price d)"

definition cross_price :: "Order \<Rightarrow> int \<Rightarrow> bool" where
  "cross_price o' p \<longleftrightarrow> (if IsBuy o' then p \<le> o_Price o' else o_Price o' \<le> p)"

lemma cross_price_mono: "better (\<not> IsBuy o') p q \<Longrightarrow> cross_price o' q \<Longrightarrow> cross_price o' p"
  by (auto simp: better_def cross_price_def split: if_splits)

lemma crosses_cross_price: "crosses o' d = cross_price o' (d_Price d)"
  by (simp add: crosses_def cross_price_def)

lemma addrs_crossing:
  assumes "book_rep L ob"
  shows "concat (map (L s) (filter P (prices s))) = filter (\<lambda>a. P (d_Price (ob_data ob a))) (addrs L s)"
proof -
  have lev: "filter (\<lambda>a. P (d_Price (ob_data ob a))) (L s p) = (if P p then L s p else [])" for p
    using side_repD(5) [OF book_repD(1) [OF assms], of _ s p] by (auto simp: filter_empty_conv)
  have "concat (map (L s) (filter P ps)) = filter (\<lambda>a. P (d_Price (ob_data ob a))) (concat (map (L s) ps))" for ps
    by (induction ps) (simp_all add: lev)
  then show ?thesis by (simp add: addrs_def)
qed

text \<open>In priority order the crossing orders come first.\<close>

lemma sorted_filter_split:
  assumes "sorted_wrt (\<lambda>x y. P y \<longrightarrow> P x) xs"
  shows "xs = filter P xs @ filter (\<lambda>x. \<not> P x) xs"
  using assms
proof (induction xs)
  case (Cons x xs)
  show ?case
  proof (cases "P x")
    case True
    then show ?thesis using Cons by simp
  next
    case False
    then have "filter P xs = []" "filter (\<lambda>x. \<not> P x) xs = xs"
      using Cons.prems by (auto simp: filter_empty_conv filter_id_conv)
    then show ?thesis using False by simp
  qed
qed simp

lemma addrs_cross_split:
  assumes "book_rep L ob"
  shows "addrs L (\<not> IsBuy o') =
    filter (\<lambda>a. cross_price o' (d_Price (ob_data ob a))) (addrs L (\<not> IsBuy o')) @
    filter (\<lambda>a. \<not> cross_price o' (d_Price (ob_data ob a))) (addrs L (\<not> IsBuy o'))"
proof (rule sorted_filter_split)
  show "sorted_wrt (\<lambda>x y. cross_price o' (d_Price (ob_data ob y)) \<longrightarrow> cross_price o' (d_Price (ob_data ob x)))
      (addrs L (\<not> IsBuy o'))"
    using addrs_sorted [OF assms(1), of "\<not> IsBuy o'"]
    by (rule sorted_wrt_mono_rel [rotated]) (auto simp: better_def cross_price_def split: if_splits)
qed

lemma IsCross_iff:
  assumes "book_abs ob A"
  shows "IsCross o' ob \<longleftrightarrow> (\<exists>d\<in>set (A (\<not> IsBuy o')). crosses o' d)"
proof -
  obtain L where rep: "book_rep L ob" and A: "A = (\<lambda>s. map (ob_data ob) (addrs L s))"
    using assms by (auto simp: book_abs_def)
  let ?s = "\<not> IsBuy o'"
  note S = side_repD [OF book_repD(1) [OF rep, of ?s]]
  have ex: "(\<exists>d\<in>set (A ?s). crosses o' d) \<longleftrightarrow> (\<exists>p. L ?s p \<noteq> [] \<and> cross_price o' p)"
  proof
    assume "\<exists>d\<in>set (A ?s). crosses o' d"
    then obtain a p where "a \<in> set (L ?s p)" "cross_price o' (d_Price (ob_data ob a))"
      by (auto simp: A set_addrs [OF rep] crosses_cross_price)
    then show "\<exists>p. L ?s p \<noteq> [] \<and> cross_price o' p" using S(5) by (intro exI [of _ p]) auto
  next
    assume "\<exists>p. L ?s p \<noteq> [] \<and> cross_price o' p"
    then obtain p where p: "L ?s p \<noteq> []" "cross_price o' p" by blast
    then have "hd (L ?s p) \<in> set (L ?s p)" by simp
    then have "ob_data ob (hd (L ?s p)) \<in> set (A ?s)" and "crosses o' (ob_data ob (hd (L ?s p)))"
      using p(2) S(5) by (auto simp: A set_addrs [OF rep] crosses_cross_price)
    then show "\<exists>d\<in>set (A ?s). crosses o' d" by blast
  qed
  have best: "best_ok ?s (\<lambda>p. L ?s p \<noteq> []) (side_best ?s ob)" by (rule S(8))
  have rng: "1 \<le> p" "p < maxPrice" if "L ?s p \<noteq> []" for p
    using S(3) [of "hd (L ?s p)" p] S(4) [of "hd (L ?s p)" p] that by auto
  show ?thesis
    unfolding ex
  proof
    assume "IsCross o' ob"
    then show "\<exists>p. L ?s p \<noteq> [] \<and> cross_price o' p"
      using best by (intro exI [of _ "side_best ?s ob"])
        (auto simp: IsCross_def cross_price_def best_ok_def side_best_def best_ask_of_def best_bid_of_def split: if_splits)
  next
    assume "\<exists>p. L ?s p \<noteq> [] \<and> cross_price o' p"
    then obtain p where p: "L ?s p \<noteq> []" "cross_price o' p" by blast
    have "side_best ?s ob \<noteq> 0" and "\<not> better ?s p (side_best ?s ob)"
      using best p(1) rng [OF p(1)] by (auto simp: best_ok_def best_ask_of_def best_bid_of_def better_def split: if_splits)
    then show "IsCross o' ob"
      using p(2) by (auto simp: IsCross_def cross_price_def side_best_def better_def split: if_splits)
  qed
qed

section \<open>The match\<close>

definition core0 :: "Order \<Rightarrow> u64 \<Rightarrow> u64 \<Rightarrow> Core" where
  "core0 o' ls sq = \<lparr>k_order = o', k_trades = [], k_affected = [], k_localSeq = ls, k_sequence = sq, k_done = False\<rparr>"

text \<open>Matching on the specification's book: the crossing orders are matched, the others stay.\<close>

definition pt_match :: "(u64 \<Rightarrow> i64) \<Rightarrow> Order \<Rightarrow> ptbook \<Rightarrow> u64 \<Rightarrow> u64 \<Rightarrow> Core \<times> ptbook" where
  "pt_match clk o' A ls sq =
     (let s = (\<not> IsBuy o');
          (c, rest) = vmatch clk (BookKey o') (o_STPStrategy o') (filter (crosses o') (A s)) (core0 o' ls sq)
      in (c, A(s := rest @ filter (\<lambda>d. \<not> crosses o' d) (A s))))"

definition exec_abs :: "Exec \<Rightarrow> Core \<Rightarrow> ptbook \<Rightarrow> string \<Rightarrow> bool" where
  "exec_abs x c A key \<longleftrightarrow> x_order x = k_order c \<and> x_trades x = k_trades c \<and> x_affected x = k_affected c \<and>
     x_localSeq x = k_localSeq c \<and> x_sequence x = k_sequence c \<and> book_abs (x_book x) A \<and> ob_Key (x_book x) = key"

lemma match_run:
  assumes "book_rep L ob" and "IsCross o' ob"
    and st0_def: "st0 = \<lparr>m_order = o', m_mem = ob_mem ob, m_trades = [], m_affected = [], m_toRemove = [],
      m_localSeq = ls, m_sequence = sq, m_takerDone = False\<rparr>"
    and st_def: "st = walk clk (BookKey o') (o_STPStrategy o')
      (filter (\<lambda>a. cross_price o' (d_Price (ob_data ob a))) (addrs L (\<not> IsBuy o'))) st0"
  shows "match clk o' ob ls sq =
    (case RemoveAll (m_toRemove st) (ob\<lparr>ob_pool := (ob_pool ob)\<lparr>p_mem := m_mem st\<rparr>\<rparr>) of
       None \<Rightarrow> None
     | Some ob' \<Rightarrow> Some \<lparr>x_order = m_order st, x_book = ob', x_trades = m_trades st,
         x_affected = m_affected st, x_localSeq = m_localSeq st, x_sequence = m_sequence st\<rparr>)"
proof -
  let ?s = "\<not> IsBuy o'"
  have "match_buckets clk (BookKey o') (o_STPStrategy o') (side_buckets ?s ob) (Next ?s ob) (cross_price o')
      (First ?s ob) st0 = Some st"
    unfolding First_find [OF assms(1)] st_def addrs_crossing [OF assms(1), symmetric]
    by (rule match_buckets_walk [OF assms(1) cross_price_mono, where qs = "[]"]) (simp_all add: st0_def)
  then show ?thesis
    using assms(2) unfolding match_def st0_def
    by (cases "IsBuy o'") (simp_all add: side_buckets_def Next_def First_def cross_price_def [abs_def] Let_def)
qed

lemma match_refines:
  assumes abs: "book_abs ob A" and key: "ob_Key ob = key" and pm: "pt_match clk o' A ls sq = (c, A')"
  shows "\<exists>x. match clk o' ob ls sq = Some x \<and> exec_abs x c A' key"
proof (cases "IsCross o' ob")
  case False
  then have "filter (crosses o') (A (\<not> IsBuy o')) = []" "filter (\<lambda>d. \<not> crosses o' d) (A (\<not> IsBuy o')) = A (\<not> IsBuy o')"
    using IsCross_iff [OF abs] by (auto simp: filter_empty_conv filter_id_conv)
  then have "c = core0 o' ls sq" "A' = A" using pm by (auto simp: pt_match_def)
  then show ?thesis
    using False abs key by (simp add: match_def noExec_def exec_abs_def core0_def)
next
  case True
  obtain L where rep: "book_rep L ob" and A: "A = (\<lambda>s. map (ob_data ob) (addrs L s))"
    using abs by (auto simp: book_abs_def)
  let ?s = "\<not> IsBuy o'"
  define as where "as = filter (\<lambda>a. cross_price o' (d_Price (ob_data ob a))) (addrs L ?s)"
  define bs where "bs = filter (\<lambda>a. \<not> cross_price o' (d_Price (ob_data ob a))) (addrs L ?s)"
  define st0 where "st0 = \<lparr>m_order = o', m_mem = ob_mem ob, m_trades = [], m_affected = [], m_toRemove = [],
      m_localSeq = ls, m_sequence = sq, m_takerDone = False\<rparr>"
  define st where "st = walk clk (BookKey o') (o_STPStrategy o') as st0"
  have split: "addrs L ?s = as @ bs" unfolding as_def bs_def by (rule addrs_cross_split [OF rep])
  have dist: "distinct (as @ bs)" using distinct_addrs [OF rep, of ?s] split by simp
  obtain rs where vm: "vmatch clk (BookKey o') (o_STPStrategy o') (map (\<lambda>a. n_data (m_mem st0 a)) as) (core st0) =
      (core st, map (\<lambda>a. n_data (m_mem st a)) (filter (\<lambda>a. a \<notin> set rs) as))"
    and rm: "m_toRemove st = m_toRemove st0 @ rs" "distinct rs" "set rs \<subseteq> set as"
    using walk_vmatch [of as clk "BookKey o'" "o_STPStrategy o'" st0] dist unfolding st_def by auto
  have fr: "mem_frame (ob_mem ob) (m_mem st)"
    using walk_frame [of st0] by (simp add: st_def st0_def)
  define ob1 where "ob1 = ob\<lparr>ob_pool := (ob_pool ob)\<lparr>p_mem := m_mem st\<rparr>\<rparr>"
  have rep1: "book_rep L ob1"
    unfolding ob1_def by (rule book_rep_data [OF rep])
      (use fr in \<open>simp_all add: mem_frame_def same_maker_def d_IsBuy_def\<close>)
  have lv: "set (addrs L t) \<subseteq> live L" for t by (cases t) (auto simp: live_addrs [OF rep])
  have "set rs \<subseteq> live L" using rm(3) lv [of ?s] split by auto
  then obtain ob' L' where ra: "RemoveAll rs ob1 = Some ob'" "ob_Key ob' = ob_Key ob1" "book_rep L' ob'"
    and ad: "\<And>t. addrs L' t = filter (\<lambda>b. b \<notin> set rs) (addrs L t)"
    and da: "\<And>b. b \<notin> set rs \<Longrightarrow> ob_data ob' b = ob_data ob1 b"
    using RemoveAll_rep [OF rep1 rm(2)] by metis
  define x where "x = \<lparr>x_order = m_order st, x_book = ob', x_trades = m_trades st,
      x_affected = m_affected st, x_localSeq = m_localSeq st, x_sequence = m_sequence st\<rparr>"
  have mx: "match clk o' ob ls sq = Some x"
    using match_run [OF rep True st0_def st_def [unfolded as_def]] ra(1) rm(1)
    by (simp add: x_def ob1_def st0_def)
  have mem1: "ob_data ob1 a = n_data (m_mem st a)" for a by (simp add: ob1_def)
  have same: "n_data (m_mem st a) = ob_data ob a" if "a \<notin> set as" for a
    using walk_other [OF that, of clk "BookKey o'" "o_STPStrategy o'" st0] by (simp add: st_def st0_def)
  have "filter (crosses o') (A ?s) = map (\<lambda>a. n_data (m_mem st0 a)) as"
    and nc: "filter (\<lambda>d. \<not> crosses o' d) (A ?s) = map (ob_data ob) bs"
    by (simp_all add: A as_def bs_def st0_def filter_map comp_def crosses_cross_price)
  moreover have "core st0 = core0 o' ls sq" by (simp add: core_def core0_def st0_def)
  ultimately have c: "c = core st"
    and A': "A' = A(?s := map (\<lambda>a. n_data (m_mem st a)) (filter (\<lambda>a. a \<notin> set rs) as) @ map (ob_data ob) bs)"
    using pm vm by (auto simp: pt_match_def Let_def)
  have "map (ob_data ob') (addrs L' t) = A' t" for t
  proof (cases "t = ?s")
    case True
    have "filter (\<lambda>b. b \<notin> set rs) bs = bs"
      using rm(3) dist by (auto simp: filter_id_conv)
    then have "addrs L' t = filter (\<lambda>b. b \<notin> set rs) as @ bs" by (simp add: ad True split)
    moreover have "map (ob_data ob') (filter (\<lambda>b. b \<notin> set rs) as) = map (\<lambda>a. n_data (m_mem st a)) (filter (\<lambda>b. b \<notin> set rs) as)"
      using da by (simp add: mem1)
    moreover have "ob_data ob' b = ob_data ob b" if "b \<in> set bs" for b
    proof -
      have "b \<notin> set as" using that dist by auto
      then show ?thesis using da [of b] same rm(3) by (auto simp: mem1)
    qed
    then have "map (ob_data ob') bs = map (ob_data ob) bs" by simp
    ultimately show ?thesis using True by (simp add: A')
  next
    case False
    have nin: "a \<notin> set as" if "a \<in> set (addrs L t)" for a
      using addrs_disjoint [OF rep that, of ?s] False split by auto
    then have "addrs L' t = addrs L t" using rm(3) by (auto simp: ad filter_id_conv)
    moreover have "ob_data ob' a = ob_data ob a" if "a \<in> set (addrs L t)" for a
      using da [of a] same [OF nin [OF that]] nin [OF that] rm(3) by (auto simp: mem1)
    ultimately show ?thesis using False by (simp add: A' A)
  qed
  then have "A' = (\<lambda>t. map (ob_data ob') (addrs L' t))" by (simp add: fun_eq_iff)
  then have "book_abs ob' A'" using ra(3) unfolding book_abs_def by blast
  then show ?thesis
    using mx ra(2) key by (auto simp: exec_abs_def c core_def x_def ob1_def)
qed

section \<open>The simulation of fill or kill\<close>

lemma fok_makers_walk:
  "seg h p i xs l None \<Longrightarrow> fok_makers o' h i r = Some (vfok o' (map (\<lambda>a. n_data (h a)) xs) r)"
proof (induction xs arbitrary: p i r)
  case Nil
  then show ?case by (simp add: fok_makers.simps)
next
  case (Cons a xs)
  then have i: "i = Some a" and s: "seg h (Some a) (n_next (h a)) xs l None" by auto
  show ?case
    using Cons.IH [OF s] fok_makers.simps [of o' h i r] by (simp add: i Let_def)
qed

lemma vfok_append:
  "vfok o' (xs @ ys) r = (case vfok o' xs r of (stop, r') \<Rightarrow> if stop then (True, r') else vfok o' ys r')"
  by (induction xs arbitrary: r) (simp_all add: vfok_inactive Let_def)

lemma fok_buckets_walk:
  assumes rep: "book_rep L ob" and mono: "\<And>p q. better s p q \<Longrightarrow> cross q \<Longrightarrow> cross p"
    and "prices s = qs @ ps"
  shows "fok_buckets o' (ob_mem ob) (side_buckets s ob) (Next s ob) cross (find (\<lambda>p. L s p \<noteq> []) ps) r =
    Some (vfok o' (map (ob_data ob) (concat (map (L s) (filter cross ps)))) r)"
  using assms(3)
proof (induction ps arbitrary: qs r)
  case Nil
  then show ?case by (simp add: fok_buckets.simps)
next
  case (Cons p ps)
  note S = side_repD [OF book_repD(1) [OF rep, of s]]
  show ?case
  proof (cases "L s p = []")
    case True
    then show ?thesis using Cons.IH [of "qs @ [p]" r] Cons.prems by simp
  next
    case False
    let ?run = "fok_buckets o' (ob_mem ob) (side_buckets s ob) (Next s ob) cross"
    have "seg (ob_mem ob) None (b_Head (side_buckets s ob p)) (L s p) (b_Tail (side_buckets s ob p)) None"
      using S(1) [of p] by (simp add: dll_def)
    from fok_makers_walk [OF this] have m:
      "fok_makers o' (ob_mem ob) (b_Head (side_buckets s ob p)) r = Some (vfok o' (map (ob_data ob) (L s p)) r)" .
    have eq: "?run (Some p) r =
      (if 0 < r then
         if \<not> cross p then Some (False, r)
         else (case vfok o' (map (ob_data ob) (L s p)) r of
                 (stop, r') \<Rightarrow> if stop then Some (True, r') else ?run (Next s ob p) r')
       else Some (False, r))"
      using fok_buckets.simps [of o' "ob_mem ob" "side_buckets s ob" "Next s ob" cross "Some p" r] S(2) m
      by (simp add: split_def)
    have nx: "Next s ob p = find (\<lambda>p. L s p \<noteq> []) ps" using Next_find [OF rep Cons.prems] .
    have ih: "?run (find (\<lambda>p. L s p \<noteq> []) ps) r' =
        Some (vfok o' (map (ob_data ob) (concat (map (L s) (filter cross ps)))) r')" for r'
      using Cons.IH [of "qs @ [p]" r'] Cons.prems by simp
    show ?thesis
    proof (cases "0 < r \<and> cross p")
      case True
      then show ?thesis
        using False eq ih by (auto simp: nx vfok_append split: prod.splits)
    next
      case stop: False
      then have one: "?run (Some p) r = Some (False, r)" using eq by auto
      show ?thesis
      proof (cases "0 < r")
        case True
        have "better s p q" if "q \<in> set ps" for q
          using prices_after(1) [OF Cons.prems] that by simp
        then have "filter cross (p # ps) = []"
          using True stop mono by (auto simp: filter_empty_conv)
        then show ?thesis using False one by simp
      next
        case False
        then show ?thesis using one \<open>L s p \<noteq> []\<close> by (simp add: vfok_inactive)
      qed
    qed
  qed
qed

lemma fokCanFill_refines:
  assumes "book_abs ob A"
  shows "fokCanFill o' ob =
    Some (vfok o' (filter (crosses o') (A (\<not> IsBuy o'))) (RemainingQuantity o') = (False, 0))"
proof -
  obtain L where rep: "book_rep L ob" and A: "A = (\<lambda>s. map (ob_data ob) (addrs L s))"
    using assms by (auto simp: book_abs_def)
  let ?s = "\<not> IsBuy o'"
  have "fok_buckets o' (ob_mem ob) (side_buckets ?s ob) (Next ?s ob) (cross_price o') (First ?s ob)
      (RemainingQuantity o') = Some (vfok o' (filter (crosses o') (A ?s)) (RemainingQuantity o'))"
  proof -
    have "fok_buckets o' (ob_mem ob) (side_buckets ?s ob) (Next ?s ob) (cross_price o')
        (find (\<lambda>p. L ?s p \<noteq> []) (prices ?s)) (RemainingQuantity o') =
      Some (vfok o' (map (ob_data ob) (concat (map (L ?s) (filter (cross_price o') (prices ?s))))) (RemainingQuantity o'))"
      by (rule fok_buckets_walk [OF rep cross_price_mono, where qs = "[]"]) simp_all
    then show ?thesis
      unfolding First_find [OF rep] addrs_crossing [OF rep]
      by (simp add: A filter_map comp_def crosses_cross_price)
  qed
  then show ?thesis
    unfolding fokCanFill_def
    by (cases "IsBuy o'"; cases "vfok o' (filter (crosses o') (A ?s)) (RemainingQuantity o')")
       (auto simp: side_buckets_def Next_def First_def cross_price_def [abs_def] Let_def)
qed

end
