(* ===== verification/Match_Place.thy ===== *)
theory Match_Place
  imports Match_Refine
begin

text \<open>
  The specification of the engine: a book in price-time priority for every book key, and what
  placing, restoring, cancelling and amending do to it. \<open>engine_abs e B\<close> relates the
  engine to such books; the refinement lemmas show that every operation of
  \<open>matching/engine/engine.go\<close> returns and implements its specification.
\<close>

section \<open>Facts about related books\<close>

lemma book_abs_New: "book_abs (NewOrderBookDirect key) pt_empty"
  unfolding book_abs_def
  by (intro exI [of _ "\<lambda>_ _. []"]) (simp add: book_rep_New pt_empty_def addrs_def fun_eq_iff)

lemma book_abs_index:
  assumes "book_abs ob A"
  shows "HasOrder ob k \<longleftrightarrow> k \<in> pt_ids A"
    and "GetDirectOrder ob k = Some a \<Longrightarrow> \<exists>s. ob_data ob a \<in> set (A s) \<and> d_OrderID (ob_data ob a) = k"
    and "GetDirectOrder ob k = None \<longleftrightarrow> k \<notin> pt_ids A"
proof -
  obtain L where rep: "book_rep L ob" and A: "A = (\<lambda>s. map (ob_data ob) (addrs L s))"
    using assms by (auto simp: book_abs_def)
  note I = index_repD [OF book_repD(2) [OF rep]]
  have ids: "pt_ids A = (\<lambda>a. d_OrderID (ob_data ob a)) ` live L"
    by (simp add: pt_ids_def A live_addrs [OF rep] image_image image_Un)
  have "map_of (orderIndex ob) k \<noteq> None \<longleftrightarrow> k \<in> pt_ids A"
  proof
    assume "map_of (orderIndex ob) k \<noteq> None"
    then obtain a where a: "map_of (orderIndex ob) k = Some a" by blast
    show "k \<in> pt_ids A" unfolding ids using I(2) [OF a] I(3) [OF a] by blast
  next
    assume "k \<in> pt_ids A"
    then obtain a where "a \<in> live L" "k = d_OrderID (ob_data ob a)" by (auto simp: ids)
    then show "map_of (orderIndex ob) k \<noteq> None" using I(1) by simp
  qed
  then show "HasOrder ob k \<longleftrightarrow> k \<in> pt_ids A" and "GetDirectOrder ob k = None \<longleftrightarrow> k \<notin> pt_ids A"
    by (simp_all only: HasOrder_def GetDirectOrder_def) blast
  assume "GetDirectOrder ob k = Some a"
  then have "a \<in> live L" "d_OrderID (ob_data ob a) = k"
    using I(2,3) by (auto simp: GetDirectOrder_def)
  then show "\<exists>s. ob_data ob a \<in> set (A s) \<and> d_OrderID (ob_data ob a) = k"
    by (auto simp: A live_addrs [OF rep])
qed

text \<open>The shape every related book has: priority order, sides, and one order per identifier.\<close>

definition pt_shape :: "ptbook \<Rightarrow> bool" where
  "pt_shape A \<longleftrightarrow>
     (\<forall>s. sorted_wrt (\<lambda>x y. \<not> better s (d_Price y) (d_Price x)) (A s) \<and>
          (\<forall>d\<in>set (A s). d_IsBuy d = s \<and> 1 \<le> d_Price d \<and> d_Price d < maxPrice)) \<and>
     distinct (map d_OrderID (A True @ A False))"

lemma book_abs_shape:
  assumes "book_abs ob A"
  shows "pt_shape A"
proof -
  obtain L where rep: "book_rep L ob" and A: "A = (\<lambda>s. map (ob_data ob) (addrs L s))"
    using assms by (auto simp: book_abs_def)
  note I = index_repD [OF book_repD(2) [OF rep]] and S = side_repD [OF book_repD(1) [OF rep]]
  have "inj_on (\<lambda>a. d_OrderID (ob_data ob a)) (live L)"
    using I(1) by (intro inj_onI) (metis option.inject)
  moreover have "distinct (addrs L True @ addrs L False)"
    using distinct_addrs [OF rep] addrs_disjoint [OF rep, of _ True False] by auto
  ultimately have "distinct (map (\<lambda>a. d_OrderID (ob_data ob a)) (addrs L True @ addrs L False))"
    by (simp add: distinct_map live_addrs [OF rep] del: map_append)
  then have "distinct (map d_OrderID (A True @ A False))" by (simp add: A comp_def)
  moreover have "sorted_wrt (\<lambda>x y. \<not> better s (d_Price y) (d_Price x)) (A s)" for s
    using addrs_sorted [OF rep, of s] by (simp add: A sorted_wrt_map)
  moreover have "d_IsBuy d = s \<and> 1 \<le> d_Price d \<and> d_Price d < maxPrice" if "d \<in> set (A s)" for d s
    using that S(3-6) by (auto simp: A set_addrs [OF rep])
  ultimately show ?thesis by (simp add: pt_shape_def)
qed

lemma pt_shape_distinct: "pt_shape A \<Longrightarrow> distinct (map d_OrderID (filter P (A s)))"
  by (cases s) (auto simp: pt_shape_def distinct_map_filter)

section \<open>One order on one book\<close>

definition pt_process :: "(u64 \<Rightarrow> i64) \<Rightarrow> Order \<Rightarrow> ptbook \<Rightarrow> u64 \<Rightarrow> u64 \<Rightarrow> Core \<times> ptbook" where
  "pt_process clk o' A ls sq =
     (let ds = filter (crosses o') (A (\<not> IsBuy o')) in
      if o_TimeInForce o' = TimeInForcePostOnly then
        if ds \<noteq> [] then (core0 (Cancel CancelReasonPostOnlyCross o') ls sq, A)
        else (core0 (o'\<lparr>o_Status := OrderStatusNew\<rparr>) ls sq, pt_add o' A)
      else if o_TimeInForce o' = TimeInForceFOK then
        if ds = [] \<or> vfok o' ds (RemainingQuantity o') \<noteq> (False, 0)
        then (core0 (Cancel CancelReasonFOKNotFilled o') ls sq, A)
        else pt_match clk o' A ls sq
      else
        let (c, A1) = pt_match clk o' A ls sq; o1 = k_order c in
        if RemainingQuantity o1 = 0 \<or> o_Status o1 = OrderStatusCancelled then (c, A1)
        else if o_TimeInForce o1 = TimeInForceIOC then
          (c\<lparr>k_order := Cancel (if k_trades c = [] then CancelReasonIOCNoLiquidity else CancelReasonIOCPartialFill) o1\<rparr>, A1)
        else
          (c\<lparr>k_order := o1\<lparr>o_Status := (if 0 < o_FilledQuantity o1 then OrderStatusPartiallyFilled else OrderStatusNew)\<rparr>\<rparr>,
           pt_add o1 A1))"

lemma IsCross_filter: "book_abs ob A \<Longrightarrow> IsCross o' ob \<longleftrightarrow> filter (crosses o') (A (\<not> IsBuy o')) \<noteq> []"
  by (auto simp: IsCross_iff filter_empty_conv)

lemma vmatch_ids:
  assumes "vmatch clk key stp ds c = (c', rest)"
  shows "d_OrderID ` set rest \<subseteq> d_OrderID ` set ds" and "o_OrderID (k_order c') = o_OrderID (k_order c)"
    and "o_Price (k_order c') = o_Price (k_order c)" and "o_Side (k_order c') = o_Side (k_order c)"
proof -
  have "d_OrderID ` set rest \<subseteq> d_OrderID ` set ds \<and> o_OrderID (k_order c') = o_OrderID (k_order c) \<and>
      o_Price (k_order c') = o_Price (k_order c) \<and> o_Side (k_order c') = o_Side (k_order c)"
    using assms
  proof (induction ds arbitrary: c rest)
    case (Cons d ds)
    show ?case
    proof (cases "k_active c")
      case True
      obtain c1 d1 keep where v: "vmaker clk key stp d c = (c1, d1, keep)" by (metis prod_cases3)
      obtain c2 rs where m: "vmatch clk key stp ds c1 = (c2, rs)" by fastforce
      have "d_OrderID d1 = d_OrderID d" "o_OrderID (k_order c1) = o_OrderID (k_order c)"
        "o_Price (k_order c1) = o_Price (k_order c)" "o_Side (k_order c1) = o_Side (k_order c)"
        using v by (auto simp: vmaker_def Let_def order_simps split: if_splits)
      moreover have "c' = c2" "rest = (if keep then d1 # rs else rs)"
        using Cons.prems True v m by auto
      ultimately show ?thesis using Cons.IH [of c1 rs] m by auto
    qed (use Cons.prems in auto)
  qed auto
  then show "d_OrderID ` set rest \<subseteq> d_OrderID ` set ds" and "o_OrderID (k_order c') = o_OrderID (k_order c)"
    and "o_Price (k_order c') = o_Price (k_order c)" and "o_Side (k_order c') = o_Side (k_order c)"
    by auto
qed

lemma pt_match_ids:
  assumes "pt_match clk o' A ls sq = (c, A1)"
  shows "pt_ids A1 \<subseteq> pt_ids A" and "o_OrderID (k_order c) = o_OrderID o'" and "o_Price (k_order c) = o_Price o'"
    and "o_Side (k_order c) = o_Side o'"
proof -
  let ?s = "\<not> IsBuy o'"
  obtain rest where v: "vmatch clk (BookKey o') (o_STPStrategy o') (filter (crosses o') (A ?s)) (core0 o' ls sq) = (c, rest)"
    and A1: "A1 = A(?s := rest @ filter (\<lambda>d. \<not> crosses o' d) (A ?s))"
    using assms by (auto simp: pt_match_def Let_def split: prod.splits)
  note ids = vmatch_ids [OF v]
  show "o_OrderID (k_order c) = o_OrderID o'" "o_Price (k_order c) = o_Price o'" "o_Side (k_order c) = o_Side o'"
    using ids(2-4) by (simp_all add: core0_def)
  have "d_OrderID ` set (A1 ?s) \<subseteq> d_OrderID ` set (A ?s)" using ids(1) by (auto simp: A1)
  then show "pt_ids A1 \<subseteq> pt_ids A" by (cases "IsBuy o'") (auto simp: pt_ids_def A1)
qed

lemma processLimitOrder_refines:
  assumes abs: "book_abs ob A" and key: "ob_Key ob = key" and price: "1 \<le> o_Price o'" "o_Price o' < maxPrice"
    and new: "o_OrderID o' \<notin> pt_ids A" and pp: "pt_process clk o' A ls sq = (c, A')"
  shows "\<exists>x. processLimitOrder clk o' ob ls sq = Some x \<and> exec_abs x c A' key"
proof -
  have noHas: "\<not> HasOrder ob (o_OrderID o')" using new book_abs_index(1) [OF abs] by simp
  consider (post) "o_TimeInForce o' = TimeInForcePostOnly" | (fok) "o_TimeInForce o' = TimeInForceFOK"
    | (gtc) "o_TimeInForce o' \<noteq> TimeInForcePostOnly" "o_TimeInForce o' \<noteq> TimeInForceFOK" by blast
  then show ?thesis
  proof cases
    case post
    obtain ob' where "AddOrder o' ob = Some ob'" "ob_Key ob' = ob_Key ob" "book_abs ob' (pt_add o' A)"
      using AddOrder_abs [OF abs price noHas] by blast
    then show ?thesis
      using post pp abs key IsCross_filter [OF abs, of o']
      by (auto simp: processLimitOrder_def processPostOnly_def pt_process_def Let_def noExec_def exec_abs_def core0_def
          split: if_splits)
  next
    case fok
    obtain c1 A1 where pm: "pt_match clk o' A ls sq = (c1, A1)" by fastforce
    show ?thesis
      using match_refines [OF abs key pm] fok pp abs key IsCross_filter [OF abs, of o'] pm fokCanFill_refines [OF abs, of o']
      by (auto simp: processLimitOrder_def processFOK_def pt_process_def Let_def noExec_def exec_abs_def core0_def
          split: if_splits)
  next
    case gtc
    obtain c1 A1 where pm: "pt_match clk o' A ls sq = (c1, A1)" by fastforce
    obtain x where m: "match clk o' ob ls sq = Some x" and ex: "exec_abs x c1 A1 key"
      using match_refines [OF abs key pm] by blast
    have ids: "o_OrderID (k_order c1) \<notin> pt_ids A1" using pt_match_ids [OF pm] new by auto
    have "\<not> HasOrder (x_book x) (o_OrderID (k_order c1))"
      using ids book_abs_index(1) [of "x_book x" A1] ex by (simp add: exec_abs_def)
    then obtain ob' where "AddOrder (k_order c1) (x_book x) = Some ob'" "ob_Key ob' = ob_Key (x_book x)"
      "book_abs ob' (pt_add (k_order c1) A1)"
      using AddOrder_abs [of "x_book x" A1 "k_order c1"] ex price pt_match_ids(3) [OF pm] by (auto simp: exec_abs_def)
    then show ?thesis
      using gtc pp ex m by (auto simp: processLimitOrder_def processGTCOrIOC_def pt_process_def pm Let_def exec_abs_def
          split: if_splits)
  qed
qed

section \<open>The engine\<close>

type_synonym ptbooks = "string \<Rightarrow> ptbook"

definition engine_abs :: "Engine \<Rightarrow> ptbooks \<Rightarrow> bool" where
  "engine_abs e B \<longleftrightarrow> distinct (map fst (books e)) \<and>
     (\<forall>k. case map_of (books e) k of
            None \<Rightarrow> B k = pt_empty
          | Some ob \<Rightarrow> book_abs ob (B k) \<and> ob_Key ob = k)"

definition pt_place :: "(u64 \<Rightarrow> i64) \<Rightarrow> Order \<Rightarrow> ptbooks \<Rightarrow> u64 \<Rightarrow> u64 \<Rightarrow> Core \<times> engine_error option \<times> ptbooks" where
  "pt_place clk o' B ls sq =
     (case Validate o' of
        Some err \<Rightarrow> (core0 (Reject CancelReasonValidationFailed o') ls sq, Some (InvalidOrder err), B)
      | None \<Rightarrow>
          let o1 = (if o_Status o' = '''' then o'\<lparr>o_Status := OrderStatusNew\<rparr> else o'); k = BookKey o1 in
          if o_OrderID o1 \<in> pt_ids (B k)
          then (core0 (Reject CancelReasonValidationFailed o1) ls sq, Some (DuplicateOrderID (o_OrderID o1)), B)
          else if o_Type o1 = OrderTypeLimit
          then let (c, A) = pt_process clk o1 (B k) ls sq in (c, None, B(k := A))
          else (core0 (Reject CancelReasonValidationFailed o1) ls sq, Some (UnsupportedOrderType (o_Type o1)), B))"

lemma engine_abs_New: "engine_abs New (\<lambda>_. pt_empty)"
  by (simp add: engine_abs_def New_def)

lemma engine_absD:
  assumes "engine_abs e B"
  shows "distinct (map fst (books e))" and "map_of (books e) k = None \<Longrightarrow> B k = pt_empty"
    and "map_of (books e) k = Some ob \<Longrightarrow> book_abs ob (B k)" and "map_of (books e) k = Some ob \<Longrightarrow> ob_Key ob = k"
  using assms by (auto simp: engine_abs_def dest: spec [of _ k])

lemma engine_abs_update:
  assumes "engine_abs e B" and "book_abs ob A" and "ob_Key ob = k"
  shows "engine_abs (e\<lparr>books := AList.update k ob (books e), e_localSeq := ls, e_sequence := sq\<rparr>) (B(k := A))"
  using assms by (auto simp: engine_abs_def distinct_update update_conv' cong: option.case_cong)

lemma engine_abs_update_books:
  assumes "engine_abs e B" and "book_abs ob A" and "ob_Key ob = k"
  shows "engine_abs (e\<lparr>books := AList.update k ob (books e)\<rparr>) (B(k := A))"
  using assms by (auto simp: engine_abs_def distinct_update update_conv' cong: option.case_cong)

lemma getOrCreateBook_abs:
  assumes "engine_abs e B" and "getOrCreateBook k e = (ob, e1)"
  shows "book_abs ob (B k)" and "ob_Key ob = k" and "engine_abs e1 B" and "e_localSeq e1 = e_localSeq e"
    and "e_sequence e1 = e_sequence e"
proof -
  have "book_abs ob (B k) \<and> ob_Key ob = k \<and> engine_abs e1 B \<and> e_localSeq e1 = e_localSeq e \<and> e_sequence e1 = e_sequence e"
  proof (cases "map_of (books e) k")
    case None
    then have ob: "ob = NewOrderBookDirect k" "e1 = e\<lparr>books := AList.update k ob (books e)\<rparr>"
      using assms(2) by (auto simp: getOrCreateBook_def Let_def)
    have Bk: "B k = pt_empty" using engine_absD(2) [OF assms(1) None] .
    have b: "book_abs ob (B k)" "ob_Key ob = k" using book_abs_New [of k] by (simp_all add: ob Bk NewOrderBookDirect_def)
    moreover have "engine_abs e1 B"
      using engine_abs_update_books [OF assms(1) b] unfolding ob(2) fun_upd_triv .
    ultimately show ?thesis by (simp add: ob(2))
  next
    case (Some ob')
    then have "ob = ob'" "e1 = e" using assms(2) by (auto simp: getOrCreateBook_def)
    then show ?thesis using engine_absD(3,4) [OF assms(1) Some] assms(1) by simp
  qed
  then show "book_abs ob (B k)" and "ob_Key ob = k" and "engine_abs e1 B" and "e_localSeq e1 = e_localSeq e"
    and "e_sequence e1 = e_sequence e" by auto
qed

definition result_abs :: "Result \<Rightarrow> Engine \<Rightarrow> Core \<Rightarrow> bool" where
  "result_abs r e c \<longleftrightarrow> r_Order r = Some (k_order c) \<and> r_Trades r = k_trades c \<and> r_Affected r = k_affected c \<and>
     e_localSeq e = k_localSeq c \<and> e_sequence e = k_sequence c"

text \<open>Placing an order returns and does what the specification says.\<close>

lemma place_refines:
  assumes abs: "engine_abs e B" and pp: "pt_place clk o' B (e_localSeq e) (e_sequence e) = (c, err, B')"
  shows "\<exists>r e'. PlaceOrder clk (Some o') e = Some (r, err, e') \<and> result_abs r e' c \<and> engine_abs e' B'"
proof (cases "Validate o'")
  case (Some er)
  then show ?thesis
    using pp abs by (auto simp: PlaceOrder_def pt_place_def zeroResult_def result_abs_def core0_def)
next
  case None
  define o1 where "o1 = (if o_Status o' = '''' then o'\<lparr>o_Status := OrderStatusNew\<rparr> else o')"
  obtain ob e1 where g: "getOrCreateBook (BookKey o1) e = (ob, e1)" by fastforce
  note G = getOrCreateBook_abs [OF abs g]
  have has: "HasOrder ob (o_OrderID o1) \<longleftrightarrow> o_OrderID o1 \<in> pt_ids (B (BookKey o1))"
    by (rule book_abs_index(1) [OF G(1)])
  have pl: "PlaceOrder clk (Some o') e =
    (if HasOrder ob (o_OrderID o1) then
        Some (zeroResult (Some (Reject CancelReasonValidationFailed o1)), Some (DuplicateOrderID (o_OrderID o1)), e1)
     else if o_Type o1 = OrderTypeLimit then
        (case processLimitOrder clk o1 ob (e_localSeq e1) (e_sequence e1) of
           None \<Rightarrow> None
         | Some x \<Rightarrow>
             Some (\<lparr>r_Order = Some (x_order x), r_Affected = x_affected x, r_Trades = x_trades x,
                    r_Book = Snapshot 5 (x_book x)\<rparr>, None,
                   e1\<lparr>books := AList.update (BookKey o1) (x_book x) (books e1), e_localSeq := x_localSeq x,
                      e_sequence := x_sequence x\<rparr>))
     else Some (zeroResult (Some (Reject CancelReasonValidationFailed o1)), Some (UnsupportedOrderType (o_Type o1)), e1))"
    using None g by (simp add: PlaceOrder_def Let_def flip: o1_def)
  have ps: "(c, err, B') =
    (if o_OrderID o1 \<in> pt_ids (B (BookKey o1))
     then (core0 (Reject CancelReasonValidationFailed o1) (e_localSeq e) (e_sequence e), Some (DuplicateOrderID (o_OrderID o1)), B)
     else if o_Type o1 = OrderTypeLimit
     then let (c, A) = pt_process clk o1 (B (BookKey o1)) (e_localSeq e) (e_sequence e) in (c, None, B(BookKey o1 := A))
     else (core0 (Reject CancelReasonValidationFailed o1) (e_localSeq e) (e_sequence e), Some (UnsupportedOrderType (o_Type o1)), B))"
    using None pp by (simp add: pt_place_def Let_def flip: o1_def)
  show ?thesis
  proof (cases "HasOrder ob (o_OrderID o1) \<or> o_Type o1 \<noteq> OrderTypeLimit")
    case True
    then show ?thesis
      using pl ps has G(3-5) by (auto simp: zeroResult_def result_abs_def core0_def)
  next
    case False
    have price: "1 \<le> o_Price o1" "o_Price o1 < maxPrice"
      using None by (auto simp: Validate_def o1_def split: if_splits)
    obtain c1 A where pr: "pt_process clk o1 (B (BookKey o1)) (e_localSeq e) (e_sequence e) = (c1, A)" by fastforce
    then have c: "c = c1" "err = None" "B' = B(BookKey o1 := A)" using ps False has by auto
    have "o_OrderID o1 \<notin> pt_ids (B (BookKey o1))" using False has by simp
    then obtain x where x: "processLimitOrder clk o1 ob (e_localSeq e) (e_sequence e) = Some x"
      and ex: "exec_abs x c A (BookKey o1)"
      using processLimitOrder_refines [OF G(1,2) price _ pr] c(1) by blast
    have "engine_abs (e1\<lparr>books := AList.update (BookKey o1) (x_book x) (books e1), e_localSeq := x_localSeq x,
        e_sequence := x_sequence x\<rparr>) B'"
      unfolding c(3) using ex by (intro engine_abs_update [OF G(3)]) (auto simp: exec_abs_def)
    then show ?thesis
      using pl False x ex by (auto simp: G(4,5) result_abs_def exec_abs_def c(2))
  qed
qed

section \<open>Restoring, cancelling and amending\<close>

lemma restore_refines:
  assumes abs: "engine_abs e B" and ok: "Validate o' = None" and pos: "0 < RemainingQuantity o'"
    and new: "o_OrderID o' \<notin> pt_ids (B (BookKey o'))"
  shows "\<exists>e' o1. RestoreOrder (Some o') e = Some (None, e') \<and> same_order o' o1 \<and>
      o_FilledQuantity o1 = o_FilledQuantity o' \<and>
      engine_abs e' (B(BookKey o' := pt_add o1 (B (BookKey o'))))"
proof -
  obtain ob e1 where g: "getOrCreateBook (BookKey o') e = (ob, e1)" by fastforce
  note G = getOrCreateBook_abs [OF abs g]
  define o1 where "o1 = (if o_Status o' = '''' then
      (if 0 < o_FilledQuantity o' then o'\<lparr>o_Status := OrderStatusPartiallyFilled\<rparr>
       else o'\<lparr>o_Status := OrderStatusNew\<rparr>) else o')"
  have o1: "same_order o' o1" "o_FilledQuantity o1 = o_FilledQuantity o'" by (simp_all add: o1_def same_order_def)
  have price: "1 \<le> o_Price o1" "o_Price o1 < maxPrice"
    using ok by (auto simp: Validate_def o1_def split: if_splits)
  have nh: "\<not> HasOrder ob (o_OrderID o1)"
    using new o1(1) book_abs_index(1) [OF G(1)] by (simp add: same_order_def)
  obtain ob' where add: "AddOrder o1 ob = Some ob'" "ob_Key ob' = ob_Key ob" "book_abs ob' (pt_add o1 (B (BookKey o')))"
    using AddOrder_abs [OF G(1) price nh] by blast
  have "RestoreOrder (Some o') e = Some (None, e1\<lparr>books := AList.update (BookKey o') ob' (books e1)\<rparr>)"
    using ok pos g nh o1(1) add(1) by (simp add: RestoreOrder_def Let_def same_order_def flip: o1_def)
  moreover have "engine_abs (e1\<lparr>books := AList.update (BookKey o') ob' (books e1)\<rparr>) (B(BookKey o' := pt_add o1 (B (BookKey o'))))"
    using engine_abs_update_books [OF G(3) add(3)] add(2) G(2) by simp
  ultimately show ?thesis using o1 by blast
qed

definition cancelled_at :: "CancelReason \<Rightarrow> i64 \<Rightarrow> DirectOrder \<Rightarrow> DirectOrder" where
  "cancelled_at reason now d = (d_Cancel reason d)\<lparr>d_UpdatedAtMillis := now\<rparr>"

lemma cancelResting_abs:
  assumes abs: "book_abs ob A" and get: "GetDirectOrder ob k = Some a"
  obtains ob' where "cancelResting reason now a ob = Some (ToOrder (cancelled_at reason now (ob_data ob a)), ob')"
    and "ob_Key ob' = ob_Key ob" and "book_abs ob' (pt_remove k A)"
proof -
  obtain L where rep: "book_rep L ob" and A: "A = (\<lambda>s. map (ob_data ob) (addrs L s))"
    using abs by (auto simp: book_abs_def)
  define h where "h = (ob_mem ob)(a := (ob_mem ob a)\<lparr>n_data := cancelled_at reason now (ob_data ob a)\<rparr>)"
  define ob1 where "ob1 = ob\<lparr>ob_pool := (ob_pool ob)\<lparr>p_mem := h\<rparr>\<rparr>"
  have "book_rep L ob1"
    unfolding ob1_def by (rule book_rep_data [OF rep])
      (simp_all add: h_def cancelled_at_def order_simps d_IsBuy_def d_Cancel_def)
  then have abs1: "book_abs ob1 (\<lambda>s. map (ob_data ob1) (addrs L s))" by (auto simp: book_abs_def)
  have idk: "d_OrderID (ob_data ob a) = k"
    using get index_repD(3) [OF book_repD(2) [OF rep]] by (simp add: GetDirectOrder_def)
  have ids: "d_OrderID (ob_data ob1 b) = d_OrderID (ob_data ob b)" for b
    by (simp add: ob1_def h_def cancelled_at_def order_simps)
  have other: "ob_data ob1 b = ob_data ob b" if "d_OrderID (ob_data ob b) \<noteq> k" for b
    using that idk by (auto simp: ob1_def h_def)
  have "GetDirectOrder ob1 k = Some a" using get by (simp add: GetDirectOrder_def ob1_def)
  then obtain ob' where r: "RemoveDirectOrder a ob1 = Some ob'" "ob_Key ob' = ob_Key ob1"
    "book_abs ob' (pt_remove k (\<lambda>s. map (ob_data ob1) (addrs L s)))"
    using RemoveDirectOrder_abs [OF abs1] by blast
  have "pt_remove k (\<lambda>s. map (ob_data ob1) (addrs L s)) = pt_remove k A"
    using other by (auto simp: pt_remove_def A filter_map comp_def ids fun_eq_iff)
  then show thesis
    using r that [of ob'] by (simp add: cancelResting_def ob1_def h_def cancelled_at_def)
qed

fun pt_cancel :: "CancelReason \<Rightarrow> i64 \<Rightarrow> Order option list \<Rightarrow> ptbooks \<Rightarrow> Order list \<times> ptbooks" where
  "pt_cancel reason now [] B = ([], B)"
| "pt_cancel reason now (None # cs) B = pt_cancel reason now cs B"
| "pt_cancel reason now (Some c # cs) B =
     (let k = BookKey c; A = B k in
      case find (\<lambda>d. d_OrderID d = o_OrderID c) (A True @ A False) of
        None \<Rightarrow> pt_cancel reason now cs B
      | Some d \<Rightarrow>
          if d_RemainingQuantity d \<le> 0 then pt_cancel reason now cs B
          else let (os, B') = pt_cancel reason now cs (B(k := pt_remove (o_OrderID c) A))
               in (ToOrder (cancelled_at reason now d) # os, B'))"

lemma find_get:
  assumes "book_abs ob A"
  shows "find (\<lambda>d. d_OrderID d = k) (A True @ A False) =
    (case GetDirectOrder ob k of None \<Rightarrow> None | Some a \<Rightarrow> Some (ob_data ob a))"
proof (cases "GetDirectOrder ob k")
  case None
  then have "k \<notin> pt_ids A" using book_abs_index(3) [OF assms] by blast
  then show ?thesis using None by (auto simp: find_None_iff pt_ids_def)
next
  case (Some a)
  obtain s where d: "ob_data ob a \<in> set (A s)" "d_OrderID (ob_data ob a) = k"
    using book_abs_index(2) [OF assms Some] by blast
  then have mem: "ob_data ob a \<in> set (A True @ A False)" by (cases s) auto
  then obtain y where y: "find (\<lambda>d. d_OrderID d = k) (A True @ A False) = Some y"
    using d(2) by (cases "find (\<lambda>d. d_OrderID d = k) (A True @ A False)") (auto simp: find_None_iff)
  then have ym: "y \<in> set (A True @ A False)" "d_OrderID y = k"
    by (auto simp: find_Some_iff in_set_conv_nth simp del: set_append)
  have "inj_on d_OrderID (set (A True @ A False))"
    using book_abs_shape [OF assms] unfolding pt_shape_def distinct_map by blast
  then have "y = ob_data ob a" using ym mem d(2) by (auto dest: inj_onD)
  then show ?thesis using Some y by simp
qed

lemma cancel_loop_refines:
  assumes "engine_abs e B" and "pt_cancel reason now cs B = (os, B')"
  shows "\<exists>keys' e'. cancel_loop reason now cs acc keys e = Some (acc @ os, keys', e') \<and> engine_abs e' B' \<and>
    e_localSeq e' = e_localSeq e \<and> e_sequence e' = e_sequence e"
  using assms
proof (induction cs arbitrary: acc keys e os B)
  case (Cons m cs)
  show ?case
  proof (cases m)
    case None
    then show ?thesis using Cons.IH [of e B os acc keys] Cons.prems by simp
  next
    case m: (Some c)
  let ?k = "BookKey c"
  show ?thesis
  proof (cases "map_of (books e) ?k")
    case None
    then have "B ?k = pt_empty" using engine_absD(2) [OF Cons.prems(1)] by blast
    then have p: "pt_cancel reason now cs B = (os, B')" using Cons.prems(2) by (simp add: m pt_empty_def)
    then show ?thesis
      using Cons.IH [OF Cons.prems(1) p, of acc keys] None \<open>B ?k = pt_empty\<close> by (simp add: m pt_empty_def)
  next
    case (Some ob)
    note ab = engine_absD(3,4) [OF Cons.prems(1) Some]
    note fg = find_get [OF ab(1), of "o_OrderID c"]
    show ?thesis
    proof (cases "GetDirectOrder ob (o_OrderID c)")
      case None
      then have p: "pt_cancel reason now cs B = (os, B')" using Cons.prems(2) fg by (simp add: m)
      then show ?thesis
        using Cons.IH [OF Cons.prems(1) p, of acc keys] None Some fg by (simp add: m)
    next
      case get: (Some a)
      show ?thesis
      proof (cases "d_RemainingQuantity (ob_data ob a) \<le> 0")
        case True
        then have p: "pt_cancel reason now cs B = (os, B')" using Cons.prems(2) fg get by (simp add: m)
        then show ?thesis
          using Cons.IH [OF Cons.prems(1) p, of acc keys] True Some get fg by (simp add: m)
      next
        case False
        obtain ob' where cr: "cancelResting reason now a ob = Some (ToOrder (cancelled_at reason now (ob_data ob a)), ob')"
          and ob': "ob_Key ob' = ob_Key ob" "book_abs ob' (pt_remove (o_OrderID c) (B ?k))"
          using cancelResting_abs [OF ab(1) get] by blast
        obtain os1 where p: "pt_cancel reason now cs (B(?k := pt_remove (o_OrderID c) (B ?k))) = (os1, B')"
          and os: "os = ToOrder (cancelled_at reason now (ob_data ob a)) # os1"
          using Cons.prems(2) fg get False by (auto simp: m Let_def split: prod.splits)
        let ?e = "e\<lparr>books := AList.update ?k ob' (books e)\<rparr>"
        have "engine_abs ?e (B(?k := pt_remove (o_OrderID c) (B ?k)))"
          using engine_abs_update_books [OF Cons.prems(1) ob'(2)] ob'(1) ab(2) by simp
        from Cons.IH [OF this p, of "acc @ [ToOrder (cancelled_at reason now (ob_data ob a))]"
            "if ob_Key ob' \<in> set keys then keys else keys @ [ob_Key ob']"] show ?thesis
          using Some get False cr fg by (simp add: m os)
      qed
    qed
  qed
  qed
qed auto

lemma OrderCount_0:
  assumes "book_abs ob A" and "OrderCount ob = 0"
  shows "A = pt_empty"
proof -
  have "pt_ids A = {}"
    using book_abs_index(1) [OF assms(1)] assms(2) by (auto simp: HasOrder_def OrderCount_def)
  then have "A True = []" "A False = []" by (auto simp: pt_ids_def)
  then show ?thesis by (auto simp: pt_empty_def fun_eq_iff) (metis (full_types))
qed

lemma snapshot_loop_refines:
  assumes "engine_abs e B" and "snapshot_loop ks snaps e = (snaps', e')"
  shows "engine_abs e' B" and "e_localSeq e' = e_localSeq e" and "e_sequence e' = e_sequence e"
proof -
  have "engine_abs e' B \<and> e_localSeq e' = e_localSeq e \<and> e_sequence e' = e_sequence e"
    using assms
  proof (induction ks arbitrary: snaps e)
    case (Cons k ks)
    show ?case
    proof (cases "map_of (books e) k")
      case None
      then show ?thesis using Cons by simp
    next
      case (Some ob)
      define e1 where "e1 = (if OrderCount ob = 0 then e\<lparr>books := AList.delete k (books e)\<rparr> else e)"
      have "engine_abs (e\<lparr>books := AList.delete k (books e)\<rparr>) B" if "OrderCount ob = 0"
        using Cons.prems(1) OrderCount_0 [OF engine_absD(3) [OF Cons.prems(1) Some] that]
        by (auto simp: engine_abs_def distinct_delete delete_conv' cong: option.case_cong)
      then have "engine_abs e1 B" using Cons.prems(1) by (simp add: e1_def)
      moreover have "snapshot_loop ks (snaps @ [Snapshot 5 ob]) e1 = (snaps', e')"
        using Cons.prems(2) Some by (simp add: e1_def)
      ultimately have "engine_abs e' B \<and> e_localSeq e' = e_localSeq e1 \<and> e_sequence e' = e_sequence e1"
        by (rule Cons.IH)
      then show ?thesis by (simp add: e1_def split: if_splits)
    qed
  qed auto
  then show "engine_abs e' B" and "e_localSeq e' = e_localSeq e" and "e_sequence e' = e_sequence e" by auto
qed

lemma cancel_refines:
  assumes "engine_abs e B" and "cs \<noteq> []" and "reason \<noteq> ''''" and "pt_cancel reason now cs B = (os, B')"
  shows "\<exists>r e'. CancelOrders now cs reason e = Some (r, None, e') \<and> c_Orders r = os \<and> engine_abs e' B' \<and>
    e_localSeq e' = e_localSeq e \<and> e_sequence e' = e_sequence e"
proof -
  obtain keys e1 where l: "cancel_loop reason now cs [] [] e = Some (os, keys, e1)" "engine_abs e1 B'"
    "e_localSeq e1 = e_localSeq e" "e_sequence e1 = e_sequence e"
    using cancel_loop_refines [OF assms(1,4), of "[]" "[]"] by auto
  obtain snaps e2 where s: "snapshot_loop keys [] e1 = (snaps, e2)" by fastforce
  show ?thesis
    using l s snapshot_loop_refines [OF l(2) s] assms(2,3) by (simp add: CancelOrders_def)
qed

text \<open>An amendment is a cancellation followed by a placement of the amended order.\<close>

definition amended :: "i64 \<Rightarrow> i64 \<Rightarrow> Order \<Rightarrow> Order" where
  "amended newPrice newQty o' =
     o'\<lparr>o_Status := OrderStatusNew, o_CancelReason := '''', o_FilledQuantity := 0,
        o_Price := (if 0 < newPrice then newPrice else o_Price o'),
        o_Quantity := (if 0 < newQty then newQty else o_Quantity o')\<rparr>"

lemma amend_refines:
  assumes abs: "engine_abs e B" and k: "k = BookKey o'"
    and fnd: "find (\<lambda>d. d_OrderID d = o_OrderID o') (B k True @ B k False) = Some d"
    and pos: "0 < d_RemainingQuantity d"
    and pp: "pt_place clk (amended newPrice newQty (ToOrder (cancelled_at CancelReasonAmended now d)))
        (B(k := pt_remove (o_OrderID o') (B k))) (e_localSeq e) (e_sequence e) = (c, err, B')"
  shows "\<exists>r e'. AmendOrder clk now (Some o') newPrice newQty e = Some (r, err, e') \<and>
    r_Order r = Some (k_order c) \<and> r_Trades r = k_trades c \<and>
    r_Affected r = ToOrder (cancelled_at CancelReasonAmended now d) # k_affected c \<and> engine_abs e' B'"
proof -
  have "B k \<noteq> pt_empty" using fnd by (auto simp: pt_empty_def)
  then obtain ob where ob: "map_of (books e) k = Some ob" using engine_absD(2) [OF abs] by fastforce
  note ab = engine_absD(3,4) [OF abs ob]
  obtain a where get: "GetDirectOrder ob (o_OrderID o') = Some a" and d: "d = ob_data ob a"
    using fnd find_get [OF ab(1), of "o_OrderID o'"] by (auto split: option.splits)
  obtain ob' where cr: "cancelResting CancelReasonAmended now a ob =
      Some (ToOrder (cancelled_at CancelReasonAmended now d), ob')"
    and ob': "ob_Key ob' = ob_Key ob" "book_abs ob' (pt_remove (o_OrderID o') (B k))"
    using cancelResting_abs [OF ab(1) get] unfolding d by blast
  let ?e = "e\<lparr>books := AList.update k ob' (books e)\<rparr>"
  have e1: "engine_abs ?e (B(k := pt_remove (o_OrderID o') (B k)))"
    using engine_abs_update_books [OF abs ob'(2)] ob'(1) ab(2) by simp
  have "pt_place clk (amended newPrice newQty (ToOrder (cancelled_at CancelReasonAmended now d)))
        (B(k := pt_remove (o_OrderID o') (B k))) (e_localSeq ?e) (e_sequence ?e) = (c, err, B')"
    using pp by simp
  from place_refines [OF e1 this] obtain r e' where pl:
    "PlaceOrder clk (Some (amended newPrice newQty (ToOrder (cancelled_at CancelReasonAmended now d)))) ?e = Some (r, err, e')"
    "result_abs r e' c" "engine_abs e' B'" by blast
  have am: "amended newPrice newQty x =
      (let am1 = x\<lparr>o_Status := OrderStatusNew, o_CancelReason := '''', o_FilledQuantity := 0\<rparr>;
           am2 = (if 0 < newPrice then am1\<lparr>o_Price := newPrice\<rparr> else am1)
       in if 0 < newQty then am2\<lparr>o_Quantity := newQty\<rparr> else am2)" for x
    by (simp add: amended_def Let_def)
  have "AmendOrder clk now (Some o') newPrice newQty e =
      Some (r\<lparr>r_Affected := ToOrder (cancelled_at CancelReasonAmended now d) # r_Affected r\<rparr>, err, e')"
    using ob get pos cr pl(1) unfolding AmendOrder_def am
    by (simp add: d Let_def flip: k)
  then show ?thesis using pl(2,3) by (simp add: result_abs_def)
qed

end
