(* ===== verification/Match_Props.thy ===== *)
theory Match_Props
  imports Match_Place
begin

text \<open>
  The guarantees of the matching engine: an invariant of its state that every operation keeps,
  that every operation returns, and what a placed, cancelled or amended order does to the
  trades, to the resting orders and to the counters.
\<close>

section \<open>The invariant\<close>

definition wf_books :: "ptbooks \<Rightarrow> bool" where
  "wf_books B \<longleftrightarrow> (\<forall>k s. \<forall>d\<in>set (B k s). d_open d \<and> d_BookKey d = k)"

definition engine_inv :: "Engine \<Rightarrow> bool" where
  "engine_inv e \<longleftrightarrow> (\<exists>B. engine_abs e B \<and> wf_books B)"

text \<open>An order as the service submits it: nothing filled yet, the quantity an \<open>int64\<close>.\<close>

definition fresh :: "Order \<Rightarrow> bool" where
  "fresh o' \<longleftrightarrow> o_FilledQuantity o' = 0 \<and> o_Quantity o' \<le> MaxInt64"

lemma d_BookKey_maker: "same_maker d r \<Longrightarrow> d_BookKey r = d_BookKey d"
  by (simp add: same_maker_def d_BookKey_def)

lemma BookKey_same: "same_order a b \<Longrightarrow> BookKey b = BookKey a"
  by (simp add: same_order_def BookKey_def)

lemma set_pt_insert [simp]: "set (pt_insert s d xs) = insert d (set xs)"
proof -
  have "set (takeWhile P xs) \<union> set (dropWhile P xs) = set xs" for P
    by (metis set_append takeWhile_dropWhile_id)
  then show ?thesis by (auto simp: pt_insert_def)
qed

lemma set_pt_add: "set (pt_add o' A s) = (if s = IsBuy o' then insert (FromOrder o') (set (A s)) else set (A s))"
  by (simp add: pt_add_def)

definition open_order :: "Order \<Rightarrow> bool" where
  "open_order o' \<longleftrightarrow> fill_ok o' \<and> 0 < RemainingQuantity o'"

lemma fresh_open: "fresh o' \<Longrightarrow> Validate o' = None \<Longrightarrow> open_order o'"
proof -
  assume a: "fresh o'" "Validate o' = None"
  then have "fill_ok o'" by (auto simp: fresh_def Validate_def fill_ok_def split: if_splits)
  moreover have "0 < RemainingQuantity o'"
    using a \<open>fill_ok o'\<close> by (auto simp: RemainingQuantity_eq fresh_def Validate_def split: if_splits)
  ultimately show ?thesis by (simp add: open_order_def)
qed

lemma d_open_FromOrder: "open_order o' \<Longrightarrow> d_open (FromOrder o')"
  by (simp add: d_open_def open_order_def)

lemma d_BookKey_FromOrder: "d_BookKey (FromOrder o') = BookKey o'"
  by (simp add: d_BookKey_def BookKey_def order_simps)

section \<open>What one order does\<close>

definition book_wf :: "string \<Rightarrow> ptbook \<Rightarrow> bool" where
  "book_wf k A \<longleftrightarrow> (\<forall>s. \<forall>d\<in>set (A s). d_open d \<and> d_BookKey d = k)"

lemma pt_match_run:
  assumes "pt_match clk o' A ls sq = (c, A1)" and "fill_ok o'" and "book_wf k A"
  obtains rest where "vrun clk (BookKey o') (o_STPStrategy o') (filter (crosses o') (A (\<not> IsBuy o'))) (core0 o' ls sq) c rest"
    and "A1 = A(\<not> IsBuy o' := rest @ filter (\<lambda>d. \<not> crosses o' d) (A (\<not> IsBuy o')))"
proof -
  obtain rest where v: "vmatch clk (BookKey o') (o_STPStrategy o') (filter (crosses o') (A (\<not> IsBuy o'))) (core0 o' ls sq) = (c, rest)"
    and A1: "A1 = A(\<not> IsBuy o' := rest @ filter (\<lambda>d. \<not> crosses o' d) (A (\<not> IsBuy o')))"
    using assms(1) by (auto simp: pt_match_def Let_def split: prod.splits)
  have "vrun clk (BookKey o') (o_STPStrategy o') (filter (crosses o') (A (\<not> IsBuy o'))) (core0 o' ls sq) c rest"
    using assms(2,3) by (intro vmatch_vrun [OF v]) (auto simp: core0_def book_wf_def)
  then show thesis using A1 that by blast
qed

lemma pt_match_facts:
  assumes "pt_match clk o' A ls sq = (c, A1)" and "fill_ok o'" and "book_wf k A"
  shows "same_order o' (k_order c)" and "fill_ok (k_order c)" and "book_wf k A1"
    and "trades_of_run (BookKey o') (core0 o' ls sq) (filter (crosses o') (A (\<not> IsBuy o'))) c (k_trades c)"
proof -
  obtain rest where v: "vrun clk (BookKey o') (o_STPStrategy o') (filter (crosses o') (A (\<not> IsBuy o'))) (core0 o' ls sq) c rest"
    and A1: "A1 = A(\<not> IsBuy o' := rest @ filter (\<lambda>d. \<not> crosses o' d) (A (\<not> IsBuy o')))"
    using pt_match_run [OF assms] by blast
  have c0: "fill_ok (k_order (core0 o' ls sq))" "k_order (core0 o' ls sq) = o'" "k_trades (core0 o' ls sq) = []"
    using assms(2) by (simp_all add: core0_def)
  have od: "\<forall>d\<in>set (filter (crosses o') (A (\<not> IsBuy o'))). d_open d"
    using assms(3) by (auto simp: book_wf_def)
  show "same_order o' (k_order c)" "fill_ok (k_order c)"
    using vrun_order [OF v c0(1) od] c0(2) by simp_all
  show "trades_of_run (BookKey o') (core0 o' ls sq) (filter (crosses o') (A (\<not> IsBuy o'))) c (k_trades c)"
    using vrun_trades [OF v c0(1) od] c0(3) by (auto simp: trades_of_run_def)
  have "\<forall>r\<in>set rest. d_open r \<and> d_BookKey r = k"
    using vrun_rest [OF v c0(1) od] assms(3) d_BookKey_maker by (fastforce simp: book_wf_def)
  then show "book_wf k A1" using assms(3) by (auto simp: book_wf_def A1)
qed

lemma book_wf_add: "book_wf k A \<Longrightarrow> open_order o' \<Longrightarrow> BookKey o' = k \<Longrightarrow> book_wf k (pt_add o' A)"
  by (auto simp: book_wf_def set_pt_add d_open_FromOrder d_BookKey_FromOrder split: if_splits)

lemma trades_of_run_status:
  assumes "trades_of_run key c0 ds c ts" and "k_trades c' = k_trades c" and "k_localSeq c' = k_localSeq c"
    and "k_sequence c' = k_sequence c" and "o_FilledQuantity (k_order c') = o_FilledQuantity (k_order c)"
  shows "trades_of_run key c0 ds c' ts"
  using assms by (simp add: trades_of_run_def)

lemma same_order_status: "same_order a b \<Longrightarrow> same_order a (b\<lparr>o_Status := x\<rparr>)"
  "same_order a b \<Longrightarrow> same_order a (Cancel r b)"
  by (simp_all add: same_order_def order_simps)

lemma fill_ok_status [simp]: "fill_ok (o'\<lparr>o_Status := x\<rparr>) = fill_ok o'"
  by (simp add: fill_ok_def)

lemma core0_simps [simp]: "k_order (core0 o' ls sq) = o'" "k_trades (core0 o' ls sq) = []"
  "k_localSeq (core0 o' ls sq) = ls" "k_sequence (core0 o' ls sq) = sq" "k_affected (core0 o' ls sq) = []"
  "k_done (core0 o' ls sq) = False"
  by (simp_all add: core0_def)

lemma pt_process_facts:
  assumes pp: "pt_process clk o' A ls sq = (c, A')" and op: "open_order o'" and wf: "book_wf (BookKey o') A"
  shows "same_order o' (k_order c)" and "fill_ok (k_order c)" and "book_wf (BookKey o') A'"
    and "trades_of_run (BookKey o') (core0 o' ls sq) (filter (crosses o') (A (\<not> IsBuy o'))) c (k_trades c)"
proof -
  let ?tr = "\<lambda>c. trades_of_run (BookKey o') (core0 o' ls sq) (filter (crosses o') (A (\<not> IsBuy o'))) c (k_trades c)"
  have fo: "fill_ok o'" using op by (simp add: open_order_def)
  obtain c1 A1 where pm: "pt_match clk o' A ls sq = (c1, A1)" by fastforce
  note F = pt_match_facts [OF pm fo wf]
  have k1: "BookKey (k_order c1) = BookKey o'" by (rule BookKey_same [OF F(1)])
  have add1: "book_wf (BookKey o') (pt_add (k_order c1) A1)" if "RemainingQuantity (k_order c1) \<noteq> 0"
    using F(2,3) k1 that RemainingQuantity_nonneg [of "k_order c1"]
    by (intro book_wf_add) (auto simp: open_order_def order.strict_iff_order)
  have "same_order o' (k_order c) \<and> fill_ok (k_order c) \<and> book_wf (BookKey o') A' \<and> ?tr c"
    using pp wf op fo F add1 book_wf_add [OF wf op refl]
    by (auto simp: pt_process_def pm Let_def same_order_status order_simps
        intro: trades_of_run_status [of _ _ _ c1] split: if_splits)
  then show "same_order o' (k_order c)" and "fill_ok (k_order c)" and "book_wf (BookKey o') A'" and "?tr c"
    by auto
qed

section \<open>Every operation keeps the invariant\<close>

lemma wf_books_wf: "wf_books B \<longleftrightarrow> (\<forall>k. book_wf k (B k))"
  by (auto simp: wf_books_def book_wf_def)

lemma wf_books_upd: "wf_books B \<Longrightarrow> book_wf k A \<Longrightarrow> wf_books (B(k := A))"
  by (simp add: wf_books_wf)

lemma book_wf_remove: "book_wf k A \<Longrightarrow> book_wf k (pt_remove i A)"
  by (auto simp: book_wf_def pt_remove_def)

text \<open>The order the engine processes: the status is defaulted, the rest is the caller's.\<close>

definition accepted :: "Order \<Rightarrow> Order" where
  "accepted o' = (if o_Status o' = '''' then o'\<lparr>o_Status := OrderStatusNew\<rparr> else o')"

lemma accepted_simps [simp]: "same_order o' (accepted o')" "o_FilledQuantity (accepted o') = o_FilledQuantity o'"
  "BookKey (accepted o') = BookKey o'" "RemainingQuantity (accepted o') = RemainingQuantity o'"
  "IsBuy (accepted o') = IsBuy o'" "crosses (accepted o') = crosses o'" "fill_ok (accepted o') = fill_ok o'"
  "o_OrderID (accepted o') = o_OrderID o'" "o_Type (accepted o') = o_Type o'"
  "o_TimeInForce (accepted o') = o_TimeInForce o'" "o_STPStrategy (accepted o') = o_STPStrategy o'"
  "o_UserID (accepted o') = o_UserID o'" "o_Price (accepted o') = o_Price o'" "o_Quantity (accepted o') = o_Quantity o'"
  by (simp_all add: accepted_def same_order_def BookKey_def RemainingQuantity_def IsBuy_def crosses_def
      fun_eq_iff fill_ok_def)

lemma open_order_accepted [simp]: "open_order (accepted o') = open_order o'"
  by (simp add: open_order_def)

lemma pt_place_eq:
  assumes "Validate o' = None"
  shows "pt_place clk o' B ls sq =
    (if o_OrderID o' \<in> pt_ids (B (BookKey o'))
     then (core0 (Reject CancelReasonValidationFailed (accepted o')) ls sq, Some (DuplicateOrderID (o_OrderID o')), B)
     else if o_Type o' = OrderTypeLimit
     then let (c, A) = pt_process clk (accepted o') (B (BookKey o')) ls sq in (c, None, B(BookKey o' := A))
     else (core0 (Reject CancelReasonValidationFailed (accepted o')) ls sq, Some (UnsupportedOrderType (o_Type o')), B))"
  using assms unfolding pt_place_def Let_def accepted_def [symmetric] by simp

lemma pt_place_accepted:
  assumes "pt_place clk o' B ls sq = (c, None, B')"
  obtains A where "Validate o' = None" and "o_OrderID o' \<notin> pt_ids (B (BookKey o'))" and "o_Type o' = OrderTypeLimit"
    and "pt_process clk (accepted o') (B (BookKey o')) ls sq = (c, A)" and "B' = B(BookKey o' := A)"
proof -
  have v: "Validate o' = None" using assms by (auto simp: pt_place_def split: option.splits)
  then show thesis using assms that by (auto simp: pt_place_eq split: if_splits prod.splits)
qed

lemma pt_place_rejected:
  assumes "pt_place clk o' B ls sq = (c, Some err, B')"
  obtains o1 where "o1 = o' \<or> o1 = accepted o'" and "c = core0 (Reject CancelReasonValidationFailed o1) ls sq"
    and "B' = B" and "case Validate o' of Some v \<Rightarrow> err = InvalidOrder v
      | None \<Rightarrow> if o_OrderID o' \<in> pt_ids (B (BookKey o')) then err = DuplicateOrderID (o_OrderID o')
               else o_Type o' \<noteq> OrderTypeLimit \<and> err = UnsupportedOrderType (o_Type o')"
proof (cases "Validate o'")
  case None
  then show thesis using assms that [of "accepted o'"] by (auto simp: pt_place_eq split: if_splits prod.splits)
next
  case (Some v)
  then show thesis using assms that [of o'] by (auto simp: pt_place_def)
qed

lemma pt_place_wf:
  assumes "pt_place clk o' B ls sq = (c, err, B')" and "wf_books B" and "Validate o' = None \<Longrightarrow> open_order o'"
  shows "wf_books B'"
proof (cases err)
  case None
  obtain A where p: "Validate o' = None" "pt_process clk (accepted o') (B (BookKey o')) ls sq = (c, A)" "B' = B(BookKey o' := A)"
    using pt_place_accepted [OF assms(1) [unfolded None]] by metis
  have "book_wf (BookKey o') A"
    using pt_process_facts(3) [OF p(2)] assms(2,3) p(1) by (simp add: wf_books_wf)
  then show ?thesis using assms(2) p(3) by (simp add: wf_books_upd)
next
  case (Some er)
  then have "B' = B" using pt_place_rejected [OF assms(1) [unfolded Some]] by metis
  then show ?thesis using assms(2) by simp
qed

lemma engine_inv_New: "engine_inv New"
  using engine_abs_New by (auto simp: engine_inv_def wf_books_def pt_empty_def)

lemma place_step:
  assumes "engine_inv e" and "fresh o'"
  shows "\<exists>r err e'. PlaceOrder clk (Some o') e = Some (r, err, e') \<and> engine_inv e'"
proof -
  obtain B where B: "engine_abs e B" "wf_books B" using assms(1) by (auto simp: engine_inv_def)
  obtain c err B' where p: "pt_place clk o' B (e_localSeq e) (e_sequence e) = (c, err, B')" by (metis prod_cases3)
  have "wf_books B'" using pt_place_wf [OF p B(2)] fresh_open [OF assms(2)] by blast
  then show ?thesis using place_refines [OF B(1) p] by (auto simp: engine_inv_def)
qed

lemma pt_cancel_wf: "pt_cancel reason now cs B = (os, B') \<Longrightarrow> wf_books B \<Longrightarrow> wf_books B'"
proof (induction cs arbitrary: B os)
  case (Cons m cs)
  show ?case
  proof (cases m)
    case None
    then show ?thesis using Cons by simp
  next
    case (Some c)
    have rm: "wf_books (B(BookKey c := pt_remove (o_OrderID c) (B (BookKey c))))"
      using Cons.prems(2) by (auto simp: wf_books_wf book_wf_remove)
    show ?thesis
      using Cons.prems(1) Cons.IH [OF _ Cons.prems(2)] Cons.IH [OF _ rm]
      by (auto simp: Some Let_def simp del: fun_upd_apply split: option.splits if_splits prod.splits)
  qed
qed auto

lemma cancel_step:
  assumes "engine_inv e"
  shows "\<exists>r err e'. CancelOrders now cs reason e = Some (r, err, e') \<and> engine_inv e'"
proof -
  obtain B where B: "engine_abs e B" "wf_books B" using assms by (auto simp: engine_inv_def)
  show ?thesis
  proof (cases "cs = [] \<or> reason = ''''")
    case True
    then show ?thesis using assms by (auto simp: CancelOrders_def)
  next
    case False
    obtain os B' where p: "pt_cancel reason now cs B = (os, B')" by fastforce
    then show ?thesis
      using cancel_refines [OF B(1) _ _ p] pt_cancel_wf [OF p B(2)] False by (auto simp: engine_inv_def)
  qed
qed

lemma restore_step:
  assumes "engine_inv e" and "fill_ok o'"
  shows "\<exists>err e'. RestoreOrder (Some o') e = Some (err, e') \<and> engine_inv e'"
proof -
  obtain B where B: "engine_abs e B" "wf_books B" using assms(1) by (auto simp: engine_inv_def)
  consider (bad) "Validate o' \<noteq> None" | (none) "Validate o' = None" "RemainingQuantity o' \<le> 0"
    | (dup) "Validate o' = None" "0 < RemainingQuantity o'" "o_OrderID o' \<in> pt_ids (B (BookKey o'))"
    | (new) "Validate o' = None" "0 < RemainingQuantity o'" "o_OrderID o' \<notin> pt_ids (B (BookKey o'))"
    by fastforce
  then show ?thesis
  proof cases
    case bad
    then show ?thesis using assms by (auto simp: RestoreOrder_def)
  next
    case none
    then show ?thesis using assms by (auto simp: RestoreOrder_def)
  next
    case dup
    obtain ob e1 where g: "getOrCreateBook (BookKey o') e = (ob, e1)" by fastforce
    note G = getOrCreateBook_abs [OF B(1) g]
    have "HasOrder ob (o_OrderID o')" using dup(3) book_abs_index(1) [OF G(1)] by simp
    then have "RestoreOrder (Some o') e = Some (None, e1)" using dup g by (simp add: RestoreOrder_def)
    then show ?thesis using G(3) B(2) by (auto simp: engine_inv_def)
  next
    case new
    obtain e' o1 where r: "RestoreOrder (Some o') e = Some (None, e')" "same_order o' o1"
      "o_FilledQuantity o1 = o_FilledQuantity o'" "engine_abs e' (B(BookKey o' := pt_add o1 (B (BookKey o'))))"
      using restore_refines [OF B(1) new] by blast
    have "open_order o1"
      using new(2) assms(2) r(2,3) by (simp add: open_order_def fill_ok_def RemainingQuantity_def same_order_def)
    then have "wf_books (B(BookKey o' := pt_add o1 (B (BookKey o'))))"
      using B(2) BookKey_same [OF r(2)] by (intro wf_books_upd book_wf_add) (auto simp: wf_books_wf)
    then show ?thesis using r by (auto simp: engine_inv_def)
  qed
qed

lemma amended_fresh:
  assumes "d_open d" and "newQty \<le> MaxInt64"
  shows "fresh (amended newPrice newQty (ToOrder (cancelled_at reason now d)))"
  using assms by (simp add: fresh_def amended_def cancelled_at_def d_open_iff order_simps)

lemma amend_step:
  assumes "engine_inv e" and "newQty \<le> MaxInt64"
  shows "\<exists>r err e'. AmendOrder clk now (Some o') newPrice newQty e = Some (r, err, e') \<and> engine_inv e'"
proof -
  obtain B where B: "engine_abs e B" "wf_books B" using assms(1) by (auto simp: engine_inv_def)
  let ?k = "BookKey o'"
  show ?thesis
  proof (cases "map_of (books e) ?k")
    case None
    then show ?thesis using assms(1) by (auto simp: AmendOrder_def)
  next
    case (Some ob)
    note ob = engine_absD(3) [OF B(1) Some]
    show ?thesis
    proof (cases "GetDirectOrder ob (o_OrderID o')")
      case None
      then show ?thesis using assms(1) Some by (auto simp: AmendOrder_def)
    next
      case get: (Some a)
      let ?d = "ob_data ob a"
      have f: "find (\<lambda>d. d_OrderID d = o_OrderID o') (B ?k True @ B ?k False) = Some ?d"
        using find_get [OF ob, of "o_OrderID o'"] get by simp
      then have "?d \<in> set (B ?k True @ B ?k False)"
        by (auto simp: find_Some_iff in_set_conv_nth simp del: set_append)
      then have op: "d_open ?d" using B(2) by (auto simp: wf_books_def)
      obtain c err B' where p: "pt_place clk (amended newPrice newQty (ToOrder (cancelled_at CancelReasonAmended now ?d)))
          (B(?k := pt_remove (o_OrderID o') (B ?k))) (e_localSeq e) (e_sequence e) = (c, err, B')" by (metis prod_cases3)
      have "wf_books B'"
        using B(2) fresh_open [OF amended_fresh [OF op assms(2)]]
        by (intro pt_place_wf [OF p] wf_books_upd book_wf_remove) (auto simp: wf_books_wf)
      then show ?thesis
        using amend_refines [OF B(1) refl f _ p] op by (auto simp: d_open_def engine_inv_def)
    qed
  qed
qed

section \<open>Reachable engines\<close>

text \<open>
  The engine states a run of the service can be in: a new engine, and what an operation returns.
  A restored order is one with consistent counters, a placed one is fresh, an amended quantity is an
  \<open>int64\<close>; the clock, the cancelled orders and the reasons are arbitrary.
\<close>

inductive reachable :: "Engine \<Rightarrow> bool" where
  r_new: "reachable New"
| r_place: "reachable e \<Longrightarrow> fresh o' \<Longrightarrow> PlaceOrder clk (Some o') e = Some (r, err, e') \<Longrightarrow> reachable e'"
| r_restore: "reachable e \<Longrightarrow> fill_ok o' \<Longrightarrow> RestoreOrder (Some o') e = Some (err, e') \<Longrightarrow> reachable e'"
| r_cancel: "reachable e \<Longrightarrow> CancelOrders now cs reason e = Some (cr, err, e') \<Longrightarrow> reachable e'"
| r_amend: "reachable e \<Longrightarrow> newQty \<le> MaxInt64 \<Longrightarrow>
    AmendOrder clk now (Some o') newPrice newQty e = Some (r, err, e') \<Longrightarrow> reachable e'"
| r_sequence: "reachable e \<Longrightarrow> reachable (SetSequence sq e)"
| r_localSeq: "reachable e \<Longrightarrow> reachable (SetLocalSeq ls e)"

lemma engine_inv_seq: "engine_inv e \<Longrightarrow> engine_inv (SetSequence sq e)" "engine_inv e \<Longrightarrow> engine_inv (SetLocalSeq ls e)"
  by (auto simp: engine_inv_def engine_abs_def SetSequence_def SetLocalSeq_def)

lemma reachable_inv: "reachable e \<Longrightarrow> engine_inv e"
proof (induction rule: reachable.induct)
  case (r_place e o' clk r err e')
  then show ?case using place_step [of e o' clk] by auto
next
  case (r_restore e o' err e')
  then show ?case using restore_step [of e o'] by auto
next
  case (r_cancel e now cs reason cr err e')
  then show ?case using cancel_step [of e now cs reason] by auto
next
  case (r_amend e newQty clk now o' newPrice r err e')
  then show ?case using amend_step [of e newQty clk now o' newPrice] by auto
qed (auto simp: engine_inv_New engine_inv_seq)

text \<open>A book represents one pair of priority lists only, so the lists are a function of the state.\<close>

lemma seg_unique: "seg h p i xs l None \<Longrightarrow> seg h p i ys l' None \<Longrightarrow> xs = ys"
proof (induction xs arbitrary: p i ys)
  case Nil
  then show ?case by (cases ys) auto
next
  case (Cons x xs)
  then show ?case by (cases ys) auto
qed

lemma book_abs_unique:
  assumes "book_abs ob A" and "book_abs ob A'"
  shows "A = A'"
proof -
  obtain L where L: "book_rep L ob" "A = (\<lambda>s. map (ob_data ob) (addrs L s))" using assms(1) by (auto simp: book_abs_def)
  obtain M where M: "book_rep M ob" "A' = (\<lambda>s. map (ob_data ob) (addrs M s))" using assms(2) by (auto simp: book_abs_def)
  have "L s p = M s p" for s p
    using side_repD(1) [OF book_repD(1) [OF L(1)], of s p] side_repD(1) [OF book_repD(1) [OF M(1)], of s p] seg_unique
    by (fastforce simp: dll_def)
  then have "L = M" by blast
  then show ?thesis using L(2) M(2) by simp
qed

lemma engine_abs_unique:
  assumes "engine_abs e B" and "engine_abs e B'"
  shows "B = B'"
proof
  fix k
  show "B k = B' k"
    using engine_absD(2,3) [OF assms(1), of k] engine_absD(2,3) [OF assms(2), of k] book_abs_unique
    by (cases "map_of (books e) k") auto
qed

lemma reachable_books: "reachable e \<Longrightarrow> engine_abs e B \<Longrightarrow> wf_books B"
  using reachable_inv engine_abs_unique by (metis engine_inv_def)

end
