(* ===== verification/Match_Claims.thy ===== *)
theory Match_Claims
  imports Match_Props
begin

text \<open>
  The guarantees of the matching engine, stated of the operations of
  \<open>matching/engine/engine.go\<close> on every reachable engine: they return, they keep the books
  well formed, they trade in price-time priority at the maker's price, they conserve
  quantities, and they respect the time in force and the self-trade strategy of an order.
  \<open>engine_abs e B\<close> reads the books of the engine as the priority lists \<open>B\<close>.
\<close>

section \<open>What an accepted order leaves behind\<close>

lemma placed:
  assumes "reachable e" and "engine_abs e B" and "fresh o'" and "PlaceOrder clk (Some o') e = Some (r, None, e')"
  obtains c A where "pt_process clk (accepted o') (B (BookKey o')) (e_localSeq e) (e_sequence e) = (c, A)"
    and "result_abs r e' c" and "engine_abs e' (B(BookKey o' := A))" and "open_order (accepted o')"
    and "book_wf (BookKey (accepted o')) (B (BookKey o'))" and "o_OrderID o' \<notin> pt_ids (B (BookKey o'))"
proof -
  obtain c err B' where p: "pt_place clk o' B (e_localSeq e) (e_sequence e) = (c, err, B')" by (metis prod_cases3)
  from place_refines [OF assms(2) p] assms(4) have q: "err = None" "result_abs r e' c" "engine_abs e' B'" by auto
  obtain A where A: "Validate o' = None" "o_OrderID o' \<notin> pt_ids (B (BookKey o'))"
    "pt_process clk (accepted o') (B (BookKey o')) (e_localSeq e) (e_sequence e) = (c, A)" "B' = B(BookKey o' := A)"
    using pt_place_accepted [OF p [unfolded q(1)]] by metis
  show thesis
    using that [OF A(3) q(2)] q(3) A(1,2,4) fresh_open [OF assms(3)] reachable_books [OF assms(1,2)]
    by (simp add: wf_books_wf)
qed

text \<open>The makers an order can trade with, best first.\<close>

definition makers_for :: "Order \<Rightarrow> ptbooks \<Rightarrow> DirectOrder list" where
  "makers_for o' B = filter (crosses o') (B (BookKey o') (\<not> IsBuy o'))"

lemma placed_trades:
  assumes "reachable e" and "engine_abs e B" and "fresh o'" and "PlaceOrder clk (Some o') e = Some (r, None, e')"
  obtains c o1 where "r_Order r = Some o1" and "same_order o' o1" and "fill_ok o1"
    and "trades_of_run (BookKey o') (core0 (accepted o') (e_localSeq e) (e_sequence e)) (makers_for o' B) c (r_Trades r)"
    and "k_order c = o1" and "result_abs r e' c"
proof -
  obtain c A where p: "pt_process clk (accepted o') (B (BookKey o')) (e_localSeq e) (e_sequence e) = (c, A)"
    "result_abs r e' c" "open_order (accepted o')" "book_wf (BookKey (accepted o')) (B (BookKey o'))"
    using placed [OF assms] by metis
  note F = pt_process_facts [OF p(1,3,4)]
  have "same_order o' (k_order c)" using F(1) accepted_simps(1) same_order_trans by blast
  moreover have "r_Trades r = k_trades c" "r_Order r = Some (k_order c)" using p(2) by (simp_all add: result_abs_def)
  ultimately show thesis using that [of "k_order c" c] F(2,4) p(2) by (simp add: makers_for_def)
qed

lemma sorted_wrt_subseq: "subseq xs ys \<Longrightarrow> sorted_wrt P ys \<Longrightarrow> sorted_wrt P xs"
proof (induction rule: list_emb.induct)
  case (list_emb_Cons2 x y xs ys)
  then show ?case using list_emb_set [OF list_emb_Cons2(2)] by fastforce
qed auto

section \<open>A running example\<close>

text \<open>
  Two asks of user 1 on one market, at 40 and 50, and the orders the examples below place
  against them. The books are computed with the specification.
\<close>

definition ex_order :: "string \<Rightarrow> i64 \<Rightarrow> OrderSide \<Rightarrow> i64 \<Rightarrow> i64 \<Rightarrow> TimeInForce \<Rightarrow> STPStrategy \<Rightarrow> Order" where
  "ex_order i u s p q tif stp =
     \<lparr>o_OrderID = i, o_ClientOrderID = '''', o_UserID = u, o_MarketID = 7, o_Outcome = ''YES'', o_Side = s,
      o_Type = OrderTypeLimit, o_TimeInForce = tif, o_STPStrategy = stp, o_Price = p, o_Quantity = q,
      o_FilledQuantity = 0, o_Status = '''', o_CancelReason = '''', o_CreatedAtMillis = 0, o_UpdatedAtMillis = 0\<rparr>"

definition ex_clock :: "u64 \<Rightarrow> i64" where "ex_clock = (\<lambda>_. 0)"

definition ex_ask1 :: Order where "ex_ask1 = ex_order ''a1'' 1 OrderSideSell 40 10 TimeInForceGTC STPNone"
definition ex_ask2 :: Order where "ex_ask2 = ex_order ''a2'' 1 OrderSideSell 50 5 TimeInForceGTC STPNone"
definition ex_bid :: Order where "ex_bid = ex_order ''b1'' 2 OrderSideBuy 45 12 TimeInForceGTC STPNone"
definition ex_ioc :: Order where "ex_ioc = ex_order ''b2'' 2 OrderSideBuy 45 12 TimeInForceIOC STPNone"
definition ex_fok :: Order where "ex_fok = ex_order ''b3'' 2 OrderSideBuy 50 12 TimeInForceFOK STPNone"

definition ex_books1 :: ptbooks where
  "ex_books1 = (\<lambda>k s. if k = ''7:YES'' \<and> \<not> s then [FromOrder (accepted ex_ask1)] else [])"

definition ex_books :: ptbooks where
  "ex_books = (\<lambda>k s. if k = ''7:YES'' \<and> \<not> s
     then [FromOrder (accepted ex_ask1), FromOrder (accepted ex_ask2)] else [])"

lemma ex_facts: "BookKey ex_ask1 = ''7:YES''" "BookKey ex_ask2 = ''7:YES''" "IsBuy ex_ask1 = False" "IsBuy ex_ask2 = False"
  "Validate ex_ask1 = None" "Validate ex_ask2 = None" "RemainingQuantity ex_ask1 = 10" "RemainingQuantity ex_ask2 = 5"
  "o_Type ex_ask1 = OrderTypeLimit" "o_Type ex_ask2 = OrderTypeLimit"
  "o_TimeInForce ex_ask1 = TimeInForceGTC" "o_TimeInForce ex_ask2 = TimeInForceGTC"
  "o_FilledQuantity ex_ask1 = 0" "o_FilledQuantity ex_ask2 = 0"
  "o_Status (accepted ex_ask1) = OrderStatusNew" "o_Status (accepted ex_ask2) = OrderStatusNew"
  "o_OrderID ex_ask2 \<noteq> d_OrderID (FromOrder (accepted ex_ask1))"
  "better False (d_Price (FromOrder (accepted ex_ask2))) (d_Price (FromOrder (accepted ex_ask1))) = False"
  by code_simp+

lemma ex_place1: "pt_place clk ex_ask1 (\<lambda>_. pt_empty) ls sq = (core0 (accepted ex_ask1) ls sq, None, ex_books1)"
proof -
  have "(accepted ex_ask1)\<lparr>o_Status := OrderStatusNew\<rparr> = accepted ex_ask1" by code_simp
  then have "pt_process clk (accepted ex_ask1) pt_empty ls sq = (core0 (accepted ex_ask1) ls sq, pt_add (accepted ex_ask1) pt_empty)"
    by (simp add: pt_process_def pt_match_def pt_empty_def ex_facts core0_def Let_def fun_upd_idem)
  then show ?thesis
    by (auto simp: pt_place_eq ex_facts pt_ids_def pt_empty_def ex_books1_def pt_add_def pt_insert_def fun_eq_iff)
qed

lemma ex_place2: "pt_place clk ex_ask2 ex_books1 ls sq = (core0 (accepted ex_ask2) ls sq, None, ex_books)"
proof -
  have "(accepted ex_ask2)\<lparr>o_Status := OrderStatusNew\<rparr> = accepted ex_ask2" by code_simp
  then have "pt_process clk (accepted ex_ask2) (ex_books1 ''7:YES'') ls sq =
      (core0 (accepted ex_ask2) ls sq, pt_add (accepted ex_ask2) (ex_books1 ''7:YES''))"
    by (simp add: pt_process_def pt_match_def ex_books1_def ex_facts core0_def Let_def fun_upd_idem)
  then show ?thesis
    by (auto simp: pt_place_eq ex_facts pt_ids_def ex_books1_def ex_books_def pt_add_def pt_insert_def fun_eq_iff)
qed

lemma place_spec:
  assumes "reachable e" and "engine_abs e B" and "fresh o'"
    and "fst (snd (pt_place clk o' B (e_localSeq e) (e_sequence e))) = None"
  obtains r e' where "PlaceOrder clk (Some o') e = Some (r, None, e')"
    and "result_abs r e' (fst (pt_place clk o' B (e_localSeq e) (e_sequence e)))"
    and "engine_abs e' (snd (snd (pt_place clk o' B (e_localSeq e) (e_sequence e))))" and "reachable e'"
proof -
  obtain c B' where p: "pt_place clk o' B (e_localSeq e) (e_sequence e) = (c, None, B')"
    using assms(4) by (metis prod.collapse)
  from place_refines [OF assms(2) p] obtain r e' where
    q: "PlaceOrder clk (Some o') e = Some (r, None, e')" "result_abs r e' c" "engine_abs e' B'" by blast
  show thesis using that [OF q(1)] q(2,3) r_place [OF assms(1,3) q(1)] by (simp add: p)
qed

lemma ex_engine: "\<exists>e. reachable e \<and> engine_abs e ex_books \<and> e_localSeq e = 0 \<and> e_sequence e = 0"
proof -
  have n: "e_localSeq New = 0" "e_sequence New = 0" by (simp_all add: New_def)
  have f: "fresh ex_ask1" "fresh ex_ask2" by code_simp+
  obtain r e where a: "engine_abs e ex_books1" "reachable e" "e_localSeq e = 0" "e_sequence e = 0"
    using place_spec [OF r_new engine_abs_New f(1), of ex_clock] by (auto simp: n ex_place1 result_abs_def)
  show ?thesis
    using place_spec [OF a(2,1) f(2), of ex_clock] by (auto simp: a(3,4) ex_place2 result_abs_def)
qed

lemma ex_place:
  assumes "fresh o'" and "fst (snd (pt_place ex_clock o' ex_books 0 0)) = None"
  obtains e r e' where "reachable e" and "engine_abs e ex_books" and "PlaceOrder ex_clock (Some o') e = Some (r, None, e')"
    and "r_Trades r = k_trades (fst (pt_place ex_clock o' ex_books 0 0))"
    and "r_Order r = Some (k_order (fst (pt_place ex_clock o' ex_books 0 0)))"
    and "engine_abs e' (snd (snd (pt_place ex_clock o' ex_books 0 0)))"
proof -
  obtain e where e: "reachable e" "engine_abs e ex_books" "e_localSeq e = 0" "e_sequence e = 0" using ex_engine by blast
  have "fst (snd (pt_place ex_clock o' ex_books (e_localSeq e) (e_sequence e))) = None" using assms(2) e by simp
  from place_spec [OF e(1,2) assms(1) this] obtain r e' where
    p: "PlaceOrder ex_clock (Some o') e = Some (r, None, e')"
    "result_abs r e' (fst (pt_place ex_clock o' ex_books 0 0))" "engine_abs e' (snd (snd (pt_place ex_clock o' ex_books 0 0)))"
    unfolding e(3,4) by blast
  show thesis by (rule that [OF e(1,2) p(1) _ _ p(3)]) (use p(2) in \<open>simp_all add: result_abs_def\<close>)
qed

lemma ex_bid_ok: "fresh ex_bid" "fst (snd (pt_place ex_clock ex_bid ex_books 0 0)) = None"
  "map t_Quantity (k_trades (fst (pt_place ex_clock ex_bid ex_books 0 0))) = [10]"
  "map t_Price (k_trades (fst (pt_place ex_clock ex_bid ex_books 0 0))) = [40]"
  by code_simp+

lemma ex_bid_run:
  obtains e r e' where "reachable e" and "engine_abs e ex_books" and "PlaceOrder ex_clock (Some ex_bid) e = Some (r, None, e')"
    and "map t_Quantity (r_Trades r) = [10]" and "map t_Price (r_Trades r) = [40]"
    and "engine_abs e' (snd (snd (pt_place ex_clock ex_bid ex_books 0 0)))"
  by (rule ex_place [OF ex_bid_ok(1,2)]) (use ex_bid_ok in simp)

section \<open>The engine always answers\<close>

text \<open>
  C1. Every operation of the engine returns on every reachable engine: no index out of range,
  no nil dereference and no endless loop through the pools, buckets and bitmaps, and the engine
  it leaves is reachable again, so the next operation returns too.
\<close>

theorem operations_return:
  assumes "reachable e" and "fresh o'" and "fill_ok o2" and "newQty \<le> MaxInt64"
  shows "(\<exists>r err e'. PlaceOrder clk (Some o') e = Some (r, err, e') \<and> reachable e') \<and>
    (\<exists>r err e'. CancelOrders now cs reason e = Some (r, err, e') \<and> reachable e') \<and>
    (\<exists>r err e'. AmendOrder clk now (Some o3) newPrice newQty e = Some (r, err, e') \<and> reachable e') \<and>
    (\<exists>err e'. RestoreOrder (Some o2) e = Some (err, e') \<and> reachable e')"
proof -
  note inv = reachable_inv [OF assms(1)]
  show ?thesis
    using place_step [OF inv assms(2), of clk] cancel_step [OF inv, of now cs reason]
      amend_step [OF inv assms(4), of clk now o3 newPrice] restore_step [OF inv assms(3)]
      r_place [OF assms(1,2)] r_cancel [OF assms(1)] r_amend [OF assms(1,4)] r_restore [OF assms(1,3)]
    by metis
qed

theorem operations_return_witness:
  "\<exists>r err e'. PlaceOrder ex_clock (Some ex_bid) New = Some (r, err, e') \<and> reachable e'"
proof -
  have "fill_ok ex_bid" by code_simp
  then show ?thesis
    using operations_return [OF r_new ex_bid_ok(1), of ex_bid 5 ex_clock 0 "[]" "''''" ex_bid 60] by simp
qed

text \<open>
  C2. In every reachable engine each book is a well-formed price-time book: its pointer lists,
  bitmaps, best prices and index agree (\<open>book_abs\<close>), both sides are sorted by price, order
  identifiers are unique, and every resting order belongs to this book and still has quantity
  left.
\<close>

theorem books_well_formed:
  assumes "reachable e" and "map_of (books e) k = Some ob"
  shows "\<exists>A. book_abs ob A \<and> pt_shape A \<and> ob_Key ob = k \<and>
    (\<forall>s. \<forall>d\<in>set (A s). d_BookKey d = k \<and> 0 \<le> d_FilledQuantity d \<and> d_FilledQuantity d < d_Quantity d)"
proof -
  obtain B where B: "engine_abs e B" "wf_books B" using reachable_inv [OF assms(1)] by (auto simp: engine_inv_def)
  note A = engine_absD(3,4) [OF B(1) assms(2)]
  have "\<forall>s. \<forall>d\<in>set (B k s). d_BookKey d = k \<and> 0 \<le> d_FilledQuantity d \<and> d_FilledQuantity d < d_Quantity d"
    using B(2) by (auto simp: wf_books_def d_open_iff)
  then show ?thesis using A book_abs_shape [OF A(1)] by blast
qed

theorem books_well_formed_witness:
  "\<exists>e ob A. reachable e \<and> map_of (books e) ''7:YES'' = Some ob \<and> book_abs ob A \<and> pt_shape A \<and> A False \<noteq> []"
proof -
  obtain e where e: "reachable e" "engine_abs e ex_books" using ex_engine by blast
  have ne: "ex_books ''7:YES'' False \<noteq> []" by code_simp
  then have "ex_books ''7:YES'' \<noteq> pt_empty" by (auto simp: pt_empty_def)
  then obtain ob where ob: "map_of (books e) ''7:YES'' = Some ob" using engine_absD(2) [OF e(2)] by fastforce
  obtain A where A: "book_abs ob A" "pt_shape A" using books_well_formed [OF e(1) ob] by blast
  then have "A = ex_books ''7:YES''" using book_abs_unique engine_absD(3) [OF e(2) ob] by blast
  then show ?thesis using e(1) ob A ne by blast
qed

section \<open>Quantities, prices and priority\<close>

text \<open>
  C5. Placing an order conserves quantity: what the returned order counts as filled is the sum of
  its trades, every trade has a positive quantity, and the order is never filled beyond its
  quantity.
\<close>

theorem place_conserves_quantity:
  assumes "reachable e" and "fresh o'" and "PlaceOrder clk (Some o') e = Some (r, None, e')"
  shows "\<exists>o1. r_Order r = Some o1 \<and> same_order o' o1 \<and> o_FilledQuantity o1 = trade_qty (r_Trades r) \<and>
    trade_qty (r_Trades r) \<le> o_Quantity o' \<and> (\<forall>t\<in>set (r_Trades r). 0 < t_Quantity t)"
proof -
  obtain B where B: "engine_abs e B" using reachable_inv [OF assms(1)] by (auto simp: engine_inv_def)
  obtain c o1 where f: "r_Order r = Some o1" "same_order o' o1" "fill_ok o1"
    "trades_of_run (BookKey o') (core0 (accepted o') (e_localSeq e) (e_sequence e)) (makers_for o' B) c (r_Trades r)"
    "k_order c = o1"
    using placed_trades [OF assms(1) B assms(2,3)] by metis
  have "o_FilledQuantity o1 = trade_qty (r_Trades r)"
    using f(4,5) assms(2) by (simp add: trades_of_run_def fresh_def)
  moreover have "o_Quantity o1 = o_Quantity o'" using f(2) by (simp add: same_order_def)
  moreover have "\<forall>t\<in>set (r_Trades r). 0 < t_Quantity t"
    using f(4) by (auto simp: trades_of_run_def trade_of_def)
  ultimately show ?thesis using f(1-3) by (auto simp: fill_ok_def)
qed

theorem place_conserves_quantity_witness:
  "\<exists>e r e' o1. PlaceOrder ex_clock (Some ex_bid) e = Some (r, None, e') \<and> r_Order r = Some o1 \<and> o_FilledQuantity o1 = 10"
proof -
  obtain e r e' where x: "reachable e" "PlaceOrder ex_clock (Some ex_bid) e = Some (r, None, e')" "map t_Quantity (r_Trades r) = [10]"
    using ex_bid_run by metis
  show ?thesis
    using place_conserves_quantity [OF x(1) ex_bid_ok(1) x(2)] x(2,3) by (auto simp: trade_qty_def)
qed



text \<open>
  C15. No trade has the same user on both sides, whatever the self-trade strategy of the order.
\<close>

theorem no_self_trade:
  assumes "reachable e" and "fresh o'" and "PlaceOrder clk (Some o') e = Some (r, None, e')" and "t \<in> set (r_Trades r)"
  shows "t_TakerUserID t = o_UserID o' \<and> t_MakerUserID t \<noteq> t_TakerUserID t"
proof -
  obtain B where B: "engine_abs e B" using reachable_inv [OF assms(1)] by (auto simp: engine_inv_def)
  obtain c where
    "trades_of_run (BookKey o') (core0 (accepted o') (e_localSeq e) (e_sequence e)) (makers_for o' B) c (r_Trades r)"
    using placed_trades [OF assms(1) B assms(2,3)] by metis
  then obtain d where "trade_of (BookKey o') (accepted o') d t" using assms(4) by (auto simp: trades_of_run_def)
  then show ?thesis by (simp add: trade_of_def)
qed

theorem no_self_trade_witness:
  "\<exists>e r e' t. reachable e \<and> PlaceOrder ex_clock (Some ex_bid) e = Some (r, None, e') \<and> r_Trades r = [t] \<and>
    t_TakerUserID t = 2 \<and> t_MakerUserID t \<noteq> t_TakerUserID t"
proof -
  obtain e r e' where x: "reachable e" "PlaceOrder ex_clock (Some ex_bid) e = Some (r, None, e')" "map t_Quantity (r_Trades r) = [10]"
    using ex_bid_run by metis
  obtain t where t: "r_Trades r = [t]" using x(3) by auto
  have "o_UserID ex_bid = 2" by code_simp
  then show ?thesis
    using no_self_trade [OF x(1) ex_bid_ok(1) x(2), of t] x(1,2) t by auto
qed

section \<open>Books stay uncrossed\<close>

text \<open>
  Two orders of different users on the two sides of a book never cross. (Orders of one user may:
  without a cancelling self-trade strategy the engine steps over the user's own orders.)
\<close>

definition uncrossed :: "ptbook \<Rightarrow> bool" where
  "uncrossed A \<longleftrightarrow>
     (\<forall>b\<in>set (A True). \<forall>a\<in>set (A False). d_UserID a \<noteq> d_UserID b \<longrightarrow> d_Price b < d_Price a)"

lemma uncrossed_sub:
  assumes "uncrossed A" and "\<And>s d'. d' \<in> set (A' s) \<Longrightarrow> \<exists>d\<in>set (A s). same_maker d d'"
  shows "uncrossed A'"
  unfolding uncrossed_def
proof (intro ballI impI)
  fix b' a' assume m: "b' \<in> set (A' True)" "a' \<in> set (A' False)" "d_UserID a' \<noteq> d_UserID b'"
  then obtain b a where ba: "b \<in> set (A True)" "same_maker b b'" "a \<in> set (A False)" "same_maker a a'"
    using assms(2) by meson
  have "d_UserID a \<noteq> d_UserID b" using ba(2,4) m(3) by (simp add: same_maker_def)
  then have "d_Price b < d_Price a" using assms(1) ba(1,3) by (simp add: uncrossed_def)
  then show "d_Price b' < d_Price a'" using ba(2,4) by (simp add: same_maker_def)
qed

lemma uncrossed_add:
  assumes "uncrossed A" and "\<And>d. d \<in> set (A (\<not> IsBuy o')) \<Longrightarrow> crosses o' d \<Longrightarrow> d_UserID d = o_UserID o'"
  shows "uncrossed (pt_add o' A)"
proof -
  have "d_Price (FromOrder o') = o_Price o'" "d_UserID (FromOrder o') = o_UserID o'" by (simp_all add: order_simps)
  then show ?thesis
    using assms by (cases "IsBuy o'") (fastforce simp: uncrossed_def set_pt_add crosses_def)+
qed

lemma pt_match_left:
  assumes "pt_match clk o' A ls sq = (c, A1)" and "fill_ok o'" and "book_wf k A"
  shows "d' \<in> set (A1 s) \<Longrightarrow> \<exists>d\<in>set (A s). same_maker d d'"
    and "\<lbrakk>RemainingQuantity (k_order c) \<noteq> 0; o_Status (k_order c) \<noteq> OrderStatusCancelled;
      d \<in> set (A1 (\<not> IsBuy o')); crosses o' d\<rbrakk> \<Longrightarrow> d_UserID d = o_UserID o'"
proof -
  obtain rest where v: "vrun clk (BookKey o') (o_STPStrategy o') (filter (crosses o') (A (\<not> IsBuy o'))) (core0 o' ls sq) c rest"
    and A1: "A1 = A(\<not> IsBuy o' := rest @ filter (\<lambda>d. \<not> crosses o' d) (A (\<not> IsBuy o')))"
    using pt_match_run [OF assms] by blast
  have fo: "fill_ok (k_order (core0 o' ls sq))" using assms(2) by simp
  have od: "\<forall>d\<in>set (filter (crosses o') (A (\<not> IsBuy o'))). d_open d"
    using assms(3) by (auto simp: book_wf_def)
  have R: "\<forall>r\<in>set rest. \<exists>d\<in>set (A (\<not> IsBuy o')). same_maker d r"
    using vrun_rest [OF v fo od] by fastforce
  show "d' \<in> set (A1 s) \<Longrightarrow> \<exists>d\<in>set (A s). same_maker d d'"
    using R by (cases "s = (\<not> IsBuy o')") (auto simp: A1 intro: bexI [where x = d'])
  assume a: "RemainingQuantity (k_order c) \<noteq> 0" "o_Status (k_order c) \<noteq> OrderStatusCancelled"
    "d \<in> set (A1 (\<not> IsBuy o'))" "crosses o' d"
  have "k_active c"
    using a(1,2) vrun_done(1) [OF v] RemainingQuantity_nonneg [of "k_order c"] by (auto simp: k_active_def order.strict_iff_order)
  then have "\<forall>r\<in>set rest. d_UserID r = o_UserID (k_order c)" by (rule vrun_exhausts [OF v fo od])
  moreover have "same_order o' (k_order c)" using vrun_order(1) [OF v fo od] by simp
  ultimately show "d_UserID d = o_UserID o'" using a(3,4) by (auto simp: A1 same_order_def)
qed

lemma crosses_same: "same_order a b \<Longrightarrow> crosses b = crosses a \<and> IsBuy b = IsBuy a"
  by (simp add: same_order_def crosses_def IsBuy_def fun_eq_iff)

lemma pt_process_uncrossed:
  assumes pp: "pt_process clk o' A ls sq = (c, A')" and op: "open_order o'" and wf: "book_wf (BookKey o') A"
    and un: "uncrossed A"
  shows "uncrossed A'"
proof -
  have fo: "fill_ok o'" using op by (simp add: open_order_def)
  obtain c1 A1 where pm: "pt_match clk o' A ls sq = (c1, A1)" by fastforce
  note L = pt_match_left [OF pm fo wf] and S = crosses_same [OF pt_match_facts(1) [OF pm fo wf]]
  have u1: "uncrossed A1" using uncrossed_sub [OF un] L(1) by blast
  have "uncrossed (pt_add (k_order c1) A1)"
    if "RemainingQuantity (k_order c1) \<noteq> 0" "o_Status (k_order c1) \<noteq> OrderStatusCancelled"
    using L(2) [OF that] S pt_match_facts(1) [OF pm fo wf]
    by (intro uncrossed_add [OF u1]) (simp add: same_order_def)
  moreover have "uncrossed (pt_add o' A)" if "filter (crosses o') (A (\<not> IsBuy o')) = []"
    using uncrossed_add [OF un] that by (auto simp: filter_empty_conv)
  ultimately show ?thesis
    using pp un u1 by (auto simp: pt_process_def pm Let_def split: if_splits)
qed



section \<open>Time in force\<close>

lemma pt_ids_sub:
  assumes "\<And>s d'. d' \<in> set (A' s) \<Longrightarrow> \<exists>d\<in>set (A s). same_maker d d'"
  shows "pt_ids A' \<subseteq> pt_ids A"
proof -
  have "d_OrderID d' \<in> d_OrderID ` set (A s)" if "d' \<in> set (A' s)" for d' s
    using assms [OF that] by (metis image_eqI same_maker_def)
  then show ?thesis unfolding pt_ids_def by fastforce
qed

lemma pt_process_tif:
  assumes pp: "pt_process clk o' A ls sq = (c, A')" and op: "open_order o'" and wf: "book_wf (BookKey o') A"
    and new: "o_OrderID o' \<notin> pt_ids A"
  shows "o_TimeInForce o' = TimeInForcePostOnly \<Longrightarrow> k_trades c = []"
    and "o_TimeInForce o' \<in> {TimeInForceIOC, TimeInForceFOK} \<Longrightarrow> o_OrderID o' \<notin> pt_ids A'"
    and "o_TimeInForce o' = TimeInForceIOC \<Longrightarrow> RemainingQuantity (k_order c) = 0 \<or> o_Status (k_order c) = OrderStatusCancelled"
proof -
  have fo: "fill_ok o'" using op by (simp add: open_order_def)
  obtain c1 A1 where pm: "pt_match clk o' A ls sq = (c1, A1)" by fastforce
  have A1: "o_OrderID o' \<notin> pt_ids A1"
    using pt_ids_sub [of A1 A] pt_match_left(1) [OF pm fo wf] new by blast
  have tif: "o_TimeInForce (k_order c1) = o_TimeInForce o'"
    using pt_match_facts(1) [OF pm fo wf] by (simp add: same_order_def)
  show "o_TimeInForce o' = TimeInForcePostOnly \<Longrightarrow> k_trades c = []"
    using pp by (auto simp: pt_process_def Let_def split: if_splits)
  show "o_TimeInForce o' \<in> {TimeInForceIOC, TimeInForceFOK} \<Longrightarrow> o_OrderID o' \<notin> pt_ids A'"
    using pp pm A1 new tif by (auto simp: pt_process_def Let_def split: if_splits)
  show "o_TimeInForce o' = TimeInForceIOC \<Longrightarrow> RemainingQuantity (k_order c) = 0 \<or> o_Status (k_order c) = OrderStatusCancelled"
    using pp pm tif by (auto simp: pt_process_def Let_def order_simps split: if_splits)
qed

text \<open>
  C17. The time in force is respected: a post-only order never trades, immediate-or-cancel and
  fill-or-kill orders never rest in a book, and an immediate-or-cancel order ends filled or
  cancelled.
\<close>

theorem time_in_force_respected:
  assumes "reachable e" and "fresh o'" and "PlaceOrder clk (Some o') e = Some (r, None, e')" and "engine_abs e' B'"
  shows "(o_TimeInForce o' = TimeInForcePostOnly \<longrightarrow> r_Trades r = []) \<and>
    (o_TimeInForce o' \<in> {TimeInForceIOC, TimeInForceFOK} \<longrightarrow> o_OrderID o' \<notin> pt_ids (B' (BookKey o'))) \<and>
    (o_TimeInForce o' = TimeInForceIOC \<longrightarrow>
       (\<exists>o1. r_Order r = Some o1 \<and> (RemainingQuantity o1 = 0 \<or> o_Status o1 = OrderStatusCancelled)))"
proof -
  obtain B where B: "engine_abs e B" using reachable_inv [OF assms(1)] by (auto simp: engine_inv_def)
  obtain c A where p: "pt_process clk (accepted o') (B (BookKey o')) (e_localSeq e) (e_sequence e) = (c, A)"
    "open_order (accepted o')" "book_wf (BookKey (accepted o')) (B (BookKey o'))" "o_OrderID o' \<notin> pt_ids (B (BookKey o'))"
    "result_abs r e' c" "engine_abs e' (B(BookKey o' := A))"
    using placed [OF assms(1) B assms(2,3)] by metis
  have "B' = B(BookKey o' := A)" by (rule engine_abs_unique [OF assms(4) p(6)])
  then show ?thesis
    using pt_process_tif [OF p(1-3)] p(4,5) by (auto simp: result_abs_def)
qed

theorem time_in_force_respected_witness:
  "\<exists>e r e' o1. reachable e \<and> PlaceOrder ex_clock (Some ex_ioc) e = Some (r, None, e') \<and> r_Order r = Some o1 \<and>
    length (r_Trades r) = 1 \<and> (RemainingQuantity o1 = 0 \<or> o_Status o1 = OrderStatusCancelled)"
proof -
  have f: "fresh ex_ioc" "fst (snd (pt_place ex_clock ex_ioc ex_books 0 0)) = None" by code_simp+
  have l: "length (k_trades (fst (pt_place ex_clock ex_ioc ex_books 0 0))) = 1" by code_simp
  obtain e r e' where x: "reachable e" "PlaceOrder ex_clock (Some ex_ioc) e = Some (r, None, e')" "length (r_Trades r) = 1"
    "engine_abs e' (snd (snd (pt_place ex_clock ex_ioc ex_books 0 0)))"
    by (rule ex_place [OF f]) (use l in simp)
  have "o_TimeInForce ex_ioc = TimeInForceIOC" by code_simp
  then show ?thesis using time_in_force_respected [OF x(1) f(1) x(2,4)] x(1-3) by auto
qed

text \<open>
  C16. A fill-or-kill order is all or nothing, when its self-trade strategy is one of the three the
  engine knows or the user has no crossing order of their own: either it is filled completely, or
  it is cancelled without a trade and the books are unchanged.
\<close>

theorem fill_or_kill_all_or_nothing:
  assumes "reachable e" and "engine_abs e B" and "fresh o'" and "PlaceOrder clk (Some o') e = Some (r, None, e')"
    and "o_TimeInForce o' = TimeInForceFOK" and "stp_decided o' (makers_for o' B)"
  shows "\<exists>o1. r_Order r = Some o1 \<and>
    (trade_qty (r_Trades r) = o_Quantity o' \<and> o_FilledQuantity o1 = o_Quantity o' \<or>
     r_Trades r = [] \<and> o_Status o1 = OrderStatusCancelled \<and> engine_abs e' B)"
proof -
  obtain c A where p: "pt_process clk (accepted o') (B (BookKey o')) (e_localSeq e) (e_sequence e) = (c, A)"
    "open_order (accepted o')" "book_wf (BookKey (accepted o')) (B (BookKey o'))"
    "result_abs r e' c" "engine_abs e' (B(BookKey o' := A))"
    using placed [OF assms(1-4)] by metis
  note F = pt_process_facts [OF p(1-3)]
  have fo: "fill_ok (accepted o')" using p(2) by (simp add: open_order_def)
  let ?ds = "filter (crosses o') (B (BookKey o') (\<not> IsBuy o'))"
  have r: "r_Order r = Some (k_order c)" "r_Trades r = k_trades c" using p(4) by (simp_all add: result_abs_def)
  show ?thesis
  proof (cases "?ds = [] \<or> vfok (accepted o') ?ds (RemainingQuantity o') \<noteq> (False, 0)")
    case True
    then have "c = core0 (Cancel CancelReasonFOKNotFilled (accepted o')) (e_localSeq e) (e_sequence e)" "A = B (BookKey o')"
      using p(1) assms(5) by (auto simp: pt_process_def)
    then show ?thesis using r p(5) by (simp add: order_simps)
  next
    case False
    then have pm: "pt_match clk (accepted o') (B (BookKey o')) (e_localSeq e) (e_sequence e) = (c, A)"
      using p(1) assms(5) by (auto simp: pt_process_def)
    obtain rest where v: "vrun clk (BookKey o') (o_STPStrategy o') ?ds (core0 (accepted o') (e_localSeq e) (e_sequence e)) c rest"
      using pt_match_run [OF pm fo p(3)] by auto
    have "RemainingQuantity (k_order c) = 0"
      using vfok_fills [OF v, of "accepted o'"] fo p(3) False assms(6)
      by (auto simp: book_wf_def stp_decided_def makers_for_def)
    then have "o_FilledQuantity (k_order c) = o_Quantity (k_order c)"
      using F(2) by (auto simp: RemainingQuantity_eq fill_ok_def)
    moreover have "o_FilledQuantity (k_order c) = trade_qty (k_trades c)"
      using F(4) assms(3) by (simp add: trades_of_run_def fresh_def)
    ultimately show ?thesis using r F(1) by (simp add: same_order_def)
  qed
qed

theorem fill_or_kill_all_or_nothing_witness:
  "\<exists>e r e'. reachable e \<and> PlaceOrder ex_clock (Some ex_fok) e = Some (r, None, e') \<and> trade_qty (r_Trades r) = 12"
proof -
  have f: "fresh ex_fok" "fst (snd (pt_place ex_clock ex_fok ex_books 0 0)) = None" by code_simp+
  have l: "length (k_trades (fst (pt_place ex_clock ex_fok ex_books 0 0))) = 2" by code_simp
  obtain e r e' where x: "reachable e" "engine_abs e ex_books" "PlaceOrder ex_clock (Some ex_fok) e = Some (r, None, e')"
    "length (r_Trades r) = 2"
    by (rule ex_place [OF f]) (use l in simp)
  have s: "o_TimeInForce ex_fok = TimeInForceFOK" "stp_decided ex_fok (makers_for ex_fok ex_books)" "o_Quantity ex_fok = 12"
    by code_simp+
  show ?thesis
    using fill_or_kill_all_or_nothing [OF x(1,2) f(1) x(3) s(1,2)] x(1,3,4) s(3) by auto
qed

definition ex_fok_own :: Order where "ex_fok_own = ex_order ''b4'' 1 OrderSideBuy 50 12 TimeInForceFOK STPNone"


section \<open>Makers and trade numbers\<close>

lemma makers_account_append:
  assumes "makers_account u ds rest ts" and "\<And>d. d \<in> set ds \<Longrightarrow> d_OrderID d \<notin> d_OrderID ` set others"
  shows "makers_account u ds (rest @ others) ts"
  unfolding makers_account_def
proof
  fix d assume d: "d \<in> set ds"
  then have "(\<exists>r\<in>set rest. same_maker d r \<and> d_FilledQuantity r = d_FilledQuantity d + taken (d_OrderID d) ts) \<or>
      d_OrderID d \<notin> d_OrderID ` set rest \<and> (taken (d_OrderID d) ts = d_RemainingQuantity d \<or>
        d_UserID d = u \<and> taken (d_OrderID d) ts = 0)"
    using assms(1) by (simp add: makers_account_def)
  then show "(\<exists>r\<in>set (rest @ others). same_maker d r \<and> d_FilledQuantity r = d_FilledQuantity d + taken (d_OrderID d) ts) \<or>
      d_OrderID d \<notin> d_OrderID ` set (rest @ others) \<and> (taken (d_OrderID d) ts = d_RemainingQuantity d \<or>
        d_UserID d = u \<and> taken (d_OrderID d) ts = 0)"
    using assms(2) [OF d] by auto
qed

lemma crosses_maker: "same_maker d r \<Longrightarrow> crosses o' r = crosses o' d"
  by (simp add: same_maker_def crosses_def)

lemma pt_match_account:
  assumes pm: "pt_match clk o' A ls sq = (c, A1)" and fo: "fill_ok o'" and wf: "book_wf k A" and sh: "pt_shape A"
  shows "makers_account (o_UserID o') (filter (crosses o') (A (\<not> IsBuy o'))) (A1 (\<not> IsBuy o')) (k_trades c)"
    and "filter (\<lambda>d. \<not> crosses o' d) (A1 (\<not> IsBuy o')) = filter (\<lambda>d. \<not> crosses o' d) (A (\<not> IsBuy o'))"
    and "A1 (IsBuy o') = A (IsBuy o')"
proof -
  let ?ds = "filter (crosses o') (A (\<not> IsBuy o'))" and ?others = "filter (\<lambda>d. \<not> crosses o' d) (A (\<not> IsBuy o'))"
  obtain rest where v: "vrun clk (BookKey o') (o_STPStrategy o') ?ds (core0 o' ls sq) c rest"
    and A1: "A1 = A(\<not> IsBuy o' := rest @ ?others)"
    using pt_match_run [OF pm fo wf] by blast
  have fo': "fill_ok (k_order (core0 o' ls sq))" using fo by simp
  have od: "\<forall>d\<in>set ?ds. d_open d" using wf by (auto simp: book_wf_def)
  have dis: "distinct (map d_OrderID (A (\<not> IsBuy o')))" using pt_shape_distinct [OF sh, of "\<lambda>_. True"] by simp
  obtain ts where ts: "trades_of_run (BookKey o') (core0 o' ls sq) ?ds c ts"
    "makers_account (o_UserID (k_order (core0 o' ls sq))) ?ds rest ts"
    using vrun_account [OF v fo' od pt_shape_distinct [OF sh]] by blast
  have "k_trades c = ts" using ts(1) by (simp add: trades_of_run_def)
  then have acc: "makers_account (o_UserID o') ?ds rest (k_trades c)" using ts(2) by simp
  have "d_OrderID d \<notin> d_OrderID ` set ?others" if "d \<in> set ?ds" for d
    using that dis by (auto simp: distinct_map dest: inj_onD)
  then have "makers_account (o_UserID o') ?ds (rest @ ?others) (k_trades c)" by (rule makers_account_append [OF acc])
  then show "makers_account (o_UserID o') ?ds (A1 (\<not> IsBuy o')) (k_trades c)" by (simp add: A1)
  have "\<forall>r\<in>set rest. crosses o' r" using vrun_rest [OF v fo' od] crosses_maker by fastforce
  then have "filter (\<lambda>d. \<not> crosses o' d) rest = []" by (simp add: filter_empty_conv)
  then show "filter (\<lambda>d. \<not> crosses o' d) (A1 (\<not> IsBuy o')) = ?others" by (simp add: A1)
  show "A1 (IsBuy o') = A (IsBuy o')" by (simp add: A1)
qed

lemma pt_add_other [simp]: "IsBuy o' = s \<Longrightarrow> pt_add o' A (\<not> s) = A (\<not> s)" "IsBuy o' = (\<not> s) \<Longrightarrow> pt_add o' A s = A s"
  by (simp_all add: pt_add_def)

lemma pt_process_account:
  assumes pp: "pt_process clk o' A ls sq = (c, A')" and op: "open_order o'" and wf: "book_wf (BookKey o') A"
    and sh: "pt_shape A"
  shows "makers_account (o_UserID o') (filter (crosses o') (A (\<not> IsBuy o'))) (A' (\<not> IsBuy o')) (k_trades c)"
    and "filter (\<lambda>d. \<not> crosses o' d) (A' (\<not> IsBuy o')) = filter (\<lambda>d. \<not> crosses o' d) (A (\<not> IsBuy o'))"
proof -
  have fo: "fill_ok o'" using op by (simp add: open_order_def)
  obtain c1 A1 where pm: "pt_match clk o' A ls sq = (c1, A1)" by fastforce
  note M = pt_match_account [OF pm fo wf sh]
  have b: "IsBuy (k_order c1) = IsBuy o'" using crosses_same pt_match_facts(1) [OF pm fo wf] by blast
  have un: "makers_account (o_UserID o') (filter (crosses o') (A (\<not> IsBuy o'))) (A (\<not> IsBuy o')) []"
    unfolding makers_account_def by (intro ballI disjI1 bexI) auto
  have "A' (\<not> IsBuy o') = A (\<not> IsBuy o') \<and> k_trades c = [] \<or> A' (\<not> IsBuy o') = A1 (\<not> IsBuy o') \<and> k_trades c = k_trades c1"
    using pp by (auto simp: pt_process_def pm Let_def b split: if_splits)
  then show "makers_account (o_UserID o') (filter (crosses o') (A (\<not> IsBuy o'))) (A' (\<not> IsBuy o')) (k_trades c)"
    and "filter (\<lambda>d. \<not> crosses o' d) (A' (\<not> IsBuy o')) = filter (\<lambda>d. \<not> crosses o' d) (A (\<not> IsBuy o'))"
    using M(1,2) un by auto
qed

lemma engine_abs_shape: "engine_abs e B \<Longrightarrow> pt_shape (B k)"
  using engine_absD(2,3) [of e B k] book_abs_shape book_abs_New by (cases "map_of (books e) k") (metis, auto)





section \<open>Cancelling, amending and rejecting\<close>

text \<open>The orders a cancellation names, by book and identifier.\<close>

definition named :: "Order option list \<Rightarrow> (string \<times> string) set" where
  "named cs = {(BookKey c, o_OrderID c) | c. Some c \<in> set cs}"

lemma named_simps [simp]: "named [] = {}" "named (None # cs) = named cs"
  "named (Some c # cs) = insert (BookKey c, o_OrderID c) (named cs)"
  by (auto simp: named_def)

definition without :: "(string \<times> string) set \<Rightarrow> ptbooks \<Rightarrow> ptbooks" where
  "without K B = (\<lambda>k s. filter (\<lambda>d. (k, d_OrderID d) \<notin> K) (B k s))"

lemma without_empty [simp]: "without {} B = B"
  by (simp add: without_def)

lemma without_insert: "without K (B(k := pt_remove i (B k))) = without (insert (k, i) K) B"
  by (auto simp: without_def pt_remove_def fun_eq_iff intro!: filter_cong)

lemma without_absent: "i \<notin> pt_ids (B k) \<Longrightarrow> without (insert (k, i) K) B = without K B"
proof (intro ext)
  fix k' s assume "i \<notin> pt_ids (B k)"
  then have "d_OrderID d \<noteq> i" if "d \<in> set (B k s)" for d using that by (cases s) (auto simp: pt_ids_def)
  then show "without (insert (k, i) K) B k' s = without K B k' s"
    by (auto simp: without_def intro: filter_cong)
qed

lemma find_ids: "find (\<lambda>d. d_OrderID d = i) (A True @ A False) = None \<longleftrightarrow> i \<notin> pt_ids A"
  by (auto simp: find_None_iff pt_ids_def image_iff)

text \<open>The identity of a returned order, and that it says it was cancelled and why.\<close>

definition order_key :: "Order \<Rightarrow> string \<times> string" where
  "order_key o' = (BookKey o', o_OrderID o')"

definition cancelled_with :: "CancelReason \<Rightarrow> i64 \<Rightarrow> Order \<Rightarrow> bool" where
  "cancelled_with reason now o' \<longleftrightarrow>
     o_Status o' = OrderStatusCancelled \<and> o_CancelReason o' = reason \<and> o_UpdatedAtMillis o' = now"

lemma cancelled_at_facts:
  "cancelled_with reason now (ToOrder (cancelled_at reason now d))"
  "order_key (ToOrder (cancelled_at reason now d)) = (d_BookKey d, d_OrderID d)"
  by (simp_all add: cancelled_with_def cancelled_at_def order_key_def BookKey_def d_BookKey_def ToOrder_def d_Cancel_def)

lemma pt_cancel_spec:
  assumes "pt_cancel reason now cs B = (os, B')" and "wf_books B"
  shows "B' = without (named cs) B \<and> (\<forall>o'\<in>set os. cancelled_with reason now o') \<and>
    order_key ` set os = {(k, i). (k, i) \<in> named cs \<and> i \<in> pt_ids (B k)}"
  using assms
proof (induction cs arbitrary: B os)
  case (Cons m cs)
  show ?case
  proof (cases m)
    case None
    then show ?thesis using Cons by simp
  next
    case m: (Some c)
    let ?k = "BookKey c" and ?i = "o_OrderID c"
    show ?thesis
    proof (cases "find (\<lambda>d. d_OrderID d = ?i) (B ?k True @ B ?k False)")
      case None
      then have "?i \<notin> pt_ids (B ?k)" by (simp add: find_ids)
      then have "without (named (Some c # cs)) B = without (named cs) B"
        "{(k, i). (k, i) \<in> named (Some c # cs) \<and> i \<in> pt_ids (B k)} = {(k, i). (k, i) \<in> named cs \<and> i \<in> pt_ids (B k)}"
        by (auto simp: without_absent)
      moreover have "pt_cancel reason now cs B = (os, B')" using Cons.prems(1) None by (simp add: m Let_def)
      ultimately show ?thesis using Cons.IH [OF _ Cons.prems(2)] unfolding m by simp
    next
      case (Some d)
      have dm: "d \<in> set (B ?k True @ B ?k False)" and di: "d_OrderID d = ?i"
        using Some by (auto simp: find_Some_iff in_set_conv_nth simp del: set_append)
      have d: "d_open d" "d_BookKey d = ?k" using dm Cons.prems(2) by (auto simp: wf_books_def)
      let ?B = "B(?k := pt_remove ?i (B ?k))"
      obtain os1 where os1: "pt_cancel reason now cs ?B = (os1, B')"
        "os = ToOrder (cancelled_at reason now d) # os1"
        using Cons.prems(1) Some d(1) by (auto simp: m Let_def d_open_def split: prod.splits)
      have "wf_books ?B" using Cons.prems(2) by (auto simp: wf_books_wf book_wf_remove)
      note IH = Cons.IH [OF os1(1) this]
      have "?i \<in> pt_ids (B ?k)" using Some find_ids [of ?i "B ?k"] by simp
      moreover have "pt_ids (pt_remove ?i (B ?k)) = pt_ids (B ?k) - {?i}"
        by (auto simp: pt_ids_def pt_remove_def)
      ultimately have keys: "insert (?k, ?i) {(k, i). (k, i) \<in> named cs \<and> i \<in> pt_ids (?B k)} =
          {(k, i). (k, i) \<in> named (Some c # cs) \<and> i \<in> pt_ids (B k)}"
        by (simp add: set_eq_iff) (metis Diff_iff singletonD)
      have "order_key ` set os = insert (?k, ?i) (order_key ` set os1)"
        using di d(2) by (simp add: os1(2) cancelled_at_facts)
      then have "order_key ` set os = {(k, i). (k, i) \<in> named (Some c # cs) \<and> i \<in> pt_ids (B k)}"
        using IH keys by simp
      moreover have "B' = without (named (Some c # cs)) B"
        unfolding named_simps without_insert [symmetric] by (rule conjunct1 [OF IH])
      moreover have "\<forall>o'\<in>set os. cancelled_with reason now o'" using IH by (simp add: os1(2) cancelled_at_facts)
      ultimately show ?thesis by (simp add: m)
    qed
  qed
qed simp

text \<open>
  C19. Cancelling removes exactly the named orders: with a reason and at least one order, the call
  succeeds, every book keeps the other orders in their order, and the orders returned are
  those of the named ones that were resting, each marked cancelled with the reason and time.
\<close>

theorem cancel_removes_named:
  assumes "reachable e" and "engine_abs e B" and "cs \<noteq> []" and "reason \<noteq> ''''"
  shows "\<exists>r e'. CancelOrders now cs reason e = Some (r, None, e') \<and> engine_abs e' (without (named cs) B) \<and>
    (\<forall>o'\<in>set (c_Orders r). cancelled_with reason now o') \<and>
    order_key ` set (c_Orders r) = {(k, i). (k, i) \<in> named cs \<and> i \<in> pt_ids (B k)} \<and>
    e_localSeq e' = e_localSeq e \<and> e_sequence e' = e_sequence e"
proof -
  obtain os B' where p: "pt_cancel reason now cs B = (os, B')" by fastforce
  from cancel_refines [OF assms(2-4) p] obtain r e' where c: "CancelOrders now cs reason e = Some (r, None, e')"
    "c_Orders r = os" "engine_abs e' B'" "e_localSeq e' = e_localSeq e" "e_sequence e' = e_sequence e" by blast
  have s: "B' = without (named cs) B" "\<forall>o'\<in>set os. cancelled_with reason now o'"
    "order_key ` set os = {(k, i). (k, i) \<in> named cs \<and> i \<in> pt_ids (B k)}"
    using pt_cancel_spec [OF p reachable_books [OF assms(1,2)]] by simp_all
  show ?thesis by (rule exI [of _ r], rule exI [of _ e']) (simp add: c s(2,3) flip: s(1))
qed

theorem cancel_removes_named_witness:
  "\<exists>e r e' B'. reachable e \<and> CancelOrders 9 [Some ex_ask1, None] CancelReasonMarketClosed e = Some (r, None, e') \<and>
    engine_abs e' B' \<and> map d_OrderID (B' ''7:YES'' False) = [''a2''] \<and> order_key ` set (c_Orders r) = {(''7:YES'', ''a1'')}"
proof -
  obtain e where e: "reachable e" "engine_abs e ex_books" using ex_engine by blast
  have i: "o_OrderID ex_ask1 = ''a1''" "''a1'' \<in> pt_ids (ex_books ''7:YES'')" by code_simp+
  have "map d_OrderID (ex_books ''7:YES'' False) = [''a1'', ''a2'']" by code_simp
  then have "map d_OrderID (without (named [Some ex_ask1, None]) ex_books ''7:YES'' False) = [''a2'']"
    by (auto simp: without_def i(1) ex_facts)
  moreover have "{(k, i). (k, i) \<in> named [Some ex_ask1, None] \<and> i \<in> pt_ids (ex_books k)} = {(''7:YES'', ''a1'')}"
    using i by (auto simp: ex_facts)
  moreover obtain r e' where "CancelOrders 9 [Some ex_ask1, None] CancelReasonMarketClosed e = Some (r, None, e')"
    "engine_abs e' (without (named [Some ex_ask1, None]) ex_books)"
    "order_key ` set (c_Orders r) = {(k, i). (k, i) \<in> named [Some ex_ask1, None] \<and> i \<in> pt_ids (ex_books k)}"
    using cancel_removes_named [OF e, of "[Some ex_ask1, None]" CancelReasonMarketClosed 9] by auto
  ultimately show ?thesis
    using e(1) by - (rule exI [of _ e], rule exI [of _ r], rule exI [of _ e'],
        rule exI [of _ "without (named [Some ex_ask1, None]) ex_books"], simp)
qed

text \<open>
  C32. Amending is not atomic: when the replacement is rejected because its price is out of range,
  the error is returned after the original order has already left the book.
\<close>

theorem amend_invalid_price_drops_order:
  assumes "reachable e" and "engine_abs e B" and "o_OrderID o' \<in> pt_ids (B (BookKey o'))"
    and "9999 < newPrice" and "o_OrderID o' \<noteq> ''''"
  shows "\<exists>r e'. AmendOrder clk now (Some o') newPrice newQty e = Some (r, Some (InvalidOrder PriceOutOfRange), e') \<and>
    engine_abs e' (without {(BookKey o', o_OrderID o')} B)"
proof -
  let ?k = "BookKey o'" and ?i = "o_OrderID o'"
  obtain d where f: "find (\<lambda>d. d_OrderID d = ?i) (B ?k True @ B ?k False) = Some d"
    using assms(3) find_ids [of ?i "B ?k"] by blast
  have d: "d_OrderID d = ?i" "d \<in> set (B ?k True @ B ?k False)"
    using f by (auto simp: find_Some_iff in_set_conv_nth simp del: set_append)
  have op: "d_open d" using d(2) reachable_books [OF assms(1,2)] by (auto simp: wf_books_def)
  let ?am = "amended newPrice newQty (ToOrder (cancelled_at CancelReasonAmended now d))"
  have "Validate ?am = Some PriceOutOfRange"
    using op assms(4,5) d(1) by (simp add: Validate_def amended_def cancelled_at_def d_open_iff order_simps)
  then have "pt_place clk ?am (B(?k := pt_remove ?i (B ?k))) (e_localSeq e) (e_sequence e) =
      (core0 (Reject CancelReasonValidationFailed ?am) (e_localSeq e) (e_sequence e),
       Some (InvalidOrder PriceOutOfRange), B(?k := pt_remove ?i (B ?k)))"
    by (simp add: pt_place_def)
  from amend_refines [OF assms(2) refl f _ this] op show ?thesis
    using without_insert [of "{}" B ?k ?i] by (auto simp: d_open_def)
qed

theorem amend_invalid_price_drops_order_witness:
  "\<exists>e r e'. reachable e \<and> engine_abs e ex_books \<and>
    AmendOrder ex_clock 9 (Some ex_ask1) 10000 0 e = Some (r, Some (InvalidOrder PriceOutOfRange), e') \<and>
    engine_abs e' (without {(''7:YES'', ''a1'')} ex_books)"
proof -
  obtain e where e: "reachable e" "engine_abs e ex_books" using ex_engine by blast
  have i: "o_OrderID ex_ask1 = ''a1''" "''a1'' \<in> pt_ids (ex_books ''7:YES'')" by code_simp+
  show ?thesis
    using amend_invalid_price_drops_order [OF e, of ex_ask1 10000 ex_clock 9 0] e i by (auto simp: ex_facts)
qed

text \<open>
  C20. A refused order changes nothing: when placing returns an error there are no trades, the
  books and the counters are those of before, the order is marked rejected, and the error says
  which check failed.
\<close>

theorem rejected_order_changes_nothing:
  assumes "engine_abs e B" and "PlaceOrder clk (Some o') e = Some (r, Some err, e')"
  shows "r_Trades r = [] \<and> r_Affected r = [] \<and> engine_abs e' B \<and>
    e_localSeq e' = e_localSeq e \<and> e_sequence e' = e_sequence e \<and>
    (\<exists>o1. r_Order r = Some o1 \<and> o_OrderID o1 = o_OrderID o' \<and> o_Status o1 = OrderStatusRejected) \<and>
    (case Validate o' of Some v \<Rightarrow> err = InvalidOrder v
     | None \<Rightarrow> if o_OrderID o' \<in> pt_ids (B (BookKey o')) then err = DuplicateOrderID (o_OrderID o')
               else o_Type o' \<noteq> OrderTypeLimit \<and> err = UnsupportedOrderType (o_Type o'))"
proof -
  obtain c err' B' where p: "pt_place clk o' B (e_localSeq e) (e_sequence e) = (c, err', B')" by (metis prod_cases3)
  from place_refines [OF assms(1) p] assms(2) have q: "err' = Some err" "result_abs r e' c" "engine_abs e' B'" by auto
  obtain o1 where o1: "o1 = o' \<or> o1 = accepted o'"
    and c: "c = core0 (Reject CancelReasonValidationFailed o1) (e_localSeq e) (e_sequence e)" "B' = B"
    and er: "case Validate o' of Some v \<Rightarrow> err = InvalidOrder v
      | None \<Rightarrow> if o_OrderID o' \<in> pt_ids (B (BookKey o')) then err = DuplicateOrderID (o_OrderID o')
               else o_Type o' \<noteq> OrderTypeLimit \<and> err = UnsupportedOrderType (o_Type o')"
    using pt_place_rejected [OF p [unfolded q(1)]] by metis
  have "o_OrderID o1 = o_OrderID o'" using o1 by auto
  then show ?thesis using q(2,3) er by (simp add: c result_abs_def Reject_def)
qed

theorem rejected_order_changes_nothing_witness:
  "\<exists>e r e'. reachable e \<and> PlaceOrder ex_clock (Some ex_ask1) e = Some (r, Some (DuplicateOrderID ''a1''), e') \<and>
    r_Trades r = [] \<and> engine_abs e' ex_books"
proof -
  obtain e where e: "reachable e" "engine_abs e ex_books" using ex_engine by blast
  have i: "o_OrderID ex_ask1 = ''a1''" "''a1'' \<in> pt_ids (ex_books ''7:YES'')" by code_simp+
  then have "pt_place ex_clock ex_ask1 ex_books (e_localSeq e) (e_sequence e) =
      (core0 (Reject CancelReasonValidationFailed (accepted ex_ask1)) (e_localSeq e) (e_sequence e), Some (DuplicateOrderID ''a1''), ex_books)"
    by (simp add: pt_place_eq ex_facts)
  from place_refines [OF e(2) this] obtain r e' where
    "PlaceOrder ex_clock (Some ex_ask1) e = Some (r, Some (DuplicateOrderID ''a1''), e')" by blast
  then show ?thesis using rejected_order_changes_nothing [OF e(2)] e(1) by blast
qed

text \<open>
  C3. The engine refines the price-time specification: on any engine whose books are the priority
  lists \<open>B\<close>, placing an order returns the order, trades, affected orders, counters, error and
  books that inserting and matching on the priority lists gives.
\<close>

theorem place_refines_price_time:
  assumes "engine_abs e B"
  shows "case pt_place clk o' B (e_localSeq e) (e_sequence e) of (c, err, B') \<Rightarrow>
    \<exists>r e'. PlaceOrder clk (Some o') e = Some (r, err, e') \<and> result_abs r e' c \<and> engine_abs e' B'"
  using place_refines [OF assms] by (auto split: prod.splits)

theorem place_refines_price_time_witness:
  "\<exists>r e'. PlaceOrder ex_clock (Some ex_ask1) New = Some (r, None, e') \<and> engine_abs e' ex_books1"
  using place_refines_price_time [OF engine_abs_New, of ex_clock ex_ask1] by (auto simp: ex_place1)

end
