(* ===== verification/Go_Maps.thy ===== *)
theory Go_Maps
  imports Go_Prelude "HOL-Library.AList"
begin

text \<open>
  Go maps are association lists with distinct keys, read with \<open>map_of\<close> and written with
  \<open>AList.update\<close> and \<open>AList.delete\<close>. This theory has the facts the components share:
  lookup after a write, and sums over the entries (a loop over a map that adds up a value).
\<close>

named_theorems map_simps \<open>lookups and sums after a write to a map\<close>

lemma map_of_update [map_simps]: "map_of (AList.update k v xs) k' = (if k' = k then Some v else map_of xs k')"
  by (simp add: update_conv')

lemma map_of_delete [map_simps]: "map_of (AList.delete k xs) k' = (if k' = k then None else map_of xs k')"
  by (simp add: delete_conv')

lemma distinct_fst_update [map_simps]: "distinct (map fst xs) \<Longrightarrow> distinct (map fst (AList.update k v xs))"
  by (rule distinct_update)

lemma distinct_fst_delete [map_simps]: "distinct (map fst xs) \<Longrightarrow> distinct (map fst (AList.delete k xs))"
  by (rule distinct_delete)

definition entry_sum :: "('k \<Rightarrow> 'v \<Rightarrow> int) \<Rightarrow> ('k \<times> 'v) list \<Rightarrow> int" where
  "entry_sum f xs = sum_list (map (\<lambda>(k, v). f k v) xs)"

definition entry :: "('k \<Rightarrow> 'v \<Rightarrow> int) \<Rightarrow> 'k \<Rightarrow> 'v option \<Rightarrow> int" where
  "entry f k m = (case m of None \<Rightarrow> 0 | Some v \<Rightarrow> f k v)"

lemma entry_simps [simp]: "entry f k None = 0" "entry f k (Some v) = f k v"
  by (simp_all add: entry_def)

lemma entry_sum_simps [simp]: "entry_sum f [] = 0" "entry_sum f ((k, v) # xs) = f k v + entry_sum f xs"
  by (simp_all add: entry_sum_def)

lemma entry_sum_cong: "(\<And>k v. (k, v) \<in> set xs \<Longrightarrow> f k v = g k v) \<Longrightarrow> entry_sum f xs = entry_sum g xs"
  by (induction xs) auto

lemma entry_sum_update [map_simps]:
  "distinct (map fst xs) \<Longrightarrow> entry_sum f (AList.update k v xs) = entry_sum f xs - entry f k (map_of xs k) + f k v"
proof (induction xs)
  case (Cons x xs)
  obtain k' v' where x: "x = (k', v')" by fastforce
  have "k = k' \<Longrightarrow> map_of xs k = None" using Cons.prems by (simp add: x map_of_eq_None_iff)
  then show ?case using Cons by (cases "k = k'") (simp_all add: x)
qed simp

lemma entry_sum_delete [map_simps]:
  "distinct (map fst xs) \<Longrightarrow> entry_sum f (AList.delete k xs) = entry_sum f xs - entry f k (map_of xs k)"
proof (induction xs)
  case (Cons x xs)
  obtain k' v' where x: "x = (k', v')" by fastforce
  have "k = k' \<Longrightarrow> AList.delete k xs = xs \<and> map_of xs k = None"
    using Cons.prems by (auto simp: x map_of_eq_None_iff delete_notin_dom)
  then show ?case using Cons by (cases "k = k'") (simp_all add: x)
qed simp

lemma entry_sum_nonneg: "(\<And>k v. (k, v) \<in> set xs \<Longrightarrow> 0 \<le> f k v) \<Longrightarrow> 0 \<le> entry_sum f xs"
proof (induction xs)
  case (Cons x xs)
  then show ?case by (cases x) (simp add: add_nonneg_nonneg)
qed simp

lemma entry_sum_ge:
  assumes "map_of xs k = Some v" and "\<And>k v. (k, v) \<in> set xs \<Longrightarrow> 0 \<le> f k v"
  shows "f k v \<le> entry_sum f xs"
  using assms
proof (induction xs)
  case (Cons x xs)
  obtain k' v' where x: "x = (k', v')" by fastforce
  have "0 \<le> entry_sum f xs" using Cons.prems(2) by (intro entry_sum_nonneg) (auto simp: x)
  moreover have "0 \<le> f k' v'" using Cons.prems(2) by (simp add: x)
  ultimately show ?case using Cons by (cases "k = k'") (auto simp: x, force)
qed simp

lemma entry_sum_zero: "(\<And>k v. (k, v) \<in> set xs \<Longrightarrow> f k v = 0) \<Longrightarrow> entry_sum f xs = 0"
  by (induction xs) auto

lemma in_set_map_of: "distinct (map fst xs) \<Longrightarrow> (k, v) \<in> set xs \<longleftrightarrow> map_of xs k = Some v"
  by (simp add: map_of_eq_Some_iff)

lemma update_overwrite [map_simps]: "AList.update k v (AList.update k w xs) = AList.update k v xs"
  by (induction xs) auto

lemma update_triv: "map_of xs k = Some v \<Longrightarrow> AList.update k v xs = xs"
  by (induction xs) (auto split: if_splits)

lemma delete_absent: "map_of xs k = None \<Longrightarrow> AList.delete k xs = xs"
  by (simp add: delete_notin_dom map_of_eq_None_iff)

lemma delete_update_absent: "map_of xs k = None \<Longrightarrow> AList.delete k (AList.update k v xs) = xs"
proof (induction xs)
  case (Cons x xs)
  then show ?case by (cases x) (simp split: if_splits)
qed simp

end
