(* ===== verification/Shared_Assets.thy ===== *)
theory Shared_Assets
  imports Go_Prelude
begin

text \<open>
  The shared money arithmetic: \<open>internal/shared/assets/assets.go\<close>,
  \<open>internal/shared/assets/units.go\<close> and \<open>internal/shared/fee/schedule.go\<close>.
  Every function that can fail returns a sum, with the error on the left.
\<close>

section \<open>Assets (assets.go)\<close>

abbreviation DefaultCollateralAsset :: string where
  "DefaultCollateralAsset \<equiv> ''USDT''"

abbreviation DefaultWinningSharePayout :: i64 where
  "DefaultWinningSharePayout \<equiv> 100"

datatype asset_error =
    WinningQuantityNotPositive
  | WinningPayoutOverflow
  | AmountNegative
  | DecimalsNegative
  | AmountOverflow
  | AmountPrecision
  | Pow10NegativeExponent
  | Pow10Overflow

definition NormalizeAsset :: "string \<Rightarrow> string" where
  "NormalizeAsset asset =
     (let normalized = ToUpper (TrimSpace asset)
      in if normalized = '''' then DefaultCollateralAsset else normalized)"

definition PositionAsset :: "i64 \<Rightarrow> string \<Rightarrow> string" where
  "PositionAsset marketID outcome =
     ''POSITION:'' @ itoa marketID @ '':'' @ ToUpper (TrimSpace outcome)"

definition WinningPayoutAmount :: "i64 \<Rightarrow> asset_error + i64" where
  "WinningPayoutAmount quantity =
     (if quantity \<le> 0 then Inl WinningQuantityNotPositive
      else if MaxInt64 sdiv DefaultWinningSharePayout < quantity then Inl WinningPayoutOverflow
      else Inr (wrap64 (quantity * DefaultWinningSharePayout)))"

section \<open>Units (units.go)\<close>

abbreviation DefaultCollateralDisplayDigits :: int where
  "DefaultCollateralDisplayDigits \<equiv> 2"

abbreviation DefaultCollateralChainDecimals :: int where
  "DefaultCollateralChainDecimals \<equiv> 6"

definition AccountingDigits :: "string \<Rightarrow> int" where
  "AccountingDigits asset =
     (if NormalizeAsset asset = DefaultCollateralAsset then DefaultCollateralDisplayDigits else 0)"

definition ChainDecimals :: "string \<Rightarrow> int" where
  "ChainDecimals asset =
     (if NormalizeAsset asset = DefaultCollateralAsset then DefaultCollateralChainDecimals
      else AccountingDigits asset)"

primrec pow10_loop :: "nat \<Rightarrow> i64 \<Rightarrow> asset_error + i64" where
  "pow10_loop 0 value = Inr value"
| "pow10_loop (Suc k) value =
     (if MaxInt64 sdiv 10 < value then Inl Pow10Overflow else pow10_loop k (wrap64 (value * 10)))"

definition pow10Int64 :: "int \<Rightarrow> asset_error + i64" where
  "pow10Int64 exp = (if exp < 0 then Inl Pow10NegativeExponent else pow10_loop (nat exp) 1)"

definition ChainToAccountingAmountFloor :: "i64 \<Rightarrow> int \<Rightarrow> int \<Rightarrow> asset_error + i64" where
  "ChainToAccountingAmountFloor rawAmount chainDecimals accountingDigits =
     (if rawAmount < 0 then Inl AmountNegative
      else if chainDecimals < 0 \<or> accountingDigits < 0 then Inl DecimalsNegative
      else if chainDecimals = accountingDigits then Inr rawAmount
      else let diff = chainDecimals - accountingDigits in
        if 0 < diff then
          (case pow10Int64 diff of Inl e \<Rightarrow> Inl e | Inr factor \<Rightarrow> Inr (rawAmount sdiv factor))
        else
          (case pow10Int64 (- diff) of
             Inl e \<Rightarrow> Inl e
           | Inr factor \<Rightarrow>
               if MaxInt64 sdiv factor < rawAmount then Inl AmountOverflow
               else Inr (wrap64 (rawAmount * factor))))"

definition ChainToAccountingAmount :: "i64 \<Rightarrow> int \<Rightarrow> int \<Rightarrow> asset_error + i64" where
  "ChainToAccountingAmount rawAmount chainDecimals accountingDigits =
     (if rawAmount < 0 then Inl AmountNegative
      else if chainDecimals < 0 \<or> accountingDigits < 0 then Inl DecimalsNegative
      else if chainDecimals = accountingDigits then Inr rawAmount
      else let diff = chainDecimals - accountingDigits in
        if 0 < diff then
          (case pow10Int64 diff of
             Inl e \<Rightarrow> Inl e
           | Inr factor \<Rightarrow>
               if rawAmount smod factor \<noteq> 0 then Inl AmountPrecision
               else Inr (rawAmount sdiv factor))
        else
          (case pow10Int64 (- diff) of
             Inl e \<Rightarrow> Inl e
           | Inr factor \<Rightarrow>
               if MaxInt64 sdiv factor < rawAmount then Inl AmountOverflow
               else Inr (wrap64 (rawAmount * factor))))"

definition AccountingToChainAmount :: "i64 \<Rightarrow> int \<Rightarrow> int \<Rightarrow> asset_error + i64" where
  "AccountingToChainAmount accountingAmount chainDecimals accountingDigits =
     (if accountingAmount < 0 then Inl AmountNegative
      else if chainDecimals < 0 \<or> accountingDigits < 0 then Inl DecimalsNegative
      else if chainDecimals = accountingDigits then Inr accountingAmount
      else let diff = chainDecimals - accountingDigits in
        if 0 < diff then
          (case pow10Int64 diff of
             Inl e \<Rightarrow> Inl e
           | Inr factor \<Rightarrow>
               if MaxInt64 sdiv factor < accountingAmount then Inl AmountOverflow
               else Inr (wrap64 (accountingAmount * factor)))
        else
          (case pow10Int64 (- diff) of
             Inl e \<Rightarrow> Inl e
           | Inr factor \<Rightarrow>
               if accountingAmount smod factor \<noteq> 0 then Inl AmountPrecision
               else Inr (accountingAmount sdiv factor)))"

definition AccountingToAssetChainAmount :: "string \<Rightarrow> i64 \<Rightarrow> asset_error + i64" where
  "AccountingToAssetChainAmount asset accountingAmount =
     AccountingToChainAmount accountingAmount (ChainDecimals asset) (AccountingDigits asset)"

definition ChainToAssetAccountingAmount :: "string \<Rightarrow> i64 \<Rightarrow> asset_error + i64" where
  "ChainToAssetAccountingAmount asset chainAmount =
     ChainToAccountingAmount chainAmount (ChainDecimals asset) (AccountingDigits asset)"

section \<open>Fees (schedule.go)\<close>

record Schedule =
  TakerFeeBps :: i64
  MakerFeeBps :: i64

definition DefaultSchedule :: Schedule where
  "DefaultSchedule = \<lparr>TakerFeeBps = 200, MakerFeeBps = - 50\<rparr>"

record FeeResult =
  fr_TakerFee :: i64
  fr_MakerFee :: i64

definition zeroFee :: FeeResult where
  "zeroFee = \<lparr>fr_TakerFee = 0, fr_MakerFee = 0\<rparr>"

definition NetTakerCredit :: "FeeResult \<Rightarrow> i64 \<Rightarrow> i64" where
  "NetTakerCredit r grossCredit = wrap64 (grossCredit - fr_TakerFee r)"

definition NetMakerCredit :: "FeeResult \<Rightarrow> i64 \<Rightarrow> i64" where
  "NetMakerCredit r grossCredit = wrap64 (grossCredit - fr_MakerFee r)"

definition PlatformRevenue :: "FeeResult \<Rightarrow> i64" where
  "PlatformRevenue r = wrap64 (fr_TakerFee r + fr_MakerFee r)"

datatype fee_error = FeeOverflow | TakerFeeOverflow fee_error | MakerFeeOverflow fee_error

definition applyBps :: "i64 \<Rightarrow> i64 \<Rightarrow> fee_error + i64" where
  "applyBps amount bps =
     (if bps = 0 then Inr 0
      else let absBps = (if bps < 0 then wrap64 (- bps) else bps) in
        if MaxInt64 sdiv absBps < amount then Inl FeeOverflow
        else Inr (wrap64 (amount * bps) sdiv 10000))"

definition Compute :: "Schedule \<Rightarrow> i64 \<Rightarrow> fee_error + FeeResult" where
  "Compute s notional =
     (if notional \<le> 0 then Inr zeroFee
      else case applyBps notional (TakerFeeBps s) of
        Inl e \<Rightarrow> Inl (TakerFeeOverflow e)
      | Inr takerFee \<Rightarrow>
          (case applyBps notional (MakerFeeBps s) of
             Inl e \<Rightarrow> Inl (MakerFeeOverflow e)
           | Inr makerFee \<Rightarrow> Inr \<lparr>fr_TakerFee = takerFee, fr_MakerFee = makerFee\<rparr>))"

section \<open>Powers of ten\<close>

lemma pow10_loop_ok:
  assumes "0 < v" and "v * 10 ^ k \<le> MaxInt64"
  shows "pow10_loop k v = Inr (v * 10 ^ k)"
  using assms
proof (induction k arbitrary: v)
  case 0
  then show ?case by simp
next
  case (Suc k)
  have "v * 10 \<le> v * 10 * 10 ^ k"
    using Suc.prems(1) by simp
  also have "\<dots> \<le> MaxInt64"
    using Suc.prems(2) by (simp add: ac_simps)
  finally have le: "v * 10 \<le> MaxInt64" .
  then have "wrap64 (v * 10) = v * 10"
    using Suc.prems(1) by (simp add: wrap_simps)
  moreover have "\<not> MaxInt64 sdiv 10 < v"
    using le by (simp add: mul_guard_iff del: mult_numeral_1_right)
  moreover have "pow10_loop k (v * 10) = Inr (v * 10 * 10 ^ k)"
    using Suc.prems by (intro Suc.IH) (simp_all add: ac_simps)
  ultimately show ?case by (simp add: ac_simps)
qed

lemma pow10_loop_overflow:
  assumes "0 < v" and "v \<le> MaxInt64" and "MaxInt64 < v * 10 ^ k"
  shows "pow10_loop k v = Inl Pow10Overflow"
  using assms
proof (induction k arbitrary: v)
  case 0
  then show ?case by simp
next
  case (Suc k)
  show ?case
  proof (cases "MaxInt64 sdiv 10 < v")
    case True
    then show ?thesis by simp
  next
    case False
    then have le: "v * 10 \<le> MaxInt64"
      using mul_guard_iff [of 10 v] by simp
    then have "wrap64 (v * 10) = v * 10"
      using Suc.prems(1) by (simp add: wrap_simps)
    moreover have "pow10_loop k (v * 10) = Inl Pow10Overflow"
      using Suc.prems le by (intro Suc.IH) (simp_all add: ac_simps)
    ultimately show ?thesis using False by simp
  qed
qed

lemma pow10_le_18: "k \<le> 18 \<Longrightarrow> (10::int) ^ k \<le> 10 ^ 18"
  by (rule power_increasing) simp_all

lemma pow10_ge_19: "19 \<le> k \<Longrightarrow> (10::int) ^ 19 \<le> 10 ^ k"
  by (rule power_increasing) simp_all

lemma pow10Int64_eq:
  "pow10Int64 e = (if e < 0 then Inl Pow10NegativeExponent
                   else if e \<le> 18 then Inr (10 ^ nat e) else Inl Pow10Overflow)"
proof -
  have "pow10_loop (nat e) 1 = Inr (10 ^ nat e)" if "0 \<le> e" "e \<le> 18"
  proof -
    have "(10::int) ^ nat e \<le> 10 ^ 18"
      using that by (intro pow10_le_18) simp
    then show ?thesis
      using pow10_loop_ok [of 1 "nat e"] by simp
  qed
  moreover have "pow10_loop (nat e) 1 = Inl Pow10Overflow" if "18 < e"
  proof -
    have "(10::int) ^ 19 \<le> 10 ^ nat e"
      using that by (intro pow10_ge_19) simp
    then show ?thesis
      using pow10_loop_overflow [of 1 "nat e"] by simp
  qed
  ultimately show ?thesis by (auto simp: pow10Int64_def)
qed

section \<open>Unit conversion\<close>

text \<open>The two guarded steps both directions are built from, with the guards solved.\<close>

lemma guarded_mul_iff:
  assumes "0 < f" and "0 \<le> a"
  shows "(if MaxInt64 sdiv f < a then Inl e else Inr (wrap64 (a * f))) = Inr c \<longleftrightarrow>
         c = a * f \<and> c \<le> MaxInt64"
  using assms mul_guard_wrap [OF assms] by (auto simp: mul_guard_iff)

lemma exact_div_iff:
  fixes a f :: int
  assumes "0 < f" and "0 \<le> a"
  shows "(if a smod f \<noteq> 0 then Inl e else Inr (a sdiv f)) = Inr c \<longleftrightarrow> a = c * f"
  using assms by (auto simp: smod_nonneg sdiv_nonneg)

definition scale :: "int \<Rightarrow> int" where
  "scale d = 10 ^ nat d"

lemma scale_pos [simp]: "0 < scale d"
  by (simp add: scale_def)

lemma scale_0 [simp]: "scale 0 = 1"
  by (simp add: scale_def)

lemma pow10Int64_scale:
  "0 \<le> e \<Longrightarrow> pow10Int64 e = (if e \<le> 18 then Inr (scale e) else Inl Pow10Overflow)"
  by (simp add: pow10Int64_eq scale_def)

lemma AccountingToChain_iff:
  assumes "a \<le> MaxInt64"
  shows "AccountingToChainAmount a cd ad = Inr c \<longleftrightarrow>
    0 \<le> a \<and> 0 \<le> cd \<and> 0 \<le> ad \<and> \<bar>cd - ad\<bar> \<le> 18 \<and>
    (if ad \<le> cd then c = a * scale (cd - ad) \<and> c \<le> MaxInt64 else a = c * scale (ad - cd))"
  using assms
  by (cases "ad < cd"; cases "cd < ad")
     (auto simp: AccountingToChainAmount_def Let_def pow10Int64_scale guarded_mul_iff exact_div_iff)

lemma ChainToAccounting_iff:
  assumes "c \<le> MaxInt64"
  shows "ChainToAccountingAmount c cd ad = Inr a \<longleftrightarrow>
    0 \<le> c \<and> 0 \<le> cd \<and> 0 \<le> ad \<and> \<bar>cd - ad\<bar> \<le> 18 \<and>
    (if ad \<le> cd then c = a * scale (cd - ad) else a = c * scale (ad - cd) \<and> a \<le> MaxInt64)"
  using assms
  by (cases "ad < cd"; cases "cd < ad")
     (auto simp: ChainToAccountingAmount_def Let_def pow10Int64_scale guarded_mul_iff exact_div_iff)

lemma mult_scale_nonneg: "0 \<le> a * scale d \<longleftrightarrow> 0 \<le> a"
proof -
  have "0 \<le> scale d" and "\<not> scale d \<le> 0"
    using scale_pos [of d] by linarith+
  then show ?thesis by (auto simp: zero_le_mult_iff)
qed

text \<open>
  C21. Converting an accounting amount to chain units and back are inverse partial functions:
  one direction yields \<open>c\<close> from \<open>a\<close> exactly when the other yields \<open>a\<close> from \<open>c\<close>,
  so a deposit or a withdrawal neither creates nor loses a unit.
\<close>

theorem units_roundtrip:
  assumes "a \<le> MaxInt64" and "c \<le> MaxInt64"
  shows "AccountingToChainAmount a cd ad = Inr c \<longleftrightarrow> ChainToAccountingAmount c cd ad = Inr a"
  unfolding AccountingToChain_iff [OF assms(1)] ChainToAccounting_iff [OF assms(2)]
  using assms by (auto simp: mult_scale_nonneg)

theorem units_roundtrip_witness:
  "AccountingToChainAmount 1234 6 2 = Inr 12340000 \<and> ChainToAccountingAmount 12340000 6 2 = Inr 1234"
proof -
  have "AccountingToChainAmount 1234 6 2 = Inr 12340000"
    by (simp add: AccountingToChain_iff scale_def)
  then show ?thesis
    using units_roundtrip [of 1234 12340000 6 2] by simp
qed

text \<open>
  The flooring conversion used for native deposits never credits more than was deposited
  and leaves less than one accounting unit behind, and it agrees with the exact conversion
  wherever that one succeeds.
\<close>

lemma floor_conversion:
  assumes "0 \<le> raw" and "raw \<le> MaxInt64" and "0 \<le> ad" and "ad < cd" and "cd - ad \<le> 18"
  shows "\<exists>a. ChainToAccountingAmountFloor raw cd ad = Inr a \<and>
             a * scale (cd - ad) \<le> raw \<and> raw < (a + 1) * scale (cd - ad) \<and>
             (\<forall>b. ChainToAccountingAmount raw cd ad = Inr b \<longrightarrow> b = a)"
proof -
  let ?f = "scale (cd - ad)"
  have eq: "ChainToAccountingAmountFloor raw cd ad = Inr (raw div ?f)"
    using assms by (simp add: ChainToAccountingAmountFloor_def Let_def pow10Int64_scale sdiv_nonneg)
  have split: "raw = raw div ?f * ?f + raw mod ?f" and "0 \<le> raw mod ?f" and "raw mod ?f < ?f"
    by simp_all
  then have "raw div ?f * ?f \<le> raw" and "raw < (raw div ?f + 1) * ?f"
    unfolding distrib_right mult_1 by linarith+
  moreover have "b = raw div ?f" if "ChainToAccountingAmount raw cd ad = Inr b" for b
  proof -
    have "?f \<noteq> 0"
      using scale_pos [of "cd - ad"] by linarith
    then show ?thesis
      using that assms ChainToAccounting_iff [of raw cd ad b] by auto
  qed
  ultimately show ?thesis using eq by blast
qed

section \<open>Fees\<close>

text \<open>
  On non-negative amounts \<open>applyBps\<close> either reports the overflow of \<open>amount * |bps|\<close>
  or returns that product over 10000, truncated towards zero, never a wrapped value.
\<close>

lemma applyBps_exact:
  assumes "0 \<le> amount" and "amount \<le> MaxInt64" and "\<bar>bps\<bar> \<le> MaxInt64"
  shows "applyBps amount bps =
    (if MaxInt64 < amount * \<bar>bps\<bar> then Inl FeeOverflow else Inr ((amount * bps) sdiv 10000))"
proof (cases "bps = 0")
  case True
  then show ?thesis by (simp add: applyBps_def)
next
  case False
  have abs: "(if bps < 0 then wrap64 (- bps) else bps) = \<bar>bps\<bar>"
    using assms by (simp add: wrap_simps)
  have "wrap64 (amount * bps) = amount * bps" if "\<not> MaxInt64 < amount * \<bar>bps\<bar>"
  proof -
    have "\<bar>amount * bps\<bar> \<le> MaxInt64"
      using that assms by (simp add: abs_mult)
    then show ?thesis by (intro wrap64_id) linarith+
  qed
  then show ?thesis
    using False by (simp add: applyBps_def abs Let_def mul_guard_iff)
qed

text \<open>
  Under the default schedule a trade's fees are the taker's 2 percent and the maker's
  half-percent rebate, rounded down in size, and the platform's revenue is their exact sum,
  between zero and the notional: the rebate is always paid out of the taker's fee.
\<close>

lemma default_schedule_revenue:
  assumes "0 < notional" and "notional \<le> MaxInt64"
  shows "case Compute DefaultSchedule notional of
      Inl e \<Rightarrow> e = TakerFeeOverflow FeeOverflow \<and> MaxInt64 < notional * 200
    | Inr r \<Rightarrow> notional * 200 \<le> MaxInt64 \<and>
        fr_TakerFee r = notional div 50 \<and> fr_MakerFee r = - (notional div 200) \<and>
        PlatformRevenue r = fr_TakerFee r + fr_MakerFee r \<and>
        0 \<le> PlatformRevenue r \<and> PlatformRevenue r \<le> notional"
proof -
  have n: "0 \<le> notional" using assms(1) by simp
  have t: "applyBps notional 200 = (if MaxInt64 < notional * 200 then Inl FeeOverflow else Inr (notional div 50))"
    using applyBps_exact [OF n assms(2), of 200] n by (simp add: sdiv_nonneg)
  have m: "applyBps notional (- 50) = (if MaxInt64 < notional * 50 then Inl FeeOverflow else Inr (- (notional div 200)))"
    using applyBps_exact [OF n assms(2), of "- 50"] assms(1)
    by (simp add: signed_divide_int_def sgn_mult abs_mult)
  have le: "notional div 200 \<le> notional div 50" "0 \<le> notional div 200" "notional div 50 \<le> notional"
    using assms(1) by linarith+
  then have "wrap64 (notional div 50 + - (notional div 200)) = notional div 50 + - (notional div 200)"
    using assms(2) by (intro wrap64_id) linarith+
  then show ?thesis
    using t m le assms(1) by (simp add: Compute_def DefaultSchedule_def PlatformRevenue_def)
qed

lemma WinningPayoutAmount_iff:
  "WinningPayoutAmount q = Inr p \<longleftrightarrow> 0 < q \<and> p = q * 100 \<and> p \<le> MaxInt64"
  using guarded_mul_iff [of 100 q WinningPayoutOverflow p] by (auto simp: WinningPayoutAmount_def)

end
