(* ===== verification/Account_Balance.thy ===== *)
theory Account_Balance
  imports Go_Maps Shared_Assets
begin

text \<open>
  The trading balances: \<open>account/model/balance.go\<close> and \<open>account/service/balance_book.go\<close>.
  A book maps the key of a user and an asset to available and frozen amounts and holds the
  freeze records that explain the frozen ones. The optional store is a record of its operations
  over a store state, so a write may fail at any call; an operation is one call of the source,
  including the rollback after a failed write. Identifiers drawn from \<open>NewID\<close> are arguments.
\<close>

named_theorems book_simps \<open>the fields of a balance book after an operation\<close>

section \<open>Data (balance.go)\<close>

record Balance =
  bal_UserID :: i64
  bal_Asset :: string
  bal_Available :: i64
  bal_Frozen :: i64

definition Total :: "Balance \<Rightarrow> i64" where
  "Total b = wrap64 (bal_Available b + bal_Frozen b)"

record FreezeRecord =
  fr_FreezeID :: string
  fr_UserID :: i64
  fr_Asset :: string
  fr_RefType :: string
  fr_RefID :: string
  fr_OriginalAmount :: i64
  fr_Amount :: i64
  fr_Released :: bool
  fr_Consumed :: bool

datatype acct_error = ErrInvalidAsset | ErrInvalidAmount | ErrInsufficientBalance | ErrFreezeNotFound
  | ErrFreezeAlreadyClosed | ErrFreezeAlreadyExists | ReleaseExceedsFrozen | ConsumeExceedsFrozen
  | StoreFailed string

record FreezeRequest =
  fq_FreezeID :: string
  fq_UserID :: i64
  fq_Asset :: string
  fq_RefType :: string
  fq_RefID :: string
  fq_Amount :: i64

record CreditRequest =
  cq_UserID :: i64
  cq_Asset :: string
  cq_Amount :: i64
  cq_RefType :: string
  cq_RefID :: string

record DebitRequest =
  dq_UserID :: i64
  dq_Asset :: string
  dq_Amount :: i64
  dq_RefType :: string
  dq_RefID :: string

text \<open>The store operations the book calls; each may fail and changes the store state.\<close>

record 's BalanceStore =
  st_UpsertBalance :: "Balance \<Rightarrow> 's \<Rightarrow> acct_error option \<times> 's"
  st_UpsertBalanceAndFreeze :: "Balance \<Rightarrow> FreezeRecord \<Rightarrow> 's \<Rightarrow> acct_error option \<times> 's"
  st_ApplyCreditEvent :: "CreditRequest \<Rightarrow> 's \<Rightarrow> (acct_error + Balance \<times> bool) \<times> 's"
  st_ApplyDebitEvent :: "DebitRequest \<Rightarrow> 's \<Rightarrow> (acct_error + Balance \<times> bool) \<times> 's"

record 's BalanceBook =
  balances :: "(string \<times> Balance) list"
  freezes :: "(string \<times> FreezeRecord) list"
  processedRefs :: "string list"
  bb_store :: "'s BalanceStore option"
  bb_db :: 's

section \<open>Operations (balance\_book.go)\<close>

definition normalizeAsset :: "string \<Rightarrow> string" where
  "normalizeAsset asset = ToUpper (TrimSpace asset)"

definition balanceKey :: "i64 \<Rightarrow> string \<Rightarrow> string" where
  "balanceKey userID asset = itoa userID @ '':'' @ normalizeAsset asset"

definition NewBalanceBook :: "'s \<Rightarrow> 's BalanceBook" where
  "NewBalanceBook db = \<lparr>balances = [], freezes = [], processedRefs = [], bb_store = None, bb_db = db\<rparr>"

definition NewBalanceBookWithStore :: "'s BalanceStore \<Rightarrow> 's \<Rightarrow> 's BalanceBook" where
  "NewBalanceBookWithStore store db = (NewBalanceBook db)\<lparr>bb_store := Some store\<rparr>"

definition persistBalance :: "Balance \<Rightarrow> 's BalanceBook \<Rightarrow> acct_error option \<times> 's BalanceBook" where
  "persistBalance balance b =
     (case bb_store b of
        None \<Rightarrow> (None, b)
      | Some st \<Rightarrow> let (err, db) = st_UpsertBalance st balance (bb_db b) in (err, b\<lparr>bb_db := db\<rparr>))"

definition persistBalanceAndFreeze ::
    "Balance \<Rightarrow> FreezeRecord \<Rightarrow> 's BalanceBook \<Rightarrow> acct_error option \<times> 's BalanceBook" where
  "persistBalanceAndFreeze balance freeze b =
     (case bb_store b of
        None \<Rightarrow> (None, b)
      | Some st \<Rightarrow>
          let (err, db) = st_UpsertBalanceAndFreeze st balance freeze (bb_db b) in (err, b\<lparr>bb_db := db\<rparr>))"

definition putBalance :: "string \<Rightarrow> Balance \<Rightarrow> 's BalanceBook \<Rightarrow> 's BalanceBook" where
  "putBalance key balance b = b\<lparr>balances := AList.update key balance (balances b)\<rparr>"

definition putFreeze :: "string \<Rightarrow> FreezeRecord \<Rightarrow> 's BalanceBook \<Rightarrow> 's BalanceBook" where
  "putFreeze freezeID record b = b\<lparr>freezes := AList.update freezeID record (freezes b)\<rparr>"

definition zeroBalance :: "i64 \<Rightarrow> string \<Rightarrow> Balance" where
  "zeroBalance userID asset =
     \<lparr>bal_UserID = userID, bal_Asset = normalizeAsset asset, bal_Available = 0, bal_Frozen = 0\<rparr>"

definition balanceOrZero :: "i64 \<Rightarrow> string \<Rightarrow> 's BalanceBook \<Rightarrow> Balance" where
  "balanceOrZero userID asset b =
     (case map_of (balances b) (balanceKey userID asset) of
        None \<Rightarrow> zeroBalance userID asset
      | Some balance \<Rightarrow> balance)"

definition SeedBalance :: "i64 \<Rightarrow> string \<Rightarrow> i64 \<Rightarrow> 's BalanceBook \<Rightarrow> 's BalanceBook" where
  "SeedBalance userID asset available b =
     (let balance = (zeroBalance userID asset)\<lparr>bal_Available := available\<rparr>
      in snd (persistBalance balance (putBalance (balanceKey userID asset) balance b)))"

definition PreFreeze ::
    "string \<Rightarrow> FreezeRequest \<Rightarrow> 's BalanceBook \<Rightarrow> (acct_error + FreezeRecord) \<times> 's BalanceBook" where
  "PreFreeze newID req b =
     (if fq_UserID req \<le> 0 then (Inl ErrInvalidAmount, b)
      else if fq_Amount req \<le> 0 then (Inl ErrInvalidAmount, b)
      else if normalizeAsset (fq_Asset req) = '''' then (Inl ErrInvalidAsset, b)
      else
        let key = balanceKey (fq_UserID req) (fq_Asset req);
            balance = balanceOrZero (fq_UserID req) (fq_Asset req) b;
            b1 = putBalance key balance b
        in if bal_Available balance < fq_Amount req then (Inl ErrInsufficientBalance, b1)
           else
             let freezeID = (if TrimSpace (fq_FreezeID req) = '''' then newID else TrimSpace (fq_FreezeID req))
             in if map_of (freezes b1) freezeID \<noteq> None then (Inl ErrFreezeAlreadyExists, b1)
                else
                  let balance1 = balance\<lparr>bal_Available := wrap64 (bal_Available balance - fq_Amount req),
                                         bal_Frozen := wrap64 (bal_Frozen balance + fq_Amount req)\<rparr>;
                      record = \<lparr>fr_FreezeID = freezeID, fr_UserID = fq_UserID req,
                                fr_Asset = normalizeAsset (fq_Asset req), fr_RefType = fq_RefType req,
                                fr_RefID = fq_RefID req, fr_OriginalAmount = fq_Amount req,
                                fr_Amount = fq_Amount req, fr_Released = False, fr_Consumed = False\<rparr>;
                      b2 = putFreeze freezeID record (putBalance key balance1 b1)
                  in case persistBalanceAndFreeze balance1 record b2 of
                       (None, b3) \<Rightarrow> (Inr record, b3)
                     | (Some err, b3) \<Rightarrow>
                         let balance2 = balance1\<lparr>bal_Available := wrap64 (bal_Available balance1 + fq_Amount req),
                                                 bal_Frozen := wrap64 (bal_Frozen balance1 - fq_Amount req)\<rparr>;
                             b4 = putBalance key balance2 b3
                         in (Inl err, b4\<lparr>freezes := AList.delete freezeID (freezes b4)\<rparr>))"

definition ApplyExternalFreeze ::
    "string \<Rightarrow> FreezeRequest \<Rightarrow> 's BalanceBook \<Rightarrow> (acct_error + FreezeRecord) \<times> 's BalanceBook" where
  "ApplyExternalFreeze newID req b =
     (if TrimSpace (fq_FreezeID req) = '''' then (Inl ErrFreezeNotFound, b) else PreFreeze newID req b)"

definition getActiveFreezeLocked :: "string \<Rightarrow> 's BalanceBook \<Rightarrow> acct_error + FreezeRecord \<times> Balance" where
  "getActiveFreezeLocked freezeID b =
     (case map_of (freezes b) freezeID of
        None \<Rightarrow> Inl ErrFreezeNotFound
      | Some record \<Rightarrow>
          if fr_Released record \<or> fr_Consumed record then Inl ErrFreezeAlreadyClosed
          else case map_of (balances b) (balanceKey (fr_UserID record) (fr_Asset record)) of
                 None \<Rightarrow> Inl ErrFreezeNotFound
               | Some balance \<Rightarrow> Inr (record, balance))"

text \<open>Writing a balance and a freeze record through their pointers, as the three closing operations do.\<close>

definition putBoth :: "string \<Rightarrow> FreezeRecord \<Rightarrow> Balance \<Rightarrow> 's BalanceBook \<Rightarrow> 's BalanceBook" where
  "putBoth freezeID record balance b =
     putFreeze freezeID record (putBalance (balanceKey (fr_UserID record) (fr_Asset record)) balance b)"

text \<open>The first, locked half of a closing operation, the store write, and the second half on failure.\<close>

definition commitOrRestore ::
    "string \<Rightarrow> FreezeRecord \<times> Balance \<Rightarrow> FreezeRecord \<times> Balance \<Rightarrow> 's BalanceBook \<Rightarrow> acct_error option \<times> 's BalanceBook" where
  "commitOrRestore freezeID old new b =
     (case persistBalanceAndFreeze (snd new) (fst new) (putBoth freezeID (fst new) (snd new) b) of
        (None, b1) \<Rightarrow> (None, b1)
      | (Some err, b1) \<Rightarrow> (Some err, putBoth freezeID (fst old) (snd old) b1))"

definition releaseLocked :: "FreezeRecord \<Rightarrow> Balance \<Rightarrow> FreezeRecord \<times> Balance" where
  "releaseLocked record balance =
     (record\<lparr>fr_Amount := 0, fr_Released := True\<rparr>,
      balance\<lparr>bal_Frozen := wrap64 (bal_Frozen balance - fr_Amount record),
              bal_Available := wrap64 (bal_Available balance + fr_Amount record)\<rparr>)"

definition ReleaseFreeze :: "string \<Rightarrow> 's BalanceBook \<Rightarrow> acct_error option \<times> 's BalanceBook" where
  "ReleaseFreeze freezeID b =
     (case getActiveFreezeLocked freezeID b of
        Inl err \<Rightarrow> (Some err, b)
      | Inr (record, balance) \<Rightarrow>
          commitOrRestore freezeID (record, balance) (releaseLocked record balance) b)"

definition ReleaseFreezeAmount :: "string \<Rightarrow> i64 \<Rightarrow> 's BalanceBook \<Rightarrow> acct_error option \<times> 's BalanceBook" where
  "ReleaseFreezeAmount freezeID amount b =
     (if amount \<le> 0 then (Some ErrInvalidAmount, b)
      else case getActiveFreezeLocked freezeID b of
             Inl err \<Rightarrow> (Some err, b)
           | Inr (record, balance) \<Rightarrow>
               if fr_Amount record < amount then (Some ReleaseExceedsFrozen, b)
               else
                 let balance1 = balance\<lparr>bal_Frozen := wrap64 (bal_Frozen balance - amount),
                                        bal_Available := wrap64 (bal_Available balance + amount)\<rparr>;
                     left = wrap64 (fr_Amount record - amount);
                     record1 = (if left = 0 then record\<lparr>fr_Amount := left, fr_Released := True\<rparr>
                                else record\<lparr>fr_Amount := left\<rparr>)
                 in commitOrRestore freezeID (record, balance) (record1, balance1) b)"

definition ConsumeFreeze :: "string \<Rightarrow> i64 \<Rightarrow> 's BalanceBook \<Rightarrow> acct_error option \<times> 's BalanceBook" where
  "ConsumeFreeze freezeID amount b =
     (if amount \<le> 0 then (Some ErrInvalidAmount, b)
      else case getActiveFreezeLocked freezeID b of
             Inl err \<Rightarrow> (Some err, b)
           | Inr (record, balance) \<Rightarrow>
               if fr_Amount record < amount then (Some ConsumeExceedsFrozen, b)
               else
                 let balance1 = balance\<lparr>bal_Frozen := wrap64 (bal_Frozen balance - amount)\<rparr>;
                     left = wrap64 (fr_Amount record - amount);
                     record1 = (if left = 0 then record\<lparr>fr_Amount := left, fr_Consumed := True\<rparr>
                                else record\<lparr>fr_Amount := left\<rparr>)
                 in commitOrRestore freezeID (record, balance) (record1, balance1) b)"

definition GetBalance :: "i64 \<Rightarrow> string \<Rightarrow> 's BalanceBook \<Rightarrow> Balance" where
  "GetBalance userID asset b =
     (case map_of (balances b) (balanceKey userID asset) of
        None \<Rightarrow> zeroBalance userID asset
      | Some balance \<Rightarrow> balance)"

definition CreditAvailable :: "i64 \<Rightarrow> string \<Rightarrow> i64 \<Rightarrow> 's BalanceBook \<Rightarrow> acct_error option \<times> 's BalanceBook" where
  "CreditAvailable userID asset amount b =
     (if userID \<le> 0 \<or> amount \<le> 0 then (Some ErrInvalidAmount, b)
      else if normalizeAsset asset = '''' then (Some ErrInvalidAsset, b)
      else
        let key = balanceKey userID asset;
            balance = balanceOrZero userID asset b;
            balance1 = balance\<lparr>bal_Available := wrap64 (bal_Available balance + amount)\<rparr>
        in case persistBalance balance1 (putBalance key balance1 b) of
             (None, b1) \<Rightarrow> (None, b1)
           | (Some err, b1) \<Rightarrow>
               (Some err, putBalance key (balance1\<lparr>bal_Available := wrap64 (bal_Available balance1 - amount)\<rparr>) b1))"

definition DebitAvailable :: "i64 \<Rightarrow> string \<Rightarrow> i64 \<Rightarrow> 's BalanceBook \<Rightarrow> acct_error option \<times> 's BalanceBook" where
  "DebitAvailable userID asset amount b =
     (if userID \<le> 0 \<or> amount \<le> 0 then (Some ErrInvalidAmount, b)
      else if normalizeAsset asset = '''' then (Some ErrInvalidAsset, b)
      else
        let key = balanceKey userID asset
        in case map_of (balances b) key of
             None \<Rightarrow> (Some ErrInsufficientBalance, b)
           | Some balance \<Rightarrow>
               if bal_Available balance < amount then (Some ErrInsufficientBalance, b)
               else
                 let balance1 = balance\<lparr>bal_Available := wrap64 (bal_Available balance - amount)\<rparr>
                 in case persistBalance balance1 (putBalance key balance1 b) of
                      (None, b1) \<Rightarrow> (None, b1)
                    | (Some err, b1) \<Rightarrow>
                        (Some err, putBalance key (balance1\<lparr>bal_Available := wrap64 (bal_Available balance1 + amount)\<rparr>) b1))"

definition refKey :: "string \<Rightarrow> string \<Rightarrow> string" where
  "refKey refType refID = ToUpper (TrimSpace refType) @ '':'' @ TrimSpace refID"

definition CreditAvailableWithRef ::
    "CreditRequest \<Rightarrow> 's BalanceBook \<Rightarrow> (acct_error + Balance \<times> bool) \<times> 's BalanceBook" where
  "CreditAvailableWithRef req b =
     (if cq_UserID req \<le> 0 \<or> cq_Amount req \<le> 0 then (Inl ErrInvalidAmount, b)
      else if normalizeAsset (cq_Asset req) = '''' then (Inl ErrInvalidAsset, b)
      else if TrimSpace (cq_RefType req) = '''' \<or> TrimSpace (cq_RefID req) = '''' then (Inl ErrInvalidAmount, b)
      else case bb_store b of
        Some st \<Rightarrow>
          (case st_ApplyCreditEvent st
                 \<lparr>cq_UserID = cq_UserID req, cq_Asset = normalizeAsset (cq_Asset req), cq_Amount = cq_Amount req,
                  cq_RefType = ToUpper (TrimSpace (cq_RefType req)), cq_RefID = TrimSpace (cq_RefID req)\<rparr> (bb_db b) of
             (Inl err, db) \<Rightarrow> (Inl err, b\<lparr>bb_db := db\<rparr>)
           | (Inr (balance, applied), db) \<Rightarrow>
               (Inr (balance, applied),
                putBalance (balanceKey (bal_UserID balance) (bal_Asset balance)) balance (b\<lparr>bb_db := db\<rparr>)))
      | None \<Rightarrow>
          let key = refKey (cq_RefType req) (cq_RefID req)
          in if key \<in> set (processedRefs b) then (Inr (GetBalance (cq_UserID req) (cq_Asset req) b, False), b)
             else case CreditAvailable (cq_UserID req) (cq_Asset req) (cq_Amount req) b of
                    (Some err, b1) \<Rightarrow> (Inl err, b1)
                  | (None, b1) \<Rightarrow>
                      let b2 = b1\<lparr>processedRefs := List.insert key (processedRefs b1)\<rparr>
                      in (Inr (GetBalance (cq_UserID req) (cq_Asset req) b2, True), b2))"

definition DebitAvailableWithRef ::
    "DebitRequest \<Rightarrow> 's BalanceBook \<Rightarrow> (acct_error + Balance \<times> bool) \<times> 's BalanceBook" where
  "DebitAvailableWithRef req b =
     (if dq_UserID req \<le> 0 \<or> dq_Amount req \<le> 0 then (Inl ErrInvalidAmount, b)
      else if normalizeAsset (dq_Asset req) = '''' then (Inl ErrInvalidAsset, b)
      else if TrimSpace (dq_RefType req) = '''' \<or> TrimSpace (dq_RefID req) = '''' then (Inl ErrInvalidAmount, b)
      else case bb_store b of
        Some st \<Rightarrow>
          (case st_ApplyDebitEvent st
                 \<lparr>dq_UserID = dq_UserID req, dq_Asset = normalizeAsset (dq_Asset req), dq_Amount = dq_Amount req,
                  dq_RefType = ToUpper (TrimSpace (dq_RefType req)), dq_RefID = TrimSpace (dq_RefID req)\<rparr> (bb_db b) of
             (Inl err, db) \<Rightarrow> (Inl err, b\<lparr>bb_db := db\<rparr>)
           | (Inr (balance, applied), db) \<Rightarrow>
               (Inr (balance, applied),
                putBalance (balanceKey (bal_UserID balance) (bal_Asset balance)) balance (b\<lparr>bb_db := db\<rparr>)))
      | None \<Rightarrow>
          let key = refKey (dq_RefType req) (dq_RefID req)
          in if key \<in> set (processedRefs b) then (Inr (GetBalance (dq_UserID req) (dq_Asset req) b, False), b)
             else case DebitAvailable (dq_UserID req) (dq_Asset req) (dq_Amount req) b of
                    (Some err, b1) \<Rightarrow> (Inl err, b1)
                  | (None, b1) \<Rightarrow>
                      let b2 = b1\<lparr>processedRefs := List.insert key (processedRefs b1)\<rparr>
                      in (Inr (GetBalance (dq_UserID req) (dq_Asset req) b2, True), b2))"

text \<open>Loops over the freeze map; addition wraps and commutes, so the order of the map does not matter.\<close>

definition OutstandingFrozen :: "string \<Rightarrow> 's BalanceBook \<Rightarrow> i64" where
  "OutstandingFrozen asset b =
     fold (\<lambda>(_, record) total.
             if fr_Asset record \<noteq> normalizeAsset asset then total
             else if fr_Released record \<or> fr_Consumed record then total
             else wrap64 (total + fr_Amount record)) (freezes b) 0"

definition FreezeAmount :: "string \<Rightarrow> 's BalanceBook \<Rightarrow> i64 \<times> bool" where
  "FreezeAmount freezeID b =
     (case map_of (freezes b) freezeID of
        None \<Rightarrow> (0, False)
      | Some record \<Rightarrow> if fr_Released record \<or> fr_Consumed record then (0, True) else (fr_Amount record, True))"

definition Hydrate :: "Balance list \<Rightarrow> FreezeRecord list \<Rightarrow> 's BalanceBook \<Rightarrow> 's BalanceBook" where
  "Hydrate bs fs b =
     b\<lparr>balances := fold (\<lambda>item. let balance = item\<lparr>bal_Asset := normalizeAsset (bal_Asset item)\<rparr>
                               in AList.update (balanceKey (bal_UserID balance) (bal_Asset balance)) balance) bs [],
       freezes := fold (\<lambda>item. let record = item\<lparr>fr_Asset := normalizeAsset (fr_Asset item)\<rparr>
                               in AList.update (fr_FreezeID record) record) fs []\<rparr>"

definition BalanceCount :: "'s BalanceBook \<Rightarrow> int" where
  "BalanceCount b = int (length (balances b))"

section \<open>The invariant: frozen balances are backed by freeze records\<close>

definition closed :: "FreezeRecord \<Rightarrow> bool" where
  "closed r \<longleftrightarrow> fr_Released r \<or> fr_Consumed r"

abbreviation record_key :: "FreezeRecord \<Rightarrow> string" where
  "record_key r \<equiv> balanceKey (fr_UserID r) (fr_Asset r)"

definition frozen_of :: "string \<Rightarrow> (string \<times> FreezeRecord) list \<Rightarrow> int" where
  "frozen_of k = entry_sum (\<lambda>_ r. if record_key r = k then fr_Amount r else 0)"

definition record_ok :: "string \<Rightarrow> FreezeRecord \<Rightarrow> bool" where
  "record_ok i r \<longleftrightarrow> fr_FreezeID r = i \<and> 0 \<le> fr_Amount r \<and> fr_Amount r \<le> fr_OriginalAmount r \<and>
     (closed r \<longleftrightarrow> fr_Amount r = 0)"

definition balance_ok :: "string \<Rightarrow> Balance \<Rightarrow> bool" where
  "balance_ok k bal \<longleftrightarrow> balanceKey (bal_UserID bal) (bal_Asset bal) = k \<and> normalizeAsset (bal_Asset bal) = bal_Asset bal \<and>
     0 \<le> bal_Available bal \<and> 0 \<le> bal_Frozen bal \<and> bal_Available bal + bal_Frozen bal \<le> MaxInt64"

definition book_ok :: "'s BalanceBook \<Rightarrow> bool" where
  "book_ok b \<longleftrightarrow> distinct (map fst (balances b)) \<and> distinct (map fst (freezes b)) \<and>
     (\<forall>k bal. map_of (balances b) k = Some bal \<longrightarrow> balance_ok k bal \<and> bal_Frozen bal = frozen_of k (freezes b)) \<and>
     (\<forall>i r. map_of (freezes b) i = Some r \<longrightarrow> record_ok i r \<and> map_of (balances b) (record_key r) \<noteq> None)"

lemma book_okD:
  assumes "book_ok b"
  shows "distinct (map fst (balances b))" and "distinct (map fst (freezes b))"
    and "map_of (balances b) k = Some bal \<Longrightarrow> balance_ok k bal \<and> bal_Frozen bal = frozen_of k (freezes b)"
    and "map_of (freezes b) i = Some r \<Longrightarrow> record_ok i r \<and> map_of (balances b) (record_key r) \<noteq> None"
  using assms unfolding book_ok_def by blast+

lemma put_simps [book_simps]:
  "balances (putBalance k bal b) = AList.update k bal (balances b)" "freezes (putBalance k bal b) = freezes b"
  "processedRefs (putBalance k bal b) = processedRefs b" "bb_store (putBalance k bal b) = bb_store b"
  "bb_db (putBalance k bal b) = bb_db b"
  "balances (putFreeze i r b) = balances b" "freezes (putFreeze i r b) = AList.update i r (freezes b)"
  "processedRefs (putFreeze i r b) = processedRefs b" "bb_store (putFreeze i r b) = bb_store b"
  "bb_db (putFreeze i r b) = bb_db b"
  "balances (putBoth i r bal b) = AList.update (record_key r) bal (balances b)"
  "freezes (putBoth i r bal b) = AList.update i r (freezes b)"
  "processedRefs (putBoth i r bal b) = processedRefs b" "bb_store (putBoth i r bal b) = bb_store b"
  by (simp_all add: putBalance_def putFreeze_def putBoth_def)

lemma normalizeAsset_idem [simp]: "normalizeAsset (normalizeAsset a) = normalizeAsset a"
  by (simp add: normalizeAsset_def TrimSpace_ToUpper str_simps)

lemma balanceKey_normalize [simp]: "balanceKey u (normalizeAsset a) = balanceKey u a"
  by (simp add: balanceKey_def)

lemma balanceKey_inject: "balanceKey u a = balanceKey u' a' \<longleftrightarrow> u = u' \<and> normalizeAsset a = normalizeAsset a'"
  using itoa_key_inject by (simp add: balanceKey_def)

lemma frozen_of_update:
  assumes "distinct (map fst fs)" and "\<And>r0. map_of fs i = Some r0 \<Longrightarrow> record_key r0 = record_key r"
  shows "frozen_of k (AList.update i r fs) =
    (if k = record_key r then frozen_of k fs - (case map_of fs i of None \<Rightarrow> 0 | Some r0 \<Rightarrow> fr_Amount r0) + fr_Amount r
     else frozen_of k fs)"
  using assms by (cases "map_of fs i") (auto simp: frozen_of_def map_simps)

lemma frozen_of_none:
  assumes "book_ok b" and "map_of (balances b) k = None"
  shows "frozen_of k (freezes b) = 0"
  unfolding frozen_of_def
proof (rule entry_sum_zero)
  fix i r assume "(i, r) \<in> set (freezes b)"
  then have "map_of (freezes b) i = Some r" using book_okD(2) [OF assms(1)] by simp
  then show "(if record_key r = k then fr_Amount r else 0) = 0" using book_okD(4) [OF assms(1), of i r] assms(2) by auto
qed

lemma balanceOrZero_facts:
  assumes "book_ok b"
  shows "balance_ok (balanceKey u a) (balanceOrZero u a b)"
    and "bal_Frozen (balanceOrZero u a b) = frozen_of (balanceKey u a) (freezes b)"
  using book_okD(3) [OF assms, of "balanceKey u a"] frozen_of_none [OF assms, of "balanceKey u a"]
  by (cases "map_of (balances b) (balanceKey u a)";
      simp add: balanceOrZero_def zeroBalance_def balance_ok_def)+

text \<open>The two ways an operation writes the book keep the invariant.\<close>

lemma book_ok_putBoth:
  assumes ok: "book_ok b" and r: "record_ok i r" and bal: "balance_ok (record_key r) bal"
    and old: "\<And>r0. map_of (freezes b) i = Some r0 \<Longrightarrow> record_key r0 = record_key r"
    and fro: "bal_Frozen bal = frozen_of (record_key r) (freezes b) -
      (case map_of (freezes b) i of None \<Rightarrow> 0 | Some r0 \<Rightarrow> fr_Amount r0) + fr_Amount r"
  shows "book_ok (putBoth i r bal b)"
proof -
  note D = book_okD [OF ok] and U = frozen_of_update [OF D(2) old]
  show ?thesis
    unfolding book_ok_def
  proof (intro conjI allI impI)
    show "distinct (map fst (balances (putBoth i r bal b)))" "distinct (map fst (freezes (putBoth i r bal b)))"
      using D(1,2) by (simp_all add: book_simps map_simps)
  next
    fix k b1 assume "map_of (balances (putBoth i r bal b)) k = Some b1"
    then show "balance_ok k b1" and "bal_Frozen b1 = frozen_of k (freezes (putBoth i r bal b))"
      using D(3) bal fro U by (auto simp: book_simps map_simps split: if_splits)
  next
    fix j r1 assume "map_of (freezes (putBoth i r bal b)) j = Some r1"
    then show "record_ok j r1" and "map_of (balances (putBoth i r bal b)) (record_key r1) \<noteq> None"
      using D(4) r by (auto simp: book_simps map_simps split: if_splits)
  qed
qed

lemma book_ok_putBalance:
  assumes ok: "book_ok b" and bal: "balance_ok k bal" "bal_Frozen bal = frozen_of k (freezes b)"
  shows "book_ok (putBalance k bal b)"
  using book_okD [OF ok] bal unfolding book_ok_def by (auto simp: book_simps map_simps)

lemma book_ok_db [simp]: "book_ok (b\<lparr>bb_db := db\<rparr>) = book_ok b" "book_ok (b\<lparr>processedRefs := ps\<rparr>) = book_ok b"
  by (simp_all add: book_ok_def)

lemma persist_db:
  "persistBalance bal b = (err, b') \<Longrightarrow> \<exists>db. b' = b\<lparr>bb_db := db\<rparr>"
  "persistBalanceAndFreeze bal r b = (err, b') \<Longrightarrow> \<exists>db. b' = b\<lparr>bb_db := db\<rparr>"
  by (auto simp: persistBalance_def persistBalanceAndFreeze_def split: option.splits prod.splits)
     (metis BalanceBook.surjective BalanceBook.update_convs(5))+

lemma NewBalanceBook_ok: "book_ok (NewBalanceBook db)" "book_ok (NewBalanceBookWithStore st db)"
  by (simp_all add: book_ok_def NewBalanceBook_def NewBalanceBookWithStore_def)

section \<open>Operations keep the invariant, and failed operations keep the funds\<close>

text \<open>What all accounts together hold of an asset.\<close>

definition total_of :: "string \<Rightarrow> 's BalanceBook \<Rightarrow> int" where
  "total_of a b = entry_sum (\<lambda>_ bal. if bal_Asset bal = a then bal_Available bal + bal_Frozen bal else 0) (balances b)"

lemma total_of_simps [simp]: "total_of a (b\<lparr>bb_db := db\<rparr>) = total_of a b" "total_of a (b\<lparr>freezes := fs\<rparr>) = total_of a b"
  "total_of a (b\<lparr>processedRefs := ps\<rparr>) = total_of a b" "total_of a (putFreeze i r b) = total_of a b"
  by (simp_all add: total_of_def putFreeze_def)

lemma balanceOrZero_asset: "book_ok b \<Longrightarrow> bal_Asset (balanceOrZero u a b) = normalizeAsset a"
  using balanceOrZero_facts(1) [of b u a] by (auto simp: balance_ok_def balanceKey_inject)

text \<open>Writing a balance changes the total of its asset by the difference.\<close>

lemma total_of_put:
  assumes ok: "book_ok b" and bal: "bal_Asset bal = normalizeAsset a"
  shows "total_of x (putBalance (balanceKey u a) bal b) = total_of x b +
    (if x = normalizeAsset a then bal_Available bal + bal_Frozen bal -
       (bal_Available (balanceOrZero u a b) + bal_Frozen (balanceOrZero u a b)) else 0)"
proof (cases "map_of (balances b) (balanceKey u a)")
  case None
  then show ?thesis using book_okD(1) [OF ok] bal
    by (simp add: total_of_def book_simps map_simps balanceOrZero_def zeroBalance_def)
next
  case (Some bal0)
  then have "bal_Asset bal0 = normalizeAsset a" "balanceOrZero u a b = bal0"
    using balanceOrZero_asset [OF ok, of u a] by (simp_all add: balanceOrZero_def)
  then show ?thesis using book_okD(1) [OF ok] bal Some by (simp add: total_of_def book_simps map_simps)
qed

text \<open>Two books hold the same funds: every balance, every total and every freeze record reads the same.\<close>

definition same_funds :: "'s BalanceBook \<Rightarrow> 's BalanceBook \<Rightarrow> bool" where
  "same_funds b b' \<longleftrightarrow> (\<forall>u a. GetBalance u a b' = GetBalance u a b) \<and> (\<forall>i. map_of (freezes b') i = map_of (freezes b) i) \<and>
     (\<forall>x. total_of x b' = total_of x b)"

lemma same_funds_refl [simp]: "same_funds b b" "same_funds b (b\<lparr>bb_db := db\<rparr>)"
  by (simp_all add: same_funds_def GetBalance_def)

lemma GetBalance_orZero: "GetBalance u a b = balanceOrZero u a b"
  by (simp add: GetBalance_def balanceOrZero_def)

lemma normalize_zero: "normalizeAsset a = normalizeAsset a' \<Longrightarrow> zeroBalance u a = zeroBalance u a'"
  by (simp add: zeroBalance_def)

lemma GetBalance_put:
  "GetBalance u a (putBalance (balanceKey u' a') bal b) =
     (if u = u' \<and> normalizeAsset a = normalizeAsset a' then bal else GetBalance u a b)"
  by (auto simp: GetBalance_def book_simps map_simps balanceKey_inject)

lemma GetBalance_putBoth:
  "GetBalance u a (putBoth i r bal b) =
     (if u = fr_UserID r \<and> normalizeAsset a = normalizeAsset (fr_Asset r) then bal else GetBalance u a b)"
  by (auto simp: GetBalance_def book_simps map_simps balanceKey_inject)

lemma GetBalance_more [simp]: "GetBalance u a (b\<lparr>bb_db := db\<rparr>) = GetBalance u a b"
  "GetBalance u a (b\<lparr>freezes := fs\<rparr>) = GetBalance u a b" "GetBalance u a (b\<lparr>processedRefs := ps\<rparr>) = GetBalance u a b"
  by (simp_all add: GetBalance_def)

lemma GetBalance_putFreeze [simp]: "GetBalance u a (putFreeze i r b) = GetBalance u a b"
  by (simp add: putFreeze_def)

lemma GetBalance_cong: "normalizeAsset a = normalizeAsset a' \<Longrightarrow> GetBalance u a b = GetBalance u a' b"
  by (auto simp: GetBalance_def balanceKey_def zeroBalance_def split: option.splits)

definition active_freeze :: "string \<Rightarrow> FreezeRecord \<Rightarrow> Balance \<Rightarrow> 's BalanceBook \<Rightarrow> bool" where
  "active_freeze i r bal b \<longleftrightarrow> map_of (freezes b) i = Some r \<and> map_of (balances b) (record_key r) = Some bal \<and>
     \<not> closed r \<and> record_ok i r \<and> balance_ok (record_key r) bal \<and> 0 < fr_Amount r \<and> fr_Amount r \<le> bal_Frozen bal \<and>
     bal_Frozen bal = frozen_of (record_key r) (freezes b)"

lemma getActive_facts:
  assumes ok: "book_ok b" and g: "getActiveFreezeLocked i b = Inr (r, bal)"
  shows "active_freeze i r bal b"
proof -
  have m: "map_of (freezes b) i = Some r" "map_of (balances b) (record_key r) = Some bal" "\<not> closed r"
    using g by (auto simp: getActiveFreezeLocked_def closed_def split: option.splits if_splits)
  have ro: "record_ok i r" using book_okD(4) [OF ok m(1)] by blast
  have bo: "balance_ok (record_key r) bal" "bal_Frozen bal = frozen_of (record_key r) (freezes b)"
    using book_okD(3) [OF ok m(2)] by auto
  have "0 < fr_Amount r" using ro m(3) by (auto simp: record_ok_def order.strict_iff_order)
  moreover have "fr_Amount r \<le> frozen_of (record_key r) (freezes b)"
    unfolding frozen_of_def
  proof (rule order_trans [OF _ entry_sum_ge [OF m(1)]])
    fix j r' assume "(j, r') \<in> set (freezes b)"
    then have "map_of (freezes b) j = Some r'" using book_okD(2) [OF ok] by simp
    then show "0 \<le> (if record_key r' = record_key r then fr_Amount r' else 0)"
      using book_okD(4) [OF ok, of j r'] by (simp add: record_ok_def)
  qed simp
  ultimately show ?thesis using m ro bo by (simp add: active_freeze_def)
qed

lemma commitOrRestore_cases:
  assumes "commitOrRestore i (r, bal) (r', bal') b = (err, b')" and "active_freeze i r bal b"
    and "record_key r' = record_key r"
  shows "err = None \<and> (\<exists>db. b' = (putBoth i r' bal' b)\<lparr>bb_db := db\<rparr>) \<or>
    err \<noteq> None \<and> (\<exists>db. b' = (putBoth i r bal (putBoth i r' bal' b))\<lparr>bb_db := db\<rparr>)"
proof -
  obtain e1 b1 where p: "persistBalanceAndFreeze bal' r' (putBoth i r' bal' b) = (e1, b1)" by fastforce
  obtain db where "b1 = (putBoth i r' bal' b)\<lparr>bb_db := db\<rparr>" using persist_db(2) [OF p] by blast
  moreover have "putBoth i r bal (x\<lparr>bb_db := db\<rparr>) = (putBoth i r bal x)\<lparr>bb_db := db\<rparr>" for x :: "'a BalanceBook"
    by (simp add: putBoth_def putBalance_def putFreeze_def)
  ultimately show ?thesis using assms(1) p by (auto simp: commitOrRestore_def split: option.splits)
qed

lemma commitOrRestore_ok:
  assumes ok: "book_ok b" and c: "commitOrRestore i (r, bal) (r', bal') b = (err, b')" and act: "active_freeze i r bal b"
    and key: "record_key r' = record_key r" and r': "record_ok i r'" and bal': "balance_ok (record_key r) bal'"
    and fro: "bal_Frozen bal' - bal_Frozen bal = fr_Amount r' - fr_Amount r"
  shows "book_ok b'" and "err \<noteq> None \<Longrightarrow> same_funds b b'"
proof -
  have A: "map_of (freezes b) i = Some r" "map_of (balances b) (record_key r) = Some bal" "record_ok i r"
    "balance_ok (record_key r) bal" "bal_Frozen bal = frozen_of (record_key r) (freezes b)"
    using act by (simp_all add: active_freeze_def)
  let ?b1 = "putBoth i r' bal' b"
  have ok1: "book_ok ?b1" using A fro by (intro book_ok_putBoth [OF ok r']) (auto simp: key bal')
  have f1: "frozen_of (record_key r) (freezes ?b1) = bal_Frozen bal'"
    using A fro frozen_of_update [OF book_okD(2) [OF ok], of i r' "record_key r"] by (simp add: book_simps key)
  have ok2: "book_ok (putBoth i r bal ?b1)"
    using A fro f1 by (intro book_ok_putBoth [OF ok1]) (auto simp: key book_simps map_simps)
  note cases = commitOrRestore_cases [OF c act key]
  show "book_ok b'" using cases ok1 ok2 by auto
  have "total_of x (putBoth i r bal ?b1) = total_of x b" for x
    using A(2) by (simp add: total_of_def book_simps key update_overwrite update_triv)
  then have "same_funds b (putBoth i r bal ?b1)"
    using A(1,2) by (auto simp: same_funds_def GetBalance_def book_simps map_simps key)
  then show "err \<noteq> None \<Longrightarrow> same_funds b b'"
    using cases by (auto simp: same_funds_def)
qed

lemma wrap64_range: "0 \<le> x \<Longrightarrow> x \<le> MaxInt64 \<Longrightarrow> wrap64 x = x"
  by (simp add: wrap64_id)

text \<open>What the three closing operations do to the record and the balance when they are allowed.\<close>

lemma closing_step:
  assumes act: "active_freeze i r bal b" and amt: "0 < amount" "amount \<le> fr_Amount r"
  shows "wrap64 (fr_Amount r - amount) = fr_Amount r - amount"
    and "wrap64 (bal_Frozen bal - amount) = bal_Frozen bal - amount"
    and "wrap64 (bal_Available bal + amount) = bal_Available bal + amount"
    and "balance_ok (record_key r) (bal\<lparr>bal_Frozen := bal_Frozen bal - amount, bal_Available := bal_Available bal + amount\<rparr>)"
    and "balance_ok (record_key r) (bal\<lparr>bal_Frozen := bal_Frozen bal - amount\<rparr>)"
    and "record_ok i (if fr_Amount r - amount = 0 then r\<lparr>fr_Amount := fr_Amount r - amount, fr_Released := True\<rparr>
       else r\<lparr>fr_Amount := fr_Amount r - amount\<rparr>)"
    and "record_ok i (if fr_Amount r - amount = 0 then r\<lparr>fr_Amount := fr_Amount r - amount, fr_Consumed := True\<rparr>
       else r\<lparr>fr_Amount := fr_Amount r - amount\<rparr>)"
  using act amt by (auto simp: active_freeze_def balance_ok_def record_ok_def closed_def wrap64_range)

text \<open>An operation moves the available and frozen amount of one account and touches no other.\<close>

definition moved :: "i64 \<Rightarrow> string \<Rightarrow> int \<Rightarrow> int \<Rightarrow> 's BalanceBook \<Rightarrow> 's BalanceBook \<Rightarrow> bool" where
  "moved u a dA dF b b' \<longleftrightarrow>
     bal_Available (GetBalance u a b') = bal_Available (GetBalance u a b) + dA \<and>
     bal_Frozen (GetBalance u a b') = bal_Frozen (GetBalance u a b) + dF \<and>
     (\<forall>u' a'. u' \<noteq> u \<or> normalizeAsset a' \<noteq> normalizeAsset a \<longrightarrow> GetBalance u' a' b' = GetBalance u' a' b) \<and>
     (\<forall>x. total_of x b' = total_of x b + (if x = normalizeAsset a then dA + dF else 0))"

lemma commit_moved:
  assumes ok: "book_ok b" and c: "commitOrRestore i (r, bal) (r', bal') b = (None, b')" and act: "active_freeze i r bal b"
    and key: "record_key r' = record_key r" and asset: "bal_Asset bal' = bal_Asset bal"
  shows "moved (fr_UserID r) (fr_Asset r) (bal_Available bal' - bal_Available bal) (bal_Frozen bal' - bal_Frozen bal) b b'"
    and "map_of (freezes b') = (map_of (freezes b))(i \<mapsto> r')"
proof -
  obtain db where b': "b' = (putBoth i r' bal' b)\<lparr>bb_db := db\<rparr>" using commitOrRestore_cases [OF c act key] by auto
  have g: "GetBalance (fr_UserID r) (fr_Asset r) b = bal"
    using act by (simp add: active_freeze_def GetBalance_def)
  have "bal_Asset bal' = normalizeAsset (fr_Asset r)"
    using balanceOrZero_asset [OF ok, of "fr_UserID r" "fr_Asset r"] g asset by (simp add: GetBalance_orZero)
  then have "total_of x b' = total_of x b + (if x = normalizeAsset (fr_Asset r) then
      bal_Available bal' + bal_Frozen bal' - (bal_Available bal + bal_Frozen bal) else 0)" for x
    using total_of_put [OF ok, of bal' "fr_Asset r" x "fr_UserID r"] g
    by (simp add: b' putBoth_def key GetBalance_orZero)
  then show "moved (fr_UserID r) (fr_Asset r) (bal_Available bal' - bal_Available bal) (bal_Frozen bal' - bal_Frozen bal) b b'"
    using key g by (auto simp: moved_def b' GetBalance_putBoth balanceKey_inject)
  show "map_of (freezes b') = (map_of (freezes b))(i \<mapsto> r')" by (auto simp: b' book_simps map_simps)
qed

text \<open>Releasing and consuming: the funds of one active freeze, or nothing.\<close>

definition closing :: "string \<Rightarrow> int \<Rightarrow> bool \<Rightarrow> 's BalanceBook \<Rightarrow> acct_error option \<Rightarrow> 's BalanceBook \<Rightarrow> bool" where
  "closing i amount refund b err b' \<longleftrightarrow> book_ok b' \<and> processedRefs b' = processedRefs b \<and> bb_store b' = bb_store b \<and>
     (err \<noteq> None \<longrightarrow> same_funds b b') \<and>
     (err = None \<longrightarrow> (\<exists>r bal r'. active_freeze i r bal b \<and> 0 < amount \<and> amount \<le> fr_Amount r \<and>
        moved (fr_UserID r) (fr_Asset r) (if refund then amount else 0) (- amount) b b' \<and>
        map_of (freezes b') = (map_of (freezes b))(i \<mapsto> r') \<and> fr_Amount r' = fr_Amount r - amount \<and>
        record_key r' = record_key r))"

lemma closing_error: "book_ok b \<Longrightarrow> closing i amount refund b (Some err) b"
  by (simp add: closing_def)

lemma closing_commit:
  assumes ok: "book_ok b" and act: "active_freeze i r bal b" and amt: "0 < amount" "amount \<le> fr_Amount r"
    and r': "record_ok i r'" "fr_Amount r' = fr_Amount r - amount" "fr_UserID r' = fr_UserID r" "fr_Asset r' = fr_Asset r"
    and bal': "bal' = bal\<lparr>bal_Frozen := bal_Frozen bal - amount,
       bal_Available := bal_Available bal + (if refund then amount else 0)\<rparr>"
    and c: "commitOrRestore i (r, bal) (r', bal') b = (err, b')"
  shows "closing i amount refund b err b'"
proof -
  have bo: "balance_ok (record_key r) bal'"
    using closing_step(4,5) [OF act amt] by (cases refund) (simp_all add: bal')
  have key: "record_key r' = record_key r" using r'(3,4) by simp
  have fro: "bal_Frozen bal' - bal_Frozen bal = fr_Amount r' - fr_Amount r" using r'(2) by (simp add: bal')
  note K = commitOrRestore_ok [OF ok c act key r'(1) bo fro]
  have P: "processedRefs b' = processedRefs b" "bb_store b' = bb_store b"
    using commitOrRestore_cases [OF c act key] by (auto simp: book_simps)
  show ?thesis
  proof (cases err)
    case None
    have "moved (fr_UserID r) (fr_Asset r) (if refund then amount else 0) (- amount) b b'"
      and "map_of (freezes b') = (map_of (freezes b))(i \<mapsto> r')"
      using commit_moved [OF ok c [unfolded None] act key] by (simp_all add: bal')
    then show ?thesis using K P act amt r'(2) key None unfolding closing_def by blast
  next
    case (Some e)
    then show ?thesis using K P by (simp add: closing_def)
  qed
qed

lemma ReleaseFreezeAmount_closing:
  assumes ok: "book_ok b" and e: "ReleaseFreezeAmount i amount b = (err, b')"
  shows "closing i amount True b err b'"
proof (cases "getActiveFreezeLocked i b")
  case (Inl x)
  then show ?thesis using e closing_error [OF ok] by (auto simp: ReleaseFreezeAmount_def split: if_splits)
next
  case (Inr p)
  obtain r bal where p: "p = (r, bal)" by fastforce
  note act = getActive_facts [OF ok Inr [unfolded p]]
  show ?thesis
  proof (cases "0 < amount \<and> amount \<le> fr_Amount r")
    case True
    then have amt: "0 < amount" "amount \<le> fr_Amount r" by auto
    note S = closing_step [OF act amt]
    have "commitOrRestore i (r, bal)
        (if fr_Amount r - amount = 0 then r\<lparr>fr_Amount := fr_Amount r - amount, fr_Released := True\<rparr>
          else r\<lparr>fr_Amount := fr_Amount r - amount\<rparr>,
         bal\<lparr>bal_Frozen := bal_Frozen bal - amount, bal_Available := bal_Available bal + amount\<rparr>) b = (err, b')"
      using e amt by (simp add: ReleaseFreezeAmount_def Inr p S(1-3) Let_def)
    then show ?thesis by (intro closing_commit [OF ok act amt S(6)]) auto
  next
    case False
    then show ?thesis using e closing_error [OF ok] by (auto simp: ReleaseFreezeAmount_def Inr p split: if_splits)
  qed
qed

lemma ConsumeFreeze_closing:
  assumes ok: "book_ok b" and e: "ConsumeFreeze i amount b = (err, b')"
  shows "closing i amount False b err b'"
proof (cases "getActiveFreezeLocked i b")
  case (Inl x)
  then show ?thesis using e closing_error [OF ok] by (auto simp: ConsumeFreeze_def split: if_splits)
next
  case (Inr p)
  obtain r bal where p: "p = (r, bal)" by fastforce
  note act = getActive_facts [OF ok Inr [unfolded p]]
  show ?thesis
  proof (cases "0 < amount \<and> amount \<le> fr_Amount r")
    case True
    then have amt: "0 < amount" "amount \<le> fr_Amount r" by auto
    note S = closing_step [OF act amt]
    have "commitOrRestore i (r, bal)
        (if fr_Amount r - amount = 0 then r\<lparr>fr_Amount := fr_Amount r - amount, fr_Consumed := True\<rparr>
          else r\<lparr>fr_Amount := fr_Amount r - amount\<rparr>,
         bal\<lparr>bal_Frozen := bal_Frozen bal - amount\<rparr>) b = (err, b')"
      using e amt by (simp add: ConsumeFreeze_def Inr p S(1-3) Let_def)
    then show ?thesis by (intro closing_commit [OF ok act amt S(7)]) auto
  next
    case False
    then show ?thesis using e closing_error [OF ok] by (auto simp: ConsumeFreeze_def Inr p split: if_splits)
  qed
qed

lemma ReleaseFreeze_closing:
  assumes ok: "book_ok b" and e: "ReleaseFreeze i b = (err, b')"
  shows "\<exists>amount. closing i amount True b err b' \<and> (err = None \<longrightarrow> FreezeAmount i b = (amount, True) \<and> FreezeAmount i b' = (0, True))"
proof (cases "getActiveFreezeLocked i b")
  case (Inl x)
  then show ?thesis using e closing_error [OF ok] by (auto simp: ReleaseFreeze_def)
next
  case (Inr p)
  obtain r bal where p: "p = (r, bal)" by fastforce
  note act = getActive_facts [OF ok Inr [unfolded p]]
  have amt: "0 < fr_Amount r" "fr_Amount r \<le> fr_Amount r" using act by (simp_all add: active_freeze_def)
  note S = closing_step [OF act amt]
  let ?r = "r\<lparr>fr_Amount := 0, fr_Released := True\<rparr>"
  let ?bal = "bal\<lparr>bal_Frozen := bal_Frozen bal - fr_Amount r, bal_Available := bal_Available bal + fr_Amount r\<rparr>"
  have c: "commitOrRestore i (r, bal) (?r, ?bal) b = (err, b')"
    using e by (simp add: ReleaseFreeze_def releaseLocked_def Inr p S(1-3))
  have "closing i (fr_Amount r) True b err b'"
    using S(6) c by (intro closing_commit [OF ok act amt, of ?r]) auto
  moreover have "FreezeAmount i b = (fr_Amount r, True)"
    using act by (simp add: FreezeAmount_def active_freeze_def closed_def)
  moreover have "err = None \<Longrightarrow> FreezeAmount i b' = (0, True)"
    using commit_moved(2) [OF ok _ act, of ?r ?bal b'] c by (simp add: FreezeAmount_def)
  ultimately show ?thesis by blast
qed

lemma same_funds_putZero: "book_ok b \<Longrightarrow> same_funds b (putBalance (balanceKey u a) (balanceOrZero u a b) b)"
  by (auto simp: same_funds_def GetBalance_put GetBalance_orZero [symmetric] book_simps total_of_put
      balanceOrZero_asset [folded GetBalance_orZero] intro: GetBalance_cong)

lemma same_funds_trans: "same_funds b c \<Longrightarrow> same_funds c d \<Longrightarrow> same_funds b d"
  by (simp add: same_funds_def)

lemma moved_same: "same_funds b c \<Longrightarrow> moved u a dA dF c d \<Longrightarrow> moved u a dA dF b d"
  by (simp add: same_funds_def moved_def)

text \<open>A successful freeze, and that a failed one changes no funds.\<close>

definition froze :: "FreezeRequest \<Rightarrow> FreezeRecord \<Rightarrow> 's BalanceBook \<Rightarrow> 's BalanceBook \<Rightarrow> bool" where
  "froze req r b b' \<longleftrightarrow> 0 < fq_Amount req \<and> fq_Amount req \<le> bal_Available (GetBalance (fq_UserID req) (fq_Asset req) b) \<and>
     moved (fq_UserID req) (fq_Asset req) (- fq_Amount req) (fq_Amount req) b b' \<and>
     map_of (freezes b) (fr_FreezeID r) = None \<and> map_of (freezes b') = (map_of (freezes b))(fr_FreezeID r \<mapsto> r) \<and>
     fr_Amount r = fq_Amount req \<and> fr_UserID r = fq_UserID req \<and> fr_Asset r = normalizeAsset (fq_Asset req) \<and> \<not> closed r"

lemma PreFreeze_facts:
  assumes ok: "book_ok b" and pf: "PreFreeze newID req b = (res, b')"
  shows "book_ok b' \<and> (case res of Inl err \<Rightarrow> same_funds b b' | Inr r \<Rightarrow> froze req r b b')"
proof (cases "fq_UserID req \<le> 0 \<or> fq_Amount req \<le> 0 \<or> normalizeAsset (fq_Asset req) = ''''")
  case True
  then have "\<exists>err. PreFreeze newID req b = (Inl err, b)"
    by (cases "fq_UserID req \<le> 0"; cases "fq_Amount req \<le> 0") (simp_all add: PreFreeze_def)
  then show ?thesis using pf ok by auto
next
  case valid: False
  define u a amt where "u = fq_UserID req" "a = fq_Asset req" "amt = fq_Amount req"
  define bal where "bal = balanceOrZero u a b"
  define b1 where "b1 = putBalance (balanceKey u a) bal b"
  define i where "i = (if TrimSpace (fq_FreezeID req) = '''' then newID else TrimSpace (fq_FreezeID req))"
  define r where "r = \<lparr>fr_FreezeID = i, fr_UserID = u, fr_Asset = normalizeAsset a, fr_RefType = fq_RefType req,
    fr_RefID = fq_RefID req, fr_OriginalAmount = amt, fr_Amount = amt, fr_Released = False, fr_Consumed = False\<rparr>"
  have B: "balance_ok (balanceKey u a) bal" "bal_Frozen bal = frozen_of (balanceKey u a) (freezes b)"
    unfolding bal_def by (rule balanceOrZero_facts [OF ok])+
  have ok1: "book_ok b1" unfolding b1_def by (rule book_ok_putBalance [OF ok B])
  have s1: "same_funds b b1" unfolding b1_def bal_def by (rule same_funds_putZero [OF ok])
  have amt: "0 < amt" using valid by (auto simp: u_a_amt_def)
  have key: "record_key r = balanceKey u a" by (simp add: r_def)
  define bal1 where "bal1 = bal\<lparr>bal_Available := wrap64 (bal_Available bal - amt), bal_Frozen := wrap64 (bal_Frozen bal + amt)\<rparr>"
  have v: "\<not> u \<le> 0" "\<not> amt \<le> 0" "normalizeAsset a \<noteq> ''''"
    using valid by (auto simp: u_a_amt_def)
  have run: "PreFreeze newID req b =
      (if bal_Available bal < amt then (Inl ErrInsufficientBalance, b1)
       else if map_of (freezes b) i \<noteq> None then (Inl ErrFreezeAlreadyExists, b1)
       else case persistBalanceAndFreeze bal1 r (putFreeze i r (putBalance (balanceKey u a) bal1 b1)) of
          (None, b3) \<Rightarrow> (Inr r, b3)
        | (Some er, b3) \<Rightarrow> (Inl er, (putBalance (balanceKey u a)
            (bal1\<lparr>bal_Available := wrap64 (bal_Available bal1 + amt), bal_Frozen := wrap64 (bal_Frozen bal1 - amt)\<rparr>) b3)
            \<lparr>freezes := AList.delete i (freezes b3)\<rparr>))"
    unfolding PreFreeze_def Let_def put_simps(2) u_a_amt_def [symmetric] i_def [symmetric] bal_def [symmetric]
      b1_def [symmetric] r_def [symmetric] bal1_def [symmetric]
    using v by simp
  consider (poor) "bal_Available bal < amt" | (dup) "amt \<le> bal_Available bal" "map_of (freezes b) i \<noteq> None"
    | (go) "amt \<le> bal_Available bal" "map_of (freezes b) i = None" by fastforce
  then show ?thesis
  proof cases
    case poor
    then have "(res, b') = (Inl ErrInsufficientBalance, b1)" using pf unfolding run by simp
    then show ?thesis using ok1 s1 by simp
  next
    case dup
    then have "(res, b') = (Inl ErrFreezeAlreadyExists, b1)" using pf unfolding run by simp
    then show ?thesis using ok1 s1 by simp
  next
    case go
    have w: "wrap64 (bal_Available bal - amt) = bal_Available bal - amt" "wrap64 (bal_Frozen bal + amt) = bal_Frozen bal + amt"
      using go(1) amt B(1) by (simp_all add: balance_ok_def wrap64_range)
    have bal1: "balance_ok (record_key r) bal1"
      using go(1) amt B(1) by (simp add: bal1_def balance_ok_def key w)
    have b2: "putFreeze i r (putBalance (balanceKey u a) bal1 b1) = putBoth i r bal1 b1"
      by (simp add: putBoth_def key)
    obtain err b3 where p: "persistBalanceAndFreeze bal1 r (putBoth i r bal1 b1) = (err, b3)" by fastforce
    obtain db where b3: "b3 = (putBoth i r bal1 b1)\<lparr>bb_db := db\<rparr>" using persist_db(2) [OF p] by blast
    have undo: "wrap64 (bal_Available bal1 + amt) = bal_Available bal" "wrap64 (bal_Frozen bal1 - amt) = bal_Frozen bal"
      using B(1) by (simp_all add: bal1_def balance_ok_def wrap64_range w)
    have undo1: "bal1\<lparr>bal_Available := wrap64 (bal_Available bal1 + amt), bal_Frozen := wrap64 (bal_Frozen bal1 - amt)\<rparr> = bal"
      unfolding undo by (simp add: bal1_def)
    have go_run: "PreFreeze newID req b = (case err of None \<Rightarrow> (Inr r, b3)
        | Some er \<Rightarrow> (Inl er, (putBalance (balanceKey u a) bal b3)\<lparr>freezes := AList.delete i (freezes b3)\<rparr>))"
      unfolding run b2 p undo1 using go by (simp split: option.splits)
    show ?thesis
    proof (cases err)
      case None
      then have res: "res = Inr r" "b' = b3" using pf go_run by simp_all
      have "bal_Frozen bal1 = frozen_of (balanceKey u a) (freezes b) + amt" unfolding bal1_def w using B(2) by simp
      then have "book_ok (putBoth i r bal1 b1)"
        using go(2) amt
        by (intro book_ok_putBoth [OF ok1 _ bal1]) (auto simp: key b1_def book_simps, auto simp: r_def record_ok_def closed_def)
      moreover have "bal_Asset bal1 = normalizeAsset a" "balanceOrZero u a b1 = bal"
        using balanceOrZero_asset [OF ok, of u a] by (simp_all add: bal1_def bal_def b1_def balanceOrZero_def book_simps map_simps)
      then have "total_of x (putBoth i r bal1 b1) = total_of x b1" for x
        using total_of_put [OF ok1, of bal1 a x u] by (simp add: putBoth_def key) (simp add: bal1_def w)
      then have m1: "moved u a (- amt) amt b1 (putBoth i r bal1 b1)"
        by (auto simp: moved_def GetBalance_putBoth r_def b1_def GetBalance_put bal1_def w)
      have "moved u a (- amt) amt b b3" using moved_same [OF s1 m1] unfolding moved_def b3 by simp
      moreover have "map_of (freezes b3) = (map_of (freezes b))(i \<mapsto> r)" by (auto simp: b3 b1_def book_simps map_simps)
      ultimately show ?thesis
        using go amt by (simp add: res froze_def u_a_amt_def r_def closed_def b3 GetBalance_orZero bal_def)
    next
      case (Some er)
      have "b' = (putBalance (balanceKey u a) bal b3)\<lparr>freezes := AList.delete i (freezes b3)\<rparr>" "res = Inl er"
        using pf go_run Some by simp_all
      moreover have "(putBalance (balanceKey u a) bal b3)\<lparr>freezes := AList.delete i (freezes b3)\<rparr> = b1\<lparr>bb_db := db\<rparr>"
        using go(2) by (simp add: b3 putBoth_def putFreeze_def putBalance_def b1_def key update_overwrite delete_update_absent)
      ultimately have "b' = b1\<lparr>bb_db := db\<rparr>" "res = Inl er" by simp_all
      then show ?thesis using ok1 same_funds_trans [OF s1 same_funds_refl(2)] by simp
    qed
  qed
qed

text \<open>Without a store an allowed closing operation succeeds.\<close>

lemma getActive_open:
  assumes "book_ok b" and "map_of (freezes b) i = Some r" and "\<not> closed r"
  shows "\<exists>bal. getActiveFreezeLocked i b = Inr (r, bal)"
  using book_okD(4) [OF assms(1,2)] assms(2,3) by (auto simp: getActiveFreezeLocked_def closed_def)

lemma closing_succeeds:
  assumes ok: "book_ok b" and st: "bb_store b = None" and r: "map_of (freezes b) i = Some r" "\<not> closed r"
    and amt: "0 < n" "n \<le> fr_Amount r"
  shows "fst (ConsumeFreeze i n b) = None" and "fst (ReleaseFreezeAmount i n b) = None"
proof -
  obtain bal where g: "getActiveFreezeLocked i b = Inr (r, bal)" using getActive_open [OF ok r] by blast
  have "fst (commitOrRestore i x y b) = None" for x y
    using st by (simp add: commitOrRestore_def persistBalanceAndFreeze_def book_simps)
  then show "fst (ConsumeFreeze i n b) = None" and "fst (ReleaseFreezeAmount i n b) = None"
    using amt by (simp_all add: ConsumeFreeze_def ReleaseFreezeAmount_def g Let_def)
qed

text \<open>Crediting and debiting: the amount is added to or taken from one balance, or nothing happens.\<close>

definition adjusted :: "i64 \<Rightarrow> string \<Rightarrow> int \<Rightarrow> 's BalanceBook \<Rightarrow> acct_error option \<Rightarrow> 's BalanceBook \<Rightarrow> bool" where
  "adjusted u a d b err b' \<longleftrightarrow> book_ok b' \<and> freezes b' = freezes b \<and> processedRefs b' = processedRefs b \<and>
     bb_store b' = bb_store b \<and> (if err = None then moved u a d 0 b b' else same_funds b b')"

lemma adjusted_error: "book_ok b \<Longrightarrow> adjusted u a d b (Some err) b"
  by (simp add: adjusted_def)

lemma adjusted_write:
  assumes ok: "book_ok b" and bal: "bal = GetBalance u a b"
    and new: "bal1 = bal\<lparr>bal_Available := bal_Available bal + d\<rparr>" "0 \<le> bal_Available bal + d" "bal_Available bal + bal_Frozen bal + d \<le> MaxInt64"
    and p: "persistBalance bal1 (putBalance (balanceKey u a) bal1 b) = (err, b1)"
  shows "adjusted u a d b err (if err = None then b1 else putBalance (balanceKey u a) bal b1)"
proof -
  note Z = balanceOrZero_facts [OF ok, of u a, folded GetBalance_orZero, folded bal]
  obtain db where b1: "b1 = (putBalance (balanceKey u a) bal1 b)\<lparr>bb_db := db\<rparr>" using persist_db(1) [OF p] by blast
  have Z1: "balance_ok (balanceKey u a) bal1" "bal_Frozen bal1 = frozen_of (balanceKey u a) (freezes b)"
    using Z new(2,3) by (auto simp: new(1) balance_ok_def)
  have ok1: "book_ok (putBalance (balanceKey u a) bal1 b)" by (rule book_ok_putBalance [OF ok Z1])
  have "bal_Asset bal1 = normalizeAsset a"
    using balanceOrZero_asset [OF ok, of u a] by (simp add: new(1) bal GetBalance_orZero)
  then have "total_of x (putBalance (balanceKey u a) bal1 b) = total_of x b + (if x = normalizeAsset a then d else 0)" for x
    using total_of_put [OF ok, of bal1 a x u] by (simp add: new(1) bal GetBalance_orZero)
  then have m: "moved u a d 0 b (putBalance (balanceKey u a) bal1 b)"
    by (auto simp: moved_def GetBalance_put new(1) bal)
  have "putBalance (balanceKey u a) bal b1 = (putBalance (balanceKey u a) bal b)\<lparr>bb_db := db\<rparr>"
    by (simp add: b1 putBalance_def update_overwrite)
  moreover have "same_funds b (putBalance (balanceKey u a) bal b)"
    using same_funds_putZero [OF ok, of u a] unfolding bal GetBalance_orZero .
  ultimately have s: "same_funds b (putBalance (balanceKey u a) bal b1)" by (simp add: same_funds_def)
  have ok2: "book_ok (putBalance (balanceKey u a) bal b1)"
    using book_ok_putBalance [OF ok Z] \<open>putBalance (balanceKey u a) bal b1 = _\<close> by simp
  show ?thesis
    using m s ok1 ok2 by (simp add: adjusted_def b1 book_simps moved_def)
qed

lemma CreditAvailable_adjusted:
  assumes ok: "book_ok b" and c: "CreditAvailable u a amount b = (err, b')"
    and room: "bal_Available (GetBalance u a b) + bal_Frozen (GetBalance u a b) + amount \<le> MaxInt64"
  shows "adjusted u a amount b err b' \<and> (err = None \<longrightarrow> 0 < amount \<and> 0 < u)"
proof (cases "u \<le> 0 \<or> amount \<le> 0 \<or> normalizeAsset a = ''''")
  case True
  then have "\<exists>er. CreditAvailable u a amount b = (Some er, b)"
    by (cases "u \<le> 0 \<or> amount \<le> 0") (auto simp: CreditAvailable_def)
  then show ?thesis using c adjusted_error [OF ok] by auto
next
  case False
  define bal where "bal = GetBalance u a b"
  have B: "balance_ok (balanceKey u a) bal"
    using balanceOrZero_facts(1) [OF ok, of u a] by (simp add: bal_def GetBalance_orZero)
  define bal1 where "bal1 = bal\<lparr>bal_Available := bal_Available bal + amount\<rparr>"
  have w: "wrap64 (bal_Available bal + amount) = bal_Available bal + amount"
    using B room False by (simp add: bal_def [symmetric] balance_ok_def wrap64_range)
  obtain e b1 where p: "persistBalance bal1 (putBalance (balanceKey u a) bal1 b) = (e, b1)" by fastforce
  have undo: "bal1\<lparr>bal_Available := wrap64 (bal_Available bal1 - amount)\<rparr> = bal"
    using B by (simp add: bal1_def wrap64_range balance_ok_def)
  have "CreditAvailable u a amount b = (e, if e = None then b1 else putBalance (balanceKey u a) bal b1)"
    using False unfolding CreditAvailable_def Let_def GetBalance_orZero [symmetric] bal_def [symmetric] w bal1_def [symmetric] p undo
    by (auto split: option.splits)
  moreover have "adjusted u a amount b e (if e = None then b1 else putBalance (balanceKey u a) bal b1)"
    using B room False by (intro adjusted_write [OF ok bal_def bal1_def _ _ p]) (auto simp: bal_def balance_ok_def)
  ultimately show ?thesis using c False by auto
qed

lemma DebitAvailable_adjusted:
  assumes ok: "book_ok b" and c: "DebitAvailable u a amount b = (err, b')"
  shows "adjusted u a (- amount) b err b' \<and>
    (err = None \<longrightarrow> 0 < amount \<and> 0 < u \<and> amount \<le> bal_Available (GetBalance u a b))"
proof (cases "u \<le> 0 \<or> amount \<le> 0 \<or> normalizeAsset a = ''''")
  case True
  then have "\<exists>er. DebitAvailable u a amount b = (Some er, b)"
    by (cases "u \<le> 0 \<or> amount \<le> 0") (auto simp: DebitAvailable_def)
  then show ?thesis using c adjusted_error [OF ok] by auto
next
  case valid: False
  define bal where "bal = GetBalance u a b"
  have B: "balance_ok (balanceKey u a) bal"
    using balanceOrZero_facts(1) [OF ok, of u a] by (simp add: bal_def GetBalance_orZero)
  show ?thesis
  proof (cases "map_of (balances b) (balanceKey u a) = None \<or> bal_Available bal < amount")
    case True
    then have "DebitAvailable u a amount b = (Some ErrInsufficientBalance, b)"
      using valid by (auto simp: DebitAvailable_def bal_def GetBalance_def split: option.splits)
    then show ?thesis using c adjusted_error [OF ok] by auto
  next
    case False
    then have m: "map_of (balances b) (balanceKey u a) = Some bal" "\<not> bal_Available bal < amount"
      by (auto simp: bal_def GetBalance_def)
    define bal1 where "bal1 = bal\<lparr>bal_Available := bal_Available bal + - amount\<rparr>"
    have w: "wrap64 (bal_Available bal - amount) = bal_Available bal + - amount"
      using B m(2) valid by (simp add: balance_ok_def wrap64_range)
    have undo: "bal1\<lparr>bal_Available := wrap64 (bal_Available bal1 + amount)\<rparr> = bal"
      using B by (simp add: bal1_def wrap64_range balance_ok_def)
    obtain e b1 where p: "persistBalance bal1 (putBalance (balanceKey u a) bal1 b) = (e, b1)" by fastforce
    have "DebitAvailable u a amount b = (e, if e = None then b1 else putBalance (balanceKey u a) bal b1)"
      using valid m(2) unfolding DebitAvailable_def Let_def m(1) option.case w bal1_def [symmetric] p undo
      by (auto split: option.splits)
    moreover have "adjusted u a (- amount) b e (if e = None then b1 else putBalance (balanceKey u a) bal b1)"
      using B m(2) valid by (intro adjusted_write [OF ok bal_def bal1_def _ _ p]) (auto simp: balance_ok_def)
    ultimately show ?thesis using c valid m(2) by (auto simp: bal_def)
  qed
qed

lemma GetBalance_refs: "moved u a d 0 b (b'\<lparr>processedRefs := ps\<rparr>) = moved u a d 0 b b'"
  "same_funds b (b'\<lparr>processedRefs := ps\<rparr>) = same_funds b b'"
  by (simp_all add: moved_def same_funds_def)

text \<open>
  Credits and debits with a reference, on a book without a store: applied once per reference,
  and a second call with the same reference answers the balance and changes nothing.
\<close>

definition once :: "i64 \<Rightarrow> string \<Rightarrow> int \<Rightarrow> string \<Rightarrow> 's BalanceBook \<Rightarrow> acct_error + Balance \<times> bool \<Rightarrow> 's BalanceBook \<Rightarrow> bool" where
  "once u a d key b res b' \<longleftrightarrow> book_ok b' \<and> freezes b' = freezes b \<and> bb_store b' = bb_store b \<and>
     (case res of
        Inl err \<Rightarrow> same_funds b b' \<and> processedRefs b' = processedRefs b
      | Inr (bal, applied) \<Rightarrow> bal = GetBalance u a b' \<and> key \<in> set (processedRefs b') \<and>
          set (processedRefs b') = insert key (set (processedRefs b)) \<and>
          applied = (key \<notin> set (processedRefs b)) \<and>
          (if applied then moved u a d 0 b b' else b' = b))"

lemma CreditAvailableWithRef_once:
  assumes ok: "book_ok b" and st: "bb_store b = None" and c: "CreditAvailableWithRef req b = (res, b')"
    and room: "bal_Available (GetBalance (cq_UserID req) (cq_Asset req) b) +
      bal_Frozen (GetBalance (cq_UserID req) (cq_Asset req) b) + cq_Amount req \<le> MaxInt64"
  shows "once (cq_UserID req) (cq_Asset req) (cq_Amount req) (refKey (cq_RefType req) (cq_RefID req)) b res b'"
proof (cases "cq_UserID req \<le> 0 \<or> cq_Amount req \<le> 0 \<or> normalizeAsset (cq_Asset req) = [] \<or>
    TrimSpace (cq_RefType req) = [] \<or> TrimSpace (cq_RefID req) = []")
  case True
  then have "\<exists>err. CreditAvailableWithRef req b = (Inl err, b)"
    by (cases "cq_UserID req \<le> 0 \<or> cq_Amount req \<le> 0"; cases "normalizeAsset (cq_Asset req) = []")
       (auto simp: CreditAvailableWithRef_def)
  then show ?thesis using c ok by (auto simp: once_def)
next
  case False
  let ?key = "refKey (cq_RefType req) (cq_RefID req)"
  obtain e b1 where a: "CreditAvailable (cq_UserID req) (cq_Asset req) (cq_Amount req) b = (e, b1)" by fastforce
  note A = CreditAvailable_adjusted [OF ok a room]
  have run: "CreditAvailableWithRef req b =
      (if ?key \<in> set (processedRefs b) then (Inr (GetBalance (cq_UserID req) (cq_Asset req) b, False), b)
       else case e of Some err \<Rightarrow> (Inl err, b1)
         | None \<Rightarrow> (Inr (GetBalance (cq_UserID req) (cq_Asset req) b1, True),
             b1\<lparr>processedRefs := List.insert ?key (processedRefs b1)\<rparr>))"
    using False by (simp add: CreditAvailableWithRef_def st a split: option.splits)
  show ?thesis
  proof (cases "?key \<in> set (processedRefs b)")
    case True
    then show ?thesis using c run ok by (auto simp: once_def insert_absorb)
  next
    case new: False
    show ?thesis
      using c new A unfolding run by (cases e) (auto simp: once_def adjusted_def GetBalance_refs)
  qed
qed

lemma DebitAvailableWithRef_once:
  assumes ok: "book_ok b" and st: "bb_store b = None" and c: "DebitAvailableWithRef req b = (res, b')"
  shows "once (dq_UserID req) (dq_Asset req) (- dq_Amount req) (refKey (dq_RefType req) (dq_RefID req)) b res b'"
proof (cases "dq_UserID req \<le> 0 \<or> dq_Amount req \<le> 0 \<or> normalizeAsset (dq_Asset req) = [] \<or>
    TrimSpace (dq_RefType req) = [] \<or> TrimSpace (dq_RefID req) = []")
  case True
  then have "\<exists>err. DebitAvailableWithRef req b = (Inl err, b)"
    by (cases "dq_UserID req \<le> 0 \<or> dq_Amount req \<le> 0"; cases "normalizeAsset (dq_Asset req) = []")
       (auto simp: DebitAvailableWithRef_def)
  then show ?thesis using c ok by (auto simp: once_def)
next
  case False
  let ?key = "refKey (dq_RefType req) (dq_RefID req)"
  obtain e b1 where a: "DebitAvailable (dq_UserID req) (dq_Asset req) (dq_Amount req) b = (e, b1)" by fastforce
  note A = DebitAvailable_adjusted [OF ok a]
  have run: "DebitAvailableWithRef req b =
      (if ?key \<in> set (processedRefs b) then (Inr (GetBalance (dq_UserID req) (dq_Asset req) b, False), b)
       else case e of Some err \<Rightarrow> (Inl err, b1)
         | None \<Rightarrow> (Inr (GetBalance (dq_UserID req) (dq_Asset req) b1, True),
             b1\<lparr>processedRefs := List.insert ?key (processedRefs b1)\<rparr>))"
    using False by (simp add: DebitAvailableWithRef_def st a split: option.splits)
  show ?thesis
  proof (cases "?key \<in> set (processedRefs b)")
    case True
    then show ?thesis using c run ok by (auto simp: once_def insert_absorb)
  next
    case new: False
    show ?thesis
      using c new A unfolding run by (cases e) (auto simp: once_def adjusted_def GetBalance_refs)
  qed
qed

section \<open>Reachable books\<close>

text \<open>
  A run of the book: any operation, any store behaviour. Credits are assumed to fit (the source
  adds without a check), and operations with a reference are taken on a book without a store,
  because with one the balance is whatever the store answers.
\<close>

definition fits :: "i64 \<Rightarrow> string \<Rightarrow> int \<Rightarrow> 's BalanceBook \<Rightarrow> bool" where
  "fits u a amount b \<longleftrightarrow> bal_Available (GetBalance u a b) + bal_Frozen (GetBalance u a b) + amount \<le> MaxInt64"

inductive book_reach :: "'s BalanceBook \<Rightarrow> bool" where
  br_new: "book_reach (NewBalanceBook db)"
| br_store: "book_reach (NewBalanceBookWithStore st db)"
| br_freeze: "book_reach b \<Longrightarrow> PreFreeze newID req b = (res, b') \<Longrightarrow> book_reach b'"
| br_release: "book_reach b \<Longrightarrow> ReleaseFreeze i b = (err, b') \<Longrightarrow> book_reach b'"
| br_releaseAmount: "book_reach b \<Longrightarrow> ReleaseFreezeAmount i n b = (err, b') \<Longrightarrow> book_reach b'"
| br_consume: "book_reach b \<Longrightarrow> ConsumeFreeze i n b = (err, b') \<Longrightarrow> book_reach b'"
| br_credit: "book_reach b \<Longrightarrow> fits u a n b \<Longrightarrow> CreditAvailable u a n b = (err, b') \<Longrightarrow> book_reach b'"
| br_debit: "book_reach b \<Longrightarrow> DebitAvailable u a n b = (err, b') \<Longrightarrow> book_reach b'"
| br_creditRef: "book_reach b \<Longrightarrow> bb_store b = None \<Longrightarrow> fits (cq_UserID cq) (cq_Asset cq) (cq_Amount cq) b \<Longrightarrow>
    CreditAvailableWithRef cq b = (res', b') \<Longrightarrow> book_reach b'"
| br_debitRef: "book_reach b \<Longrightarrow> bb_store b = None \<Longrightarrow> DebitAvailableWithRef dq b = (res', b') \<Longrightarrow> book_reach b'"

lemma book_reach_ok: "book_reach b \<Longrightarrow> book_ok b"
proof (induction rule: book_reach.induct)
  case (br_freeze b newID req res b')
  then show ?case using PreFreeze_facts by blast
next
  case (br_release b i err b')
  then show ?case using ReleaseFreeze_closing by (fastforce simp: closing_def)
next
  case (br_releaseAmount b i n err b')
  then show ?case using ReleaseFreezeAmount_closing by (fastforce simp: closing_def)
next
  case (br_consume b i n err b')
  then show ?case using ConsumeFreeze_closing by (fastforce simp: closing_def)
next
  case (br_credit b u a n err b')
  then show ?case using CreditAvailable_adjusted [of b u a n err b'] by (simp add: fits_def adjusted_def)
next
  case (br_debit b u a n err b')
  then show ?case using DebitAvailable_adjusted [of b u a n err b'] by (simp add: adjusted_def)
next
  case (br_creditRef b cq res' b')
  then show ?case using CreditAvailableWithRef_once [of b cq res' b'] by (simp add: fits_def once_def)
next
  case (br_debitRef b dq res' b')
  then show ?case using DebitAvailableWithRef_once [of b dq res' b'] by (simp add: once_def)
qed (simp_all add: NewBalanceBook_ok)


text \<open>A book without a store, user 7 with 500 USDT of which 200 are frozen under \<open>f1\<close>.\<close>

definition ex_book :: "unit BalanceBook" where
  "ex_book = snd (PreFreeze ''f0'' \<lparr>fq_FreezeID = ''f1'', fq_UserID = 7, fq_Asset = ''usdt'', fq_RefType = ''ORDER'',
      fq_RefID = ''o1'', fq_Amount = 200\<rparr> (snd (CreditAvailable 7 ''USDT'' 500 (NewBalanceBook ()))))"

lemma ex_book_reach: "book_reach ex_book"
proof -
  have "fits 7 ''USDT'' 500 (NewBalanceBook ())" by code_simp
  then have "book_reach (snd (CreditAvailable 7 ''USDT'' 500 (NewBalanceBook ())))"
    by (metis br_credit br_new prod.collapse)
  then show ?thesis unfolding ex_book_def by (metis br_freeze prod.collapse)
qed


text \<open>
  C23. A failed operation leaves the funds as they were: whatever the reason, a refused request or
  a store write that fails after the book was changed, every balance and every freeze record
  reads afterwards as before.
\<close>

theorem failed_operation_keeps_funds:
  assumes "book_reach b" and "fits u a n b"
    and "PreFreeze newID req b = (Inl e1, b1) \<or> ReleaseFreeze i b = (Some e1, b1) \<or> ReleaseFreezeAmount i n b = (Some e1, b1) \<or>
      ConsumeFreeze i n b = (Some e1, b1) \<or> CreditAvailable u a n b = (Some e1, b1) \<or> DebitAvailable u a n b = (Some e1, b1)"
  shows "same_funds b b1"
proof -
  note ok = book_reach_ok [OF assms(1)]
  show ?thesis
    using assms(3) PreFreeze_facts [OF ok, of newID req "Inl e1" b1] ReleaseFreeze_closing [OF ok, of i "Some e1" b1]
      ReleaseFreezeAmount_closing [OF ok, of i n "Some e1" b1] ConsumeFreeze_closing [OF ok, of i n "Some e1" b1]
      CreditAvailable_adjusted [OF ok, of u a n "Some e1" b1] DebitAvailable_adjusted [OF ok, of u a n "Some e1" b1] assms(2)
    by (auto simp: closing_def adjusted_def fits_def)
qed

text \<open>A store whose combined write fails.\<close>

definition ex_store :: "unit BalanceStore" where
  "ex_store = \<lparr>st_UpsertBalance = (\<lambda>_ s. (None, s)), st_UpsertBalanceAndFreeze = (\<lambda>_ _ s. (Some (StoreFailed ''down''), s)),
     st_ApplyCreditEvent = (\<lambda>_ s. (Inl (StoreFailed ''down''), s)), st_ApplyDebitEvent = (\<lambda>_ s. (Inl (StoreFailed ''down''), s))\<rparr>"

definition ex_req :: FreezeRequest where
  "ex_req = \<lparr>fq_FreezeID = ''f2'', fq_UserID = 7, fq_Asset = ''USDT'', fq_RefType = ''ORDER'', fq_RefID = ''o2'', fq_Amount = 80\<rparr>"

definition ex_down :: "unit BalanceBook" where
  "ex_down = snd (CreditAvailable 7 ''USDT'' 500 (NewBalanceBookWithStore ex_store ()))"

theorem failed_operation_keeps_funds_witness:
  "fst (PreFreeze ''n'' ex_req ex_down) = Inl (StoreFailed ''down'') \<and>
   bal_Available (GetBalance 7 ''USDT'' (snd (PreFreeze ''n'' ex_req ex_down))) = 500"
proof -
  have f: "fits 7 ''USDT'' 500 (NewBalanceBookWithStore ex_store ())" "fits 7 ''USDT'' 500 ex_down" by code_simp+
  have r: "book_reach ex_down" unfolding ex_down_def by (rule br_credit [OF br_store f(1) prod.collapse [symmetric]])
  have e: "fst (PreFreeze ''n'' ex_req ex_down) = Inl (StoreFailed ''down'')" by code_simp
  have v: "bal_Available (GetBalance 7 ''USDT'' ex_down) = 500" by code_simp
  have "PreFreeze ''n'' ex_req ex_down = (Inl (StoreFailed ''down''), snd (PreFreeze ''n'' ex_req ex_down))"
    using e by (metis prod.collapse)
  then have "same_funds ex_down (snd (PreFreeze ''n'' ex_req ex_down))"
    by (intro failed_operation_keeps_funds [OF r f(2)] disjI1)
  then show ?thesis using e v by (simp add: same_funds_def)
qed

lemma PreFreeze_memory:
  assumes "bb_store b = None" and "PreFreeze newID req b = (res, b')"
  shows "bb_store b' = None"
  using assms
  by (auto simp: PreFreeze_def Let_def persistBalanceAndFreeze_def putBalance_def putFreeze_def split: if_splits)

lemma ReleaseFreeze_memory:
  assumes "book_ok b" and "bb_store b = None" and "map_of (freezes b) i = Some r" and "\<not> closed r"
  shows "\<exists>b'. ReleaseFreeze i b = (None, b') \<and> bb_store b' = None"
proof -
  obtain bal where "getActiveFreezeLocked i b = Inr (r, bal)" using getActive_open [OF assms(1,3,4)] by blast
  then show ?thesis
    using assms(2) by (simp add: ReleaseFreeze_def commitOrRestore_def persistBalanceAndFreeze_def book_simps)
qed

lemma release_restores:
  assumes "book_ok b" and "PreFreeze newID req b = (Inr r, b1)" and "ReleaseFreeze (fr_FreezeID r) b1 = (None, b2)"
  shows "froze req r b b1 \<and> book_ok b2 \<and> (\<forall>u a. bal_Available (GetBalance u a b2) = bal_Available (GetBalance u a b) \<and>
      bal_Frozen (GetBalance u a b2) = bal_Frozen (GetBalance u a b)) \<and>
    ReleaseFreeze (fr_FreezeID r) b2 = (Some ErrFreezeAlreadyClosed, b2)"
proof -
  let ?i = "fr_FreezeID r"
  have F: "book_ok b1" "froze req r b b1" using PreFreeze_facts [OF assms(1,2)] by auto
  obtain amount where A: "closing ?i amount True b1 None b2" "FreezeAmount ?i b1 = (amount, True)"
    "FreezeAmount ?i b2 = (0, True)"
    using ReleaseFreeze_closing [OF F(1) assms(3)] by blast
  have rec: "map_of (freezes b1) ?i = Some r" "fr_Amount r = fq_Amount req" "\<not> closed r" using F(2) by (auto simp: froze_def)
  have amt: "amount = fq_Amount req" using A(2) rec by (simp add: FreezeAmount_def closed_def)
  obtain r0 r' where c: "map_of (freezes b1) ?i = Some r0" "moved (fr_UserID r0) (fr_Asset r0) amount (- amount) b1 b2"
    "map_of (freezes b2) = (map_of (freezes b1))(?i \<mapsto> r')" "fr_Amount r' = fr_Amount r0 - amount"
    using A(1) by (auto simp: closing_def active_freeze_def)
  have r0: "r0 = r" using c(1) rec(1) by simp
  have m1: "moved (fq_UserID req) (fq_Asset req) (- amount) amount b b1"
    and m2: "moved (fq_UserID req) (normalizeAsset (fq_Asset req)) amount (- amount) b1 b2"
    using F(2) c(2) by (simp_all add: froze_def amt r0)
  have restored: "bal_Available (GetBalance u a b2) = bal_Available (GetBalance u a b) \<and>
      bal_Frozen (GetBalance u a b2) = bal_Frozen (GetBalance u a b)" for u a
  proof (cases "u = fq_UserID req \<and> normalizeAsset a = normalizeAsset (fq_Asset req)")
    case True
    then have "GetBalance u a x = GetBalance (fq_UserID req) (fq_Asset req) x"
      "GetBalance u a x = GetBalance (fq_UserID req) (normalizeAsset (fq_Asset req)) x" for x :: "'a BalanceBook"
      using GetBalance_cong [of a "fq_Asset req" u x] GetBalance_cong [of a "normalizeAsset (fq_Asset req)" u x] by simp_all
    then show ?thesis using m1 m2 by (simp add: moved_def)
  next
    case False
    then have "GetBalance u a b1 = GetBalance u a b" "GetBalance u a b2 = GetBalance u a b1"
      using m1 m2 by (auto simp: moved_def)
    then show ?thesis by simp
  qed
  have "record_ok ?i r'" using book_okD(4) [of b2 ?i r'] A(1) c(3) by (simp add: closing_def)
  then have "closed r'" using c(4) r0 amt rec(2) by (simp add: record_ok_def)
  then have "ReleaseFreeze ?i b2 = (Some ErrFreezeAlreadyClosed, b2)"
    using c(3) by (simp add: ReleaseFreeze_def getActiveFreezeLocked_def closed_def)
  moreover have "book_ok b2" using A(1) by (simp add: closing_def)
  ultimately show ?thesis using F(2) restored by blast
qed

text \<open>
  C24. Freezing and releasing are inverse: when a freeze succeeds, the amount is held back from the
  available balance, releasing it gives every account its balances back, and a second release is
  refused and changes nothing.
\<close>

theorem freeze_release_roundtrip:
  assumes "book_reach b" and "PreFreeze newID req b = (Inr r, b1)" and "ReleaseFreeze (fr_FreezeID r) b1 = (None, b2)"
  shows "froze req r b b1 \<and> (\<forall>u a. bal_Available (GetBalance u a b2) = bal_Available (GetBalance u a b) \<and>
      bal_Frozen (GetBalance u a b2) = bal_Frozen (GetBalance u a b)) \<and>
    ReleaseFreeze (fr_FreezeID r) b2 = (Some ErrFreezeAlreadyClosed, b2)"
  using release_restores [OF book_reach_ok [OF assms(1)] assms(2,3)] by blast

theorem freeze_release_roundtrip_witness:
  "\<exists>r b1 b2. PreFreeze ''n'' ex_req ex_book = (Inr r, b1) \<and> ReleaseFreeze (fr_FreezeID r) b1 = (None, b2) \<and>
    froze ex_req r ex_book b1 \<and> bal_Available (GetBalance 7 ''USDT'' b2) = 300"
proof -
  let ?r = "projr (fst (PreFreeze ''n'' ex_req ex_book))" and ?b1 = "snd (PreFreeze ''n'' ex_req ex_book)"
  have i: "\<not> isl (fst (PreFreeze ''n'' ex_req ex_book))" by code_simp
  have p: "PreFreeze ''n'' ex_req ex_book = (Inr ?r, ?b1)" using i by (metis prod.collapse sum.collapse(2))
  have "fst (ReleaseFreeze (fr_FreezeID ?r) ?b1) = None" by code_simp
  then have q: "ReleaseFreeze (fr_FreezeID ?r) ?b1 = (None, snd (ReleaseFreeze (fr_FreezeID ?r) ?b1))" by (metis prod.collapse)
  have v: "bal_Available (GetBalance 7 ''USDT'' ex_book) = 300" by code_simp
  show ?thesis using freeze_release_roundtrip [OF ex_book_reach p q] p q v by metis
qed


definition ex_credit :: CreditRequest where
  "ex_credit = \<lparr>cq_UserID = 7, cq_Asset = ''USDT'', cq_Amount = 40, cq_RefType = ''trade'', cq_RefID = ''t1''\<rparr>"




end
