(* ===== verification/Kafka_Messages.thy ===== *)
theory Kafka_Messages
  imports Go_Prelude
begin

text \<open>
  The messages the services exchange, \<open>shared/kafka/messages.go\<close>. A handler receives the value of
  \<open>json.Unmarshal\<close> on the payload, an error or one of these records; the field names carry a prefix
  per message.
\<close>

record OrderCommand =
  oc_CommandID :: string
  oc_TraceID :: string
  oc_OrderID :: string
  oc_ClientOrderID :: string
  oc_FreezeID :: string
  oc_FreezeAsset :: string
  oc_FreezeAmount :: i64
  oc_CollateralAsset :: string
  oc_UserID :: i64
  oc_MarketID :: i64
  oc_Outcome :: string
  oc_BookKey :: string
  oc_Side :: string
  oc_Type :: string
  oc_TimeInForce :: string
  oc_STPStrategy :: string
  oc_Price :: i64
  oc_Quantity :: i64
  oc_RequestedAtMillis :: i64

record OrderEvent =
  oe_EventID :: string
  oe_CommandID :: string
  oe_TraceID :: string
  oe_OrderID :: string
  oe_ClientOrderID :: string
  oe_FreezeID :: string
  oe_FreezeAsset :: string
  oe_FreezeAmount :: i64
  oe_CollateralAsset :: string
  oe_UserID :: i64
  oe_MarketID :: i64
  oe_Outcome :: string
  oe_Side :: string
  oe_Type :: string
  oe_TimeInForce :: string
  oe_Status :: string
  oe_CancelReason :: string
  oe_Price :: i64
  oe_Quantity :: i64
  oe_FilledQuantity :: i64
  oe_RemainingQuantity :: i64
  oe_OccurredAtMillis :: i64

record TradeMatchedEvent =
  tm_EventID :: string
  tm_TradeID :: string
  tm_Sequence :: u64
  tm_EpochID :: u64
  tm_TraceID :: string
  tm_CollateralAsset :: string
  tm_MarketID :: i64
  tm_Outcome :: string
  tm_BookKey :: string
  tm_Price :: i64
  tm_Quantity :: i64
  tm_TakerOrderID :: string
  tm_MakerOrderID :: string
  tm_TakerUserID :: i64
  tm_MakerUserID :: i64
  tm_TakerSide :: string
  tm_MakerSide :: string
  tm_TakerFeeBps :: i64
  tm_MakerFeeBps :: i64
  tm_TakerFee :: i64
  tm_MakerFee :: i64
  tm_OccurredAtMillis :: i64

record PositionChangedEvent =
  pc_EventID :: string
  pc_TraceID :: string
  pc_SourceTradeID :: string
  pc_UserID :: i64
  pc_MarketID :: i64
  pc_Outcome :: string
  pc_PositionAsset :: string
  pc_DeltaQuantity :: i64
  pc_OccurredAtMillis :: i64

record MarketEvent =
  me_EventID :: string
  me_TraceID :: string
  me_MarketID :: i64
  me_Status :: string
  me_ResolvedOutcome :: string
  me_OccurredAtMillis :: i64

record SettlementCompletedEvent =
  sc_EventID :: string
  sc_MarketID :: i64
  sc_UserID :: i64
  sc_WinningOutcome :: string
  sc_PositionAsset :: string
  sc_SettledQuantity :: i64
  sc_PayoutAsset :: string
  sc_PayoutAmount :: i64
  sc_OccurredAtMillis :: i64

record QuoteLevel =
  ql_Price :: i64
  ql_Quantity :: i64

record QuoteDepthEvent =
  qd_EventID :: string
  qd_TraceID :: string
  qd_MarketID :: i64
  qd_Outcome :: string
  qd_BookKey :: string
  qd_Bids :: "QuoteLevel list"
  qd_Asks :: "QuoteLevel list"
  qd_OccurredAtMillis :: i64

record QuoteTickerEvent =
  qt_EventID :: string
  qt_TraceID :: string
  qt_MarketID :: i64
  qt_Outcome :: string
  qt_BookKey :: string
  qt_LastPrice :: i64
  qt_LastQuantity :: i64
  qt_BestBid :: i64
  qt_BestAsk :: i64
  qt_OccurredAtMillis :: i64

record QuoteCandle =
  qc_BucketStartMillis :: i64
  qc_BucketEndMillis :: i64
  qc_Open :: i64
  qc_High :: i64
  qc_Low :: i64
  qc_Close :: i64
  qc_Volume :: i64
  qc_TradeCount :: i64

record QuoteCandleEvent =
  qe_EventID :: string
  qe_TraceID :: string
  qe_MarketID :: i64
  qe_Outcome :: string
  qe_BookKey :: string
  qe_IntervalSec :: i64
  qe_Candles :: "QuoteCandle list"
  qe_OccurredAtMillis :: i64

end
