(* ===== verification/Account_Events.thy ===== *)
theory Account_Events
  imports Account_Balance Kafka_Messages
begin

text \<open>
  The account service's event handlers: \<open>account/service/order_state.go\<close> (the registry of orders) and
  \<open>account/service/event_processor.go\<close>. The state is the balance book and the registry; the answer
  of the rollup freeze reader (\<open>None\<close> when there is none), the decoded payload and the identifier
  \<open>NewID\<close> would draw are arguments.
\<close>

section \<open>The order registry (order\_state.go)\<close>

record OrderState =
  os_OrderID :: string
  os_UserID :: i64
  os_Side :: string
  os_Price :: i64
  os_FreezeID :: string
  os_FreezeAsset :: string
  os_FreezeApplied :: bool
  os_Status :: string
  os_RemainingQuantity :: i64

record 'r OrderRegistry =
  or_orders :: "(string \<times> OrderState) list"
  or_store :: "((string \<Rightarrow> 'r \<Rightarrow> OrderState option) \<times> (OrderState \<Rightarrow> 'r \<Rightarrow> 'r)) option"
  or_db :: 'r

definition NewOrderRegistry :: "'r \<Rightarrow> 'r OrderRegistry" where
  "NewOrderRegistry db = \<lparr>or_orders = [], or_store = None, or_db = db\<rparr>"

definition NewPersistentOrderRegistry ::
    "(string \<Rightarrow> 'r \<Rightarrow> OrderState option) \<Rightarrow> (OrderState \<Rightarrow> 'r \<Rightarrow> 'r) \<Rightarrow> 'r \<Rightarrow> 'r OrderRegistry" where
  "NewPersistentOrderRegistry load mirror db = \<lparr>or_orders = [], or_store = Some (load, mirror), or_db = db\<rparr>"

definition reg_Get :: "string \<Rightarrow> 'r OrderRegistry \<Rightarrow> OrderState option \<times> 'r OrderRegistry" where
  "reg_Get orderID r =
     (case map_of (or_orders r) orderID of
        Some state \<Rightarrow> (Some state, r)
      | None \<Rightarrow>
          (case or_store r of
             None \<Rightarrow> (None, r)
           | Some (load, _) \<Rightarrow>
               (case load orderID (or_db r) of
                  None \<Rightarrow> (None, r)
                | Some state \<Rightarrow> (Some state, r\<lparr>or_orders := AList.update orderID state (or_orders r)\<rparr>))))"

definition zeroOrderState :: "string \<Rightarrow> OrderState" where
  "zeroOrderState orderID =
     \<lparr>os_OrderID = orderID, os_UserID = 0, os_Side = '''', os_Price = 0, os_FreezeID = '''', os_FreezeAsset = '''',
      os_FreezeApplied = False, os_Status = '''', os_RemainingQuantity = 0\<rparr>"

definition mergeOrderState :: "OrderState \<Rightarrow> OrderState \<Rightarrow> OrderState" where
  "mergeOrderState state existing =
     existing\<lparr>os_UserID := (if os_UserID state \<noteq> 0 then os_UserID state else os_UserID existing),
              os_Side := (if os_Side state \<noteq> '''' then os_Side state else os_Side existing),
              os_Price := (if os_Price state \<noteq> 0 then os_Price state else os_Price existing),
              os_FreezeID := (if os_FreezeID state \<noteq> '''' then os_FreezeID state else os_FreezeID existing),
              os_FreezeAsset := (if os_FreezeAsset state \<noteq> '''' then os_FreezeAsset state else os_FreezeAsset existing),
              os_Status := (if os_Status state \<noteq> '''' then os_Status state else os_Status existing),
              os_RemainingQuantity := os_RemainingQuantity state,
              os_FreezeApplied := (os_FreezeApplied state \<or> os_FreezeApplied existing)\<rparr>"

definition Upsert :: "OrderState \<Rightarrow> 'r OrderRegistry \<Rightarrow> OrderState \<times> 'r OrderRegistry" where
  "Upsert state r =
     (let persisted = (case or_store r of
             Some (load, _) \<Rightarrow> if os_OrderID state \<noteq> '''' then load (os_OrderID state) (or_db r) else None
           | None \<Rightarrow> None);
          existing = (case map_of (or_orders r) (os_OrderID state) of
             Some e \<Rightarrow> e
           | None \<Rightarrow> (case persisted of Some p \<Rightarrow> p | None \<Rightarrow> zeroOrderState (os_OrderID state)));
          merged = mergeOrderState state existing;
          r1 = r\<lparr>or_orders := AList.update (os_OrderID state) merged (or_orders r)\<rparr>
      in case or_store r of
           None \<Rightarrow> (merged, r1)
         | Some (_, mirror) \<Rightarrow> (merged, r1\<lparr>or_db := mirror merged (or_db r1)\<rparr>))"

section \<open>The processor (event\_processor.go)\<close>

datatype ev_error = FreezeReadFailed string | BadPayload string | BookError acct_error
  | NotionalNotPositive | NotionalOverflow | RemainingNegative | PriceNegative | ReserveOverflow | UnsupportedSide string

record ('s, 'r) EventProcessor =
  ep_book :: "'s BalanceBook"
  ep_registry :: "'r OrderRegistry"

type_synonym ('s, 'r) handled = "ev_error option \<times> ('s, 'r) EventProcessor"

text \<open>The sequencing of the handlers: an error returns, anything else goes on.\<close>

definition and_then :: "('s, 'r) handled \<Rightarrow> (('s, 'r) EventProcessor \<Rightarrow> ('s, 'r) handled) \<Rightarrow> ('s, 'r) handled" where
  "and_then x f = (case fst x of None \<Rightarrow> f (snd x) | Some err \<Rightarrow> (Some err, snd x))"

definition rollupFrozen :: "(string + bool) option \<Rightarrow> ev_error + bool" where
  "rollupFrozen reader = (case reader of None \<Rightarrow> Inr False | Some (Inl err) \<Rightarrow> Inl (FreezeReadFailed err) | Some (Inr f) \<Rightarrow> Inr f)"

text \<open>The head of every handler: the freeze check and the payload.\<close>

definition handling ::
    "(string + bool) option \<Rightarrow> string + 'e \<Rightarrow> ('e \<Rightarrow> ('s, 'r) EventProcessor \<Rightarrow> ('s, 'r) handled) \<Rightarrow>
     ('s, 'r) EventProcessor \<Rightarrow> ('s, 'r) handled" where
  "handling reader payload f p =
     (case rollupFrozen reader of
        Inl err \<Rightarrow> (Some err, p)
      | Inr True \<Rightarrow> (None, p)
      | Inr False \<Rightarrow> (case payload of Inl err \<Rightarrow> (Some (BadPayload err), p) | Inr event \<Rightarrow> f event p))"

definition collateralAsset :: "string \<Rightarrow> string" where
  "collateralAsset asset = NormalizeAsset asset"

definition freezeAsset :: "OrderEvent \<Rightarrow> string" where
  "freezeAsset event =
     (if TrimSpace (oe_FreezeAsset event) \<noteq> '''' then collateralAsset (oe_FreezeAsset event)
      else collateralAsset (oe_CollateralAsset event))"

definition freezeAssetFromOrderEvent :: "OrderEvent \<Rightarrow> string" where
  "freezeAssetFromOrderEvent event = (if TrimSpace (oe_FreezeID event) = '''' then '''' else freezeAsset event)"

definition shouldReleaseFreeze :: "string \<Rightarrow> i64 \<Rightarrow> bool" where
  "shouldReleaseFreeze status remainingQuantity \<longleftrightarrow>
     ToUpper (TrimSpace status) \<in> {''CANCELLED'', ''REJECTED''} \<and> 0 < remainingQuantity"

definition settlementSides :: "TradeMatchedEvent \<Rightarrow> string \<times> i64" where
  "settlementSides event =
     (if ToUpper (TrimSpace (tm_TakerSide event)) = ''BUY'' then (tm_TakerOrderID event, tm_MakerUserID event)
      else if ToUpper (TrimSpace (tm_TakerSide event)) = ''SELL'' then (tm_MakerOrderID event, tm_TakerUserID event)
      else ('''', 0))"

definition positionSides :: "TradeMatchedEvent \<Rightarrow> string \<times> i64" where
  "positionSides event =
     (if ToUpper (TrimSpace (tm_TakerSide event)) = ''BUY'' then (tm_MakerOrderID event, tm_TakerUserID event)
      else if ToUpper (TrimSpace (tm_TakerSide event)) = ''SELL'' then (tm_TakerOrderID event, tm_MakerUserID event)
      else ('''', 0))"

definition tradeNotional :: "i64 \<Rightarrow> i64 \<Rightarrow> ev_error + i64" where
  "tradeNotional price quantity =
     (if price \<le> 0 \<or> quantity \<le> 0 then Inl NotionalNotPositive
      else if MaxInt64 sdiv quantity < price then Inl NotionalOverflow
      else Inr (wrap64 (price * quantity)))"

definition PlatformFeeUserID :: i64 where
  "PlatformFeeUserID = 0"

definition tradeFees :: "TradeMatchedEvent \<Rightarrow> i64 \<times> i64" where
  "tradeFees event =
     (if ToUpper (TrimSpace (tm_TakerSide event)) = ''BUY'' then (tm_MakerFee event, tm_TakerFee event)
      else if ToUpper (TrimSpace (tm_TakerSide event)) = ''SELL'' then (tm_TakerFee event, tm_MakerFee event)
      else (0, 0))"

definition expectedFreezeAmount :: "OrderState \<Rightarrow> ev_error + i64" where
  "expectedFreezeAmount state =
     (let remaining = os_RemainingQuantity state; side = ToUpper (TrimSpace (os_Side state)) in
      if remaining < 0 then Inl RemainingNegative
      else if side = ''BUY'' then
        if remaining = 0 then Inr 0
        else if os_Price state < 0 then Inl PriceNegative
        else if 0 < os_Price state \<and> MaxInt64 sdiv os_Price state < remaining then Inl ReserveOverflow
        else Inr (wrap64 (os_Price state * remaining))
      else if side = ''SELL'' then Inr remaining
      else Inl (UnsupportedSide (os_Side state)))"

definition releaseExcessFreeze :: "OrderState \<Rightarrow> ('s, 'r) EventProcessor \<Rightarrow> ('s, 'r) handled" where
  "releaseExcessFreeze state p =
     (case FreezeAmount (os_FreezeID state) (ep_book p) of
        (_, False) \<Rightarrow> (None, p)
      | (current, True) \<Rightarrow>
          (case expectedFreezeAmount state of
             Inl err \<Rightarrow> (Some err, p)
           | Inr expected \<Rightarrow>
               if current \<le> expected then (None, p)
               else let (err, b) = ReleaseFreezeAmount (os_FreezeID state) (wrap64 (current - expected)) (ep_book p)
                    in (map_option BookError err, p\<lparr>ep_book := b\<rparr>)))"

definition orderEvent :: "string \<Rightarrow> OrderEvent \<Rightarrow> ('s, 'r) EventProcessor \<Rightarrow> ('s, 'r) handled" where
  "orderEvent newID event p =
     (let (state, reg) = Upsert \<lparr>os_OrderID = oe_OrderID event, os_UserID = oe_UserID event, os_Side = oe_Side event,
              os_Price = oe_Price event, os_FreezeID = oe_FreezeID event,
              os_FreezeAsset = freezeAssetFromOrderEvent event, os_FreezeApplied = False,
              os_Status = oe_Status event, os_RemainingQuantity = oe_RemainingQuantity event\<rparr> (ep_registry p);
          p1 = p\<lparr>ep_registry := reg\<rparr>;
          (err, state1, p2) =
            (if oe_FreezeID event \<noteq> '''' \<and> \<not> os_FreezeApplied state \<and> 0 < oe_FreezeAmount event then
               let (res, b) = ApplyExternalFreeze newID
                       \<lparr>fq_FreezeID = oe_FreezeID event, fq_UserID = oe_UserID event, fq_Asset = freezeAsset event,
                        fq_RefType = ''ORDER'', fq_RefID = oe_OrderID event, fq_Amount = oe_FreezeAmount event\<rparr> (ep_book p1);
                   p2 = p1\<lparr>ep_book := b\<rparr>
               in if (case res of Inl e \<Rightarrow> e \<noteq> ErrFreezeAlreadyExists | Inr _ \<Rightarrow> False)
                  then (Some (BookError (projl res)), state, p2)
                  else let (state1, reg1) = Upsert \<lparr>os_OrderID = oe_OrderID event, os_UserID = os_UserID state,
                               os_Side = os_Side state, os_Price = os_Price state, os_FreezeID = oe_FreezeID event,
                               os_FreezeAsset = freezeAssetFromOrderEvent event, os_FreezeApplied = True,
                               os_Status = os_Status state, os_RemainingQuantity = os_RemainingQuantity state\<rparr> (ep_registry p2)
                       in (None, state1, p2\<lparr>ep_registry := reg1\<rparr>)
             else (None, state, p1))
      in case err of
           Some e \<Rightarrow> (Some e, p2)
         | None \<Rightarrow>
             if shouldReleaseFreeze (oe_Status event) (oe_RemainingQuantity event) \<and> os_FreezeID state1 \<noteq> '''' \<and>
                snd (FreezeAmount (os_FreezeID state1) (ep_book p2))
             then let (err, b) = ReleaseFreeze (os_FreezeID state1) (ep_book p2)
                  in (if err = None \<or> err = Some ErrFreezeAlreadyClosed then None else map_option BookError err,
                      p2\<lparr>ep_book := b\<rparr>)
             else (None, p2))"

definition HandleOrderEvent ::
    "(string + bool) option \<Rightarrow> string \<Rightarrow> string + OrderEvent \<Rightarrow> ('s, 'r) EventProcessor \<Rightarrow> ('s, 'r) handled" where
  "HandleOrderEvent reader newID payload = handling reader payload (orderEvent newID)"

text \<open>The block of the trade handler that consumes the freeze of one side's order.\<close>

definition consumeOrder :: "string \<Rightarrow> i64 \<Rightarrow> ('s, 'r) EventProcessor \<Rightarrow> ('s, 'r) handled" where
  "consumeOrder orderID amount p =
     (if orderID = '''' then (None, p)
      else let (found, reg) = reg_Get orderID (ep_registry p); p1 = p\<lparr>ep_registry := reg\<rparr>
           in case found of
                None \<Rightarrow> (None, p1)
              | Some state \<Rightarrow>
                  if os_FreezeID state = '''' then (None, p1)
                  else let (err, b) = ConsumeFreeze (os_FreezeID state) amount (ep_book p1); p2 = p1\<lparr>ep_book := b\<rparr>
                       in if err \<noteq> None \<and> err \<noteq> Some ErrFreezeAlreadyClosed then (map_option BookError err, p2)
                          else releaseExcessFreeze state p2)"

definition creditRef :: "CreditRequest \<Rightarrow> ('s, 'r) EventProcessor \<Rightarrow> ('s, 'r) handled" where
  "creditRef req p =
     (case CreditAvailableWithRef req (ep_book p) of
        (Inl err, b) \<Rightarrow> (Some (BookError err), p\<lparr>ep_book := b\<rparr>)
      | (Inr _, b) \<Rightarrow> (None, p\<lparr>ep_book := b\<rparr>))"

definition debitRef :: "DebitRequest \<Rightarrow> ('s, 'r) EventProcessor \<Rightarrow> ('s, 'r) handled" where
  "debitRef req p =
     (case DebitAvailableWithRef req (ep_book p) of
        (Inl err, b) \<Rightarrow> (Some (BookError err), p\<lparr>ep_book := b\<rparr>)
      | (Inr _, b) \<Rightarrow> (None, p\<lparr>ep_book := b\<rparr>))"

definition idempotencyKey :: "TradeMatchedEvent \<Rightarrow> string" where
  "idempotencyKey event = (if tm_TradeID event = '''' then tm_EventID event else tm_TradeID event)"

definition tradeMatched :: "TradeMatchedEvent \<Rightarrow> ('s, 'r) EventProcessor \<Rightarrow> ('s, 'r) handled" where
  "tradeMatched event p =
     (case tradeNotional (tm_Price event) (tm_Quantity event) of
        Inl err \<Rightarrow> (Some err, p)
      | Inr notional \<Rightarrow>
          let (payerOrderID, receiverUserID) = settlementSides event;
              (sellerOrderID, buyerUserID) = positionSides event;
              (receiverFee, payerFee) = tradeFees event;
              netCredit = wrap64 (notional - receiverFee);
              platformRevenue = wrap64 (receiverFee + payerFee)
          in and_then (and_then (and_then (and_then (consumeOrder payerOrderID notional p)
               (consumeOrder sellerOrderID (tm_Quantity event)))
               (\<lambda>p. if 0 < receiverUserID \<and> 0 < netCredit
                     then creditRef \<lparr>cq_UserID = receiverUserID, cq_Asset = collateralAsset (tm_CollateralAsset event),
                            cq_Amount = netCredit, cq_RefType = ''TRADE_COLLATERAL'', cq_RefID = idempotencyKey event\<rparr> p
                     else (None, p)))
               (\<lambda>p. if 0 < buyerUserID
                     then creditRef \<lparr>cq_UserID = buyerUserID, cq_Asset = PositionAsset (tm_MarketID event) (tm_Outcome event),
                            cq_Amount = tm_Quantity event, cq_RefType = ''TRADE_POSITION'', cq_RefID = idempotencyKey event\<rparr> p
                     else (None, p)))
               (\<lambda>p. if 0 < platformRevenue
                     then creditRef \<lparr>cq_UserID = PlatformFeeUserID, cq_Asset = collateralAsset (tm_CollateralAsset event),
                            cq_Amount = platformRevenue, cq_RefType = ''TRADE_FEE'', cq_RefID = idempotencyKey event\<rparr> p
                     else (None, p)))"

definition HandleTradeMatched ::
    "(string + bool) option \<Rightarrow> string + TradeMatchedEvent \<Rightarrow> ('s, 'r) EventProcessor \<Rightarrow> ('s, 'r) handled" where
  "HandleTradeMatched reader payload = handling reader payload tradeMatched"

definition settlementCompleted :: "SettlementCompletedEvent \<Rightarrow> ('s, 'r) EventProcessor \<Rightarrow> ('s, 'r) handled" where
  "settlementCompleted event p =
     and_then
       (if 0 < sc_SettledQuantity event
        then debitRef \<lparr>dq_UserID = sc_UserID event, dq_Asset = sc_PositionAsset event, dq_Amount = sc_SettledQuantity event,
               dq_RefType = ''SETTLEMENT_DEBIT'', dq_RefID = sc_EventID event\<rparr> p
        else (None, p))
       (\<lambda>p. if 0 < sc_PayoutAmount event
             then creditRef \<lparr>cq_UserID = sc_UserID event, cq_Asset = collateralAsset (sc_PayoutAsset event),
                    cq_Amount = sc_PayoutAmount event, cq_RefType = ''SETTLEMENT_CREDIT'', cq_RefID = sc_EventID event\<rparr> p
             else (None, p))"

definition HandleSettlementCompleted ::
    "(string + bool) option \<Rightarrow> string + SettlementCompletedEvent \<Rightarrow> ('s, 'r) EventProcessor \<Rightarrow> ('s, 'r) handled" where
  "HandleSettlementCompleted reader payload = handling reader payload settlementCompleted"

section \<open>What the handlers do to the funds\<close>

lemma tradeNotional_iff: "tradeNotional p q = Inr n \<longleftrightarrow> 0 < p \<and> 0 < q \<and> p * q \<le> MaxInt64 \<and> n = p * q"
  using mul_guard_iff [of q p] by (auto simp: tradeNotional_def wrap64_range mult.commute split: if_splits)

lemma expectedFreezeAmount_nonneg: "expectedFreezeAmount st = Inr n \<Longrightarrow> 0 \<le> n"
  using mul_guard_wrap [of "os_Price st" "os_RemainingQuantity st"]
  by (cases "os_Price st = 0")
     (auto simp: expectedFreezeAmount_def Let_def wrap64_range mult.commute split: if_splits)

text \<open>
  The relation a step of a handler keeps: the funds stay well formed, nothing is added to any
  account, and the totals change by what was consumed.
\<close>

definition spent :: "string \<Rightarrow> int \<Rightarrow> 's BalanceBook \<Rightarrow> 's BalanceBook \<Rightarrow> bool" where
  "spent a n b b' \<longleftrightarrow> book_ok b' \<and> bb_store b' = bb_store b \<and> processedRefs b' = processedRefs b \<and>
     (\<forall>x. total_of x b' = total_of x b - (if x = a then n else 0)) \<and>
     (\<forall>u x. bal_Available (GetBalance u x b') + bal_Frozen (GetBalance u x b') \<le>
        bal_Available (GetBalance u x b) + bal_Frozen (GetBalance u x b))"

lemma spent_le: "spent a n b b' \<Longrightarrow> bal_Available (GetBalance u x b') + bal_Frozen (GetBalance u x b') \<le>
    bal_Available (GetBalance u x b) + bal_Frozen (GetBalance u x b)"
  by (simp add: spent_def)

lemma spent_trans: "spent a n b b1 \<Longrightarrow> spent a 0 b1 b2 \<Longrightarrow> spent a n b b2"
  by (fastforce simp: spent_def intro: order_trans)

lemma moved_le:
  assumes "moved u a dA dF b b'" and "dA + dF \<le> 0"
  shows "bal_Available (GetBalance v x b') + bal_Frozen (GetBalance v x b') \<le>
    bal_Available (GetBalance v x b) + bal_Frozen (GetBalance v x b)"
proof (cases "v = u \<and> normalizeAsset x = normalizeAsset a")
  case True
  then have "GetBalance v x c = GetBalance u a c" for c :: "'a BalanceBook" using GetBalance_cong by blast
  then show ?thesis using assms by (simp add: moved_def)
next
  case False
  then show ?thesis using assms by (simp add: moved_def)
qed

lemma closing_spent:
  assumes "closing i n refund b None b'"
  shows "\<exists>r. map_of (freezes b) i = Some r \<and> spent (normalizeAsset (fr_Asset r)) (if refund then 0 else n) b b' \<and>
    (\<forall>j. j \<noteq> i \<longrightarrow> map_of (freezes b') j = map_of (freezes b) j)"
proof -
  obtain r bal r' where c: "active_freeze i r bal b" "0 < n" "book_ok b'" "processedRefs b' = processedRefs b" "bb_store b' = bb_store b"
    "moved (fr_UserID r) (fr_Asset r) (if refund then n else 0) (- n) b b'" "map_of (freezes b') = (map_of (freezes b))(i \<mapsto> r')"
    using assms by (auto simp: closing_def)
  have "spent (normalizeAsset (fr_Asset r)) (if refund then 0 else n) b b'"
    using c moved_le [OF c(6)] by (auto simp: spent_def moved_def)
  then show ?thesis using c(1,7) by (auto simp: active_freeze_def)
qed

lemma releaseExcess_spent:
  assumes ok: "book_ok (ep_book p)" and st: "bb_store (ep_book p) = None" and ex: "expectedFreezeAmount state = Inr n"
  shows "\<exists>p'. releaseExcessFreeze state p = (None, p') \<and> ep_registry p' = ep_registry p \<and>
    (\<forall>a. spent a 0 (ep_book p) (ep_book p')) \<and>
    (\<forall>j. j \<noteq> os_FreezeID state \<longrightarrow> map_of (freezes (ep_book p')) j = map_of (freezes (ep_book p)) j)"
proof -
  let ?i = "os_FreezeID state" and ?b = "ep_book p"
  obtain cur known where f: "FreezeAmount ?i ?b = (cur, known)" by fastforce
  have refl: "spent a 0 ?b ?b" for a using ok by (simp add: spent_def)
  show ?thesis
  proof (cases "known \<and> n < cur")
    case False
    then have "releaseExcessFreeze state p = (None, p)" using f ex by (auto simp: releaseExcessFreeze_def split: bool.splits)
    then show ?thesis using refl by (intro exI [of _ p]) simp
  next
    case True
    have n: "0 \<le> n" by (rule expectedFreezeAmount_nonneg [OF ex])
    then obtain r where r: "map_of (freezes ?b) ?i = Some r" "\<not> closed r" "cur = fr_Amount r"
      using True f by (auto simp: FreezeAmount_def closed_def split: option.splits if_splits)
    obtain err b' where rel: "ReleaseFreezeAmount ?i (cur - n) ?b = (err, b')" by fastforce
    have "err = None" using closing_succeeds(2) [OF ok st r(1,2), of "cur - n"] True n r(3) rel by simp
    then have c: "closing ?i (cur - n) True ?b None b'" using ReleaseFreezeAmount_closing [OF ok rel] by simp
    have "fr_Amount r \<le> MaxInt64"
      using getActive_open [OF ok r(1,2)] getActive_facts [OF ok] by (fastforce simp: active_freeze_def balance_ok_def)
    then have "wrap64 (cur - n) = cur - n" using True n r(3) by (simp add: wrap64_range)
    then have "releaseExcessFreeze state p = (None, p\<lparr>ep_book := b'\<rparr>)"
      using f ex True rel \<open>err = None\<close> by (simp add: releaseExcessFreeze_def)
    moreover have "spent a 0 ?b b'" for a using closing_spent [OF c] by (auto simp: spent_def)
    moreover have "\<forall>j. j \<noteq> ?i \<longrightarrow> map_of (freezes b') j = map_of (freezes ?b) j" using closing_spent [OF c] by blast
    ultimately show ?thesis by (intro exI [of _ "p\<lparr>ep_book := b'\<rparr>"]) simp
  qed
qed

text \<open>An order whose freeze is open and covers the amount.\<close>

definition covers :: "('s, 'r) EventProcessor \<Rightarrow> string \<Rightarrow> string \<Rightarrow> string \<Rightarrow> int \<Rightarrow> bool" where
  "covers p orderID i a n \<longleftrightarrow> orderID \<noteq> '''' \<and> i \<noteq> '''' \<and>
     (\<exists>state r ex. map_of (or_orders (ep_registry p)) orderID = Some state \<and> os_FreezeID state = i \<and>
        expectedFreezeAmount state = Inr ex \<and> map_of (freezes (ep_book p)) i = Some r \<and> \<not> closed r \<and>
        normalizeAsset (fr_Asset r) = a \<and> n \<le> fr_Amount r)"

lemma consumeOrder_spent:
  assumes ok: "book_ok (ep_book p)" and st: "bb_store (ep_book p) = None" and cv: "covers p orderID i a n" and n: "0 < n"
  shows "\<exists>p'. consumeOrder orderID n p = (None, p') \<and> ep_registry p' = ep_registry p \<and>
    spent a n (ep_book p) (ep_book p') \<and>
    (\<forall>j. j \<noteq> i \<longrightarrow> map_of (freezes (ep_book p')) j = map_of (freezes (ep_book p)) j)"
proof -
  obtain state r ex where c: "map_of (or_orders (ep_registry p)) orderID = Some state" "os_FreezeID state = i"
    "expectedFreezeAmount state = Inr ex" "map_of (freezes (ep_book p)) i = Some r" "\<not> closed r"
    "normalizeAsset (fr_Asset r) = a" "n \<le> fr_Amount r" "orderID \<noteq> ''''" "i \<noteq> ''''"
    using cv by (auto simp: covers_def)
  obtain err b1 where cons: "ConsumeFreeze i n (ep_book p) = (err, b1)" by fastforce
  have "err = None" using closing_succeeds(1) [OF ok st c(4,5) n c(7)] cons by simp
  then have cl: "closing i n False (ep_book p) None b1" using ConsumeFreeze_closing [OF ok cons] by simp
  have s1: "spent a n (ep_book p) b1" "\<And>j. j \<noteq> i \<Longrightarrow> map_of (freezes b1) j = map_of (freezes (ep_book p)) j"
    using closing_spent [OF cl] c(4,6) by auto
  let ?p1 = "p\<lparr>ep_book := b1\<rparr>"
  have ok1: "book_ok (ep_book ?p1)" and st1: "bb_store (ep_book ?p1) = None" using s1(1) st by (auto simp: spent_def)
  obtain p' where p': "releaseExcessFreeze state ?p1 = (None, p')" "ep_registry p' = ep_registry ?p1"
    "\<forall>x. spent x 0 (ep_book ?p1) (ep_book p')" "\<forall>j. j \<noteq> i \<longrightarrow> map_of (freezes (ep_book p')) j = map_of (freezes (ep_book ?p1)) j"
    using releaseExcess_spent [OF ok1 st1 c(3), unfolded c(2)] by (elim exE conjE)
  have "consumeOrder orderID n p = releaseExcessFreeze state ?p1"
    using c(1,2,8,9) cons \<open>err = None\<close> by (simp add: consumeOrder_def reg_Get_def)
  moreover have "spent a n (ep_book p) (ep_book p')" using spent_trans [OF s1(1)] p'(3) by simp
  ultimately show ?thesis using p'(1,2,4) s1(2) by (intro exI [of _ p']) simp
qed

lemma creditRef_once:
  assumes ok: "book_ok (ep_book p)" and st: "bb_store (ep_book p) = None"
    and v: "0 < cq_UserID req" "0 < cq_Amount req" "normalizeAsset (cq_Asset req) \<noteq> ''''"
      "TrimSpace (cq_RefType req) \<noteq> ''''" "TrimSpace (cq_RefID req) \<noteq> ''''"
    and fresh: "refKey (cq_RefType req) (cq_RefID req) \<notin> set (processedRefs (ep_book p))"
    and room: "fits (cq_UserID req) (cq_Asset req) (cq_Amount req) (ep_book p)"
  shows "\<exists>b'. creditRef req p = (None, p\<lparr>ep_book := b'\<rparr>) \<and> book_ok b' \<and> bb_store b' = None \<and>
    set (processedRefs b') = insert (refKey (cq_RefType req) (cq_RefID req)) (set (processedRefs (ep_book p))) \<and>
    moved (cq_UserID req) (cq_Asset req) (cq_Amount req) 0 (ep_book p) b'"
proof -
  obtain res b' where c: "CreditAvailableWithRef req (ep_book p) = (res, b')" by fastforce
  have O: "once (cq_UserID req) (cq_Asset req) (cq_Amount req) (refKey (cq_RefType req) (cq_RefID req)) (ep_book p) res b'"
    using CreditAvailableWithRef_once [OF ok st c] room by (simp add: fits_def)
  have "fst (CreditAvailable (cq_UserID req) (cq_Asset req) (cq_Amount req) (ep_book p)) = None"
    using v st by (simp add: CreditAvailable_def Let_def persistBalance_def book_simps)
  then have "\<not> isl res"
    using c v st fresh by (auto simp: CreditAvailableWithRef_def Let_def split: if_splits prod.splits option.splits)
  then obtain bal applied where "res = Inr (bal, applied)" by (cases res) auto
  then show ?thesis using O c st fresh by (intro exI [of _ b']) (auto simp: once_def creditRef_def)
qed

lemma refKey_prefix:
  "refKey ''TRADE_COLLATERAL'' k \<noteq> refKey ''TRADE_POSITION'' k'" "TrimSpace ''TRADE_COLLATERAL'' \<noteq> ''''"
  "TrimSpace ''TRADE_POSITION'' \<noteq> ''''"
proof -
  have "ToUpper (TrimSpace ''TRADE_COLLATERAL'') = ''TRADE_COLLATERAL''" "ToUpper (TrimSpace ''TRADE_POSITION'') = ''TRADE_POSITION''"
    by code_simp+
  then show "refKey ''TRADE_COLLATERAL'' k \<noteq> refKey ''TRADE_POSITION'' k'" by (simp add: refKey_def)
  show "TrimSpace ''TRADE_COLLATERAL'' \<noteq> ''''" "TrimSpace ''TRADE_POSITION'' \<noteq> ''''" by code_simp+
qed

lemma asset_nonempty: "normalizeAsset (collateralAsset a) \<noteq> ''''" "normalizeAsset (PositionAsset m x) \<noteq> ''''"
proof -
  have "normalizeAsset (collateralAsset a) = collateralAsset a"
    using normalizeAsset_idem [of a] by (simp add: collateralAsset_def NormalizeAsset_def normalizeAsset_def Let_def) code_simp
  moreover have "collateralAsset a \<noteq> ''''" by (simp add: collateralAsset_def NormalizeAsset_def Let_def)
  ultimately show "normalizeAsset (collateralAsset a) \<noteq> ''''" by simp
  have "\<not> is_space (CHR ''P'')" by code_simp
  then show "normalizeAsset (PositionAsset m x) \<noteq> ''''"
    by (simp add: normalizeAsset_def PositionAsset_def TrimSpace_def ToUpper_def)
qed

text \<open>A trade both sides' freezes cover, not seen before, with room for the credits.\<close>

definition trade_ready :: "TradeMatchedEvent \<Rightarrow> string \<Rightarrow> string \<Rightarrow> ('s, 'r) EventProcessor \<Rightarrow> bool" where
  "trade_ready event i j p \<longleftrightarrow>
     bb_store (ep_book p) = None \<and> 0 < tm_Price event \<and> 0 < tm_Quantity event \<and>
     tm_Price event * tm_Quantity event \<le> MaxInt64 \<and> 0 < snd (settlementSides event) \<and> 0 < snd (positionSides event) \<and>
     covers p (fst (settlementSides event)) i (normalizeAsset (collateralAsset (tm_CollateralAsset event)))
       (tm_Price event * tm_Quantity event) \<and>
     covers p (fst (positionSides event)) j (normalizeAsset (PositionAsset (tm_MarketID event) (tm_Outcome event)))
       (tm_Quantity event) \<and> i \<noteq> j \<and> TrimSpace (idempotencyKey event) \<noteq> '''' \<and>
     refKey ''TRADE_COLLATERAL'' (idempotencyKey event) \<notin> set (processedRefs (ep_book p)) \<and>
     refKey ''TRADE_POSITION'' (idempotencyKey event) \<notin> set (processedRefs (ep_book p)) \<and>
     (\<forall>u a. fits u a (tm_Price event * tm_Quantity event + tm_Quantity event) (ep_book p))"


text \<open>
  C34. A trade that earns a fee is never acknowledged: the fee is credited to the platform user 0,
  which the balance book refuses, so the handler ends in an error whatever the state is.
\<close>

theorem trade_with_fee_fails:
  assumes "rollupFrozen reader = Inr False" and "0 < wrap64 (fst (tradeFees event) + snd (tradeFees event))"
  shows "fst (HandleTradeMatched reader (Inr event) p) \<noteq> None"
proof -
  have fee: "fst (creditRef \<lparr>cq_UserID = PlatformFeeUserID, cq_Asset = a, cq_Amount = n, cq_RefType = t, cq_RefID = k\<rparr> p) \<noteq> None"
    for a n t k and p :: "('a, 'b) EventProcessor"
    by (simp add: creditRef_def CreditAvailableWithRef_def PlatformFeeUserID_def)
  have last: "(\<And>p. fst (f p) \<noteq> None) \<Longrightarrow> fst (and_then x f) \<noteq> None" for x :: "('a, 'b) handled" and f
    by (simp add: and_then_def split: option.splits)
  have "fst (tradeMatched event p) \<noteq> None"
    using assms(2) unfolding tradeMatched_def
    by (cases "tradeNotional (tm_Price event) (tm_Quantity event)")
       (auto simp: Let_def split: prod.splits intro!: last [OF fee, simplified] dest: last)
  then show ?thesis using assms(1) by (simp add: HandleTradeMatched_def handling_def)
qed

text \<open>
  C35. An order event can fail on the freeze it refers to: the freeze made at submission has already
  taken the amount, and the book compares the remaining available balance with it before it
  looks the freeze up, so the handler answers insufficient balance instead of recognising the
  freeze. No funds move; in particular a cancelled order keeps its funds frozen.
\<close>

theorem order_event_fails_on_own_freeze:
  assumes "rollupFrozen reader = Inr False" and "book_ok (ep_book p)"
    and "or_store (ep_registry p) = None" and "map_of (or_orders (ep_registry p)) (oe_OrderID event) = None"
    and "TrimSpace (oe_FreezeID event) \<noteq> ''''" and "0 < oe_FreezeAmount event" and "0 < oe_UserID event"
    and "FreezeAmount (TrimSpace (oe_FreezeID event)) (ep_book p) = (oe_FreezeAmount event, True)"
    and "bal_Available (GetBalance (oe_UserID event) (freezeAsset event) (ep_book p)) < oe_FreezeAmount event"
  shows "\<exists>p'. HandleOrderEvent reader newID (Inr event) p = (Some (BookError ErrInsufficientBalance), p') \<and>
    same_funds (ep_book p) (ep_book p') \<and> FreezeAmount (TrimSpace (oe_FreezeID event)) (ep_book p') = (oe_FreezeAmount event, True)"
proof -
  define st where "st = \<lparr>os_OrderID = oe_OrderID event, os_UserID = oe_UserID event, os_Side = oe_Side event,
      os_Price = oe_Price event, os_FreezeID = oe_FreezeID event, os_FreezeAsset = freezeAssetFromOrderEvent event,
      os_FreezeApplied = False, os_Status = oe_Status event, os_RemainingQuantity = oe_RemainingQuantity event\<rparr>"
  define req where "req = \<lparr>fq_FreezeID = oe_FreezeID event, fq_UserID = oe_UserID event, fq_Asset = freezeAsset event,
      fq_RefType = ''ORDER'', fq_RefID = oe_OrderID event, fq_Amount = oe_FreezeAmount event\<rparr>"
  obtain state reg where up: "Upsert st (ep_registry p) = (state, reg)" by fastforce
  have "\<not> os_FreezeApplied state"
    using up assms(3,4) by (auto simp: Upsert_def Let_def st_def mergeOrderState_def zeroOrderState_def)
  moreover have ne: "oe_FreezeID event \<noteq> ''''" using assms(5) by auto
  let ?b = "putBalance (balanceKey (oe_UserID event) (freezeAsset event)) (balanceOrZero (oe_UserID event) (freezeAsset event) (ep_book p)) (ep_book p)"
  have as: "normalizeAsset (freezeAsset event) \<noteq> ''''" using asset_nonempty(1) by (simp add: freezeAsset_def)
  have "ApplyExternalFreeze newID req (ep_book p) = (Inl ErrInsufficientBalance, ?b)"
    using assms(5-7,9) as by (simp add: ApplyExternalFreeze_def PreFreeze_def Let_def req_def GetBalance_orZero)
  ultimately have "orderEvent newID event p = (Some (BookError ErrInsufficientBalance), p\<lparr>ep_registry := reg, ep_book := ?b\<rparr>)"
    using up assms(6) ne by (simp add: orderEvent_def st_def [symmetric] req_def [symmetric])
  moreover have "same_funds (ep_book p) ?b" by (rule same_funds_putZero [OF assms(2)])
  ultimately show ?thesis
    using assms(1,8) by (simp add: HandleOrderEvent_def handling_def FreezeAmount_def book_simps)
qed

section \<open>Examples\<close>

text \<open>
  User 7 bids for 4 shares at 50 (200 USDT frozen under \<open>f1\<close>), user 8 offers 4 shares (frozen
  under \<open>f2\<close>), and the two orders are matched.
\<close>

lemma fits_all:
  assumes "\<forall>(k, bal) \<in> set (balances b). bal_Available bal + bal_Frozen bal + n \<le> MaxInt64" and "n \<le> MaxInt64"
  shows "fits u a n b"
  using assms by (auto simp: fits_def GetBalance_def zeroBalance_def dest!: map_of_SomeD split: option.splits)

definition ex_seller :: FreezeRequest where
  "ex_seller = \<lparr>fq_FreezeID = ''f2'', fq_UserID = 8, fq_Asset = ''POSITION:1:YES'', fq_RefType = ''ORDER'', fq_RefID = ''o2'', fq_Amount = 4\<rparr>"

definition ex_frozen :: "string \<Rightarrow> i64 \<Rightarrow> string \<Rightarrow> string \<Rightarrow> i64 \<Rightarrow> FreezeRecord" where
  "ex_frozen i u a o' n = \<lparr>fr_FreezeID = i, fr_UserID = u, fr_Asset = a, fr_RefType = ''ORDER'', fr_RefID = o',
     fr_OriginalAmount = n, fr_Amount = n, fr_Released = False, fr_Consumed = False\<rparr>"

definition ex_funds :: "unit BalanceBook" where
  "ex_funds =
     \<lparr>balances =
        [(''7:USDT'', \<lparr>bal_UserID = 7, bal_Asset = ''USDT'', bal_Available = 300, bal_Frozen = 200\<rparr>),
         (''8:POSITION:1:YES'', \<lparr>bal_UserID = 8, bal_Asset = ''POSITION:1:YES'', bal_Available = 0, bal_Frozen = 4\<rparr>)],
      freezes = [(''f1'', ex_frozen ''f1'' 7 ''USDT'' ''o1'' 200), (''f2'', ex_frozen ''f2'' 8 ''POSITION:1:YES'' ''o2'' 4)],
      processedRefs = [], bb_store = None, bb_db = ()\<rparr>"

lemma ex_funds_reach: "book_reach ex_funds"
proof -
  let ?b = "snd (PreFreeze ''n'' ex_seller (snd (CreditAvailable 8 ''POSITION:1:YES'' 4 ex_book)))"
  have "fits 8 ''POSITION:1:YES'' 4 ex_book" by code_simp
  then have "book_reach (snd (CreditAvailable 8 ''POSITION:1:YES'' 4 ex_book))"
    by (rule br_credit [OF ex_book_reach _ prod.collapse [symmetric]])
  then have "book_reach ?b" by (rule br_freeze [OF _ prod.collapse [symmetric]])
  moreover have "balances ?b = balances ex_funds" "freezes ?b = freezes ex_funds" "processedRefs ?b = []" "bb_store ?b = None"
    by code_simp+
  then have "?b = ex_funds" by (intro BalanceBook.equality) (simp_all add: ex_funds_def)
  ultimately show ?thesis by simp
qed

definition ex_state :: "string \<Rightarrow> i64 \<Rightarrow> string \<Rightarrow> string \<Rightarrow> string \<Rightarrow> i64 \<Rightarrow> OrderState" where
  "ex_state oid u s i a rest = \<lparr>os_OrderID = oid, os_UserID = u, os_Side = s, os_Price = 50, os_FreezeID = i, os_FreezeAsset = a,
     os_FreezeApplied = True, os_Status = ''FILLED'', os_RemainingQuantity = rest\<rparr>"

definition ex_proc :: "i64 \<Rightarrow> (unit, unit) EventProcessor" where
  "ex_proc rest = \<lparr>ep_book = ex_funds, ep_registry = \<lparr>or_orders =
      [(''o1'', ex_state ''o1'' 7 ''BUY'' ''f1'' ''USDT'' rest), (''o2'', ex_state ''o2'' 8 ''SELL'' ''f2'' ''POSITION:1:YES'' rest)],
      or_store = None, or_db = ()\<rparr>\<rparr>"

definition ex_trade :: "i64 \<Rightarrow> i64 \<Rightarrow> TradeMatchedEvent" where
  "ex_trade q fee = \<lparr>tm_EventID = ''e1'', tm_TradeID = ''t1'', tm_Sequence = 1, tm_EpochID = 0, tm_TraceID = '''', tm_CollateralAsset = ''USDT'',
     tm_MarketID = 1, tm_Outcome = ''YES'', tm_BookKey = ''1:YES'', tm_Price = 50, tm_Quantity = q, tm_TakerOrderID = ''o1'',
     tm_MakerOrderID = ''o2'', tm_TakerUserID = 7, tm_MakerUserID = 8, tm_TakerSide = ''BUY'', tm_MakerSide = ''SELL'',
     tm_TakerFeeBps = 200, tm_MakerFeeBps = 0, tm_TakerFee = fee, tm_MakerFee = 0, tm_OccurredAtMillis = 0\<rparr>"

lemma ex_trade_facts: "settlementSides (ex_trade q fee) = (''o1'', 8)" "positionSides (ex_trade q fee) = (''o2'', 7)"
  "tradeFees (ex_trade q fee) = (0, fee)" "idempotencyKey (ex_trade q fee) = ''t1''"
  "tm_Price (ex_trade q fee) = 50" "tm_Quantity (ex_trade q fee) = q"
  "normalizeAsset (collateralAsset (tm_CollateralAsset (ex_trade q fee))) = ''USDT''"
  "normalizeAsset (PositionAsset (tm_MarketID (ex_trade q fee)) (tm_Outcome (ex_trade q fee))) = ''POSITION:1:YES''"
proof -
  have b: "ToUpper (TrimSpace ''BUY'') = ''BUY''" "normalizeAsset (collateralAsset ''USDT'') = ''USDT''"
    "normalizeAsset (PositionAsset 1 ''YES'') = ''POSITION:1:YES''" by code_simp+
  show "settlementSides (ex_trade q fee) = (''o1'', 8)" "positionSides (ex_trade q fee) = (''o2'', 7)"
    "tradeFees (ex_trade q fee) = (0, fee)" "idempotencyKey (ex_trade q fee) = ''t1''"
    "tm_Price (ex_trade q fee) = 50" "tm_Quantity (ex_trade q fee) = q"
    "normalizeAsset (collateralAsset (tm_CollateralAsset (ex_trade q fee))) = ''USDT''"
    "normalizeAsset (PositionAsset (tm_MarketID (ex_trade q fee)) (tm_Outcome (ex_trade q fee))) = ''POSITION:1:YES''"
    by (simp_all add: ex_trade_def settlementSides_def positionSides_def tradeFees_def idempotencyKey_def b)
qed

lemma ex_trade_ready: "trade_ready (ex_trade 4 0) ''f1'' ''f2'' (ex_proc 0)"
proof -
  have e: "expectedFreezeAmount (ex_state ''o1'' 7 ''BUY'' ''f1'' ''USDT'' 0) = Inr 0"
    "expectedFreezeAmount (ex_state ''o2'' 8 ''SELL'' ''f2'' ''POSITION:1:YES'' 0) = Inr 0"
    "TrimSpace ''t1'' \<noteq> ''''" "normalizeAsset ''USDT'' = ''USDT''" "normalizeAsset ''POSITION:1:YES'' = ''POSITION:1:YES''" by code_simp+
  have "covers (ex_proc 0) ''o1'' ''f1'' ''USDT'' 200" "covers (ex_proc 0) ''o2'' ''f2'' ''POSITION:1:YES'' 4"
    using e by (simp_all add: covers_def ex_proc_def ex_funds_def ex_frozen_def closed_def) (simp_all add: ex_state_def)
  moreover have "fits u a 204 (ep_book (ex_proc 0))" for u a
    by (rule fits_all) (simp_all add: ex_proc_def ex_funds_def)
  ultimately show ?thesis
    using e(3) by (simp add: trade_ready_def ex_trade_facts ex_proc_def ex_funds_def)
qed


theorem trade_with_fee_fails_witness:
  "fst (HandleTradeMatched None (Inr (ex_trade 4 4)) (ex_proc 0)) \<noteq> None"
  by (rule trade_with_fee_fails) (simp_all add: rollupFrozen_def ex_trade_facts(3) wrap64_range)

definition ex_event :: OrderEvent where
  "ex_event = \<lparr>oe_EventID = ''e2'', oe_CommandID = ''c1'', oe_TraceID = '''', oe_OrderID = ''o3'', oe_ClientOrderID = '''',
     oe_FreezeID = ''f1'', oe_FreezeAsset = ''USDT'', oe_FreezeAmount = 200, oe_CollateralAsset = ''USDT'', oe_UserID = 7,
     oe_MarketID = 1, oe_Outcome = ''YES'', oe_Side = ''BUY'', oe_Type = ''LIMIT'', oe_TimeInForce = ''IOC'', oe_Status = ''CANCELLED'',
     oe_CancelReason = ''IOC_NO_LIQUIDITY'', oe_Price = 50, oe_Quantity = 4, oe_FilledQuantity = 0, oe_RemainingQuantity = 4,
     oe_OccurredAtMillis = 0\<rparr>"

text \<open>The account of user 7 after the whole balance but 100 was frozen for the order.\<close>

definition ex_tight :: "(unit, unit) EventProcessor" where
  "ex_tight = (ex_proc 0)\<lparr>ep_book := snd (DebitAvailable 7 ''USDT'' 200 ex_funds)\<rparr>"

theorem order_event_fails_on_own_freeze_witness:
  "\<exists>p'. HandleOrderEvent None ''n'' (Inr ex_event) ex_tight = (Some (BookError ErrInsufficientBalance), p') \<and>
    FreezeAmount ''f1'' (ep_book p') = (200, True)"
proof -
  have "book_reach (ep_book ex_tight)"
    using br_debit [OF ex_funds_reach prod.collapse [symmetric]] by (simp add: ex_tight_def)
  note ok = book_reach_ok [OF this]
  have r: "or_store (ep_registry ex_tight) = None" "map_of (or_orders (ep_registry ex_tight)) (oe_OrderID ex_event) = None"
    by (simp_all add: ex_tight_def ex_proc_def ex_event_def)
  have e: "TrimSpace (oe_FreezeID ex_event) = ''f1''" "oe_FreezeAmount ex_event = 200" "oe_UserID ex_event = 7" by code_simp+
  have f: "FreezeAmount ''f1'' (ep_book ex_tight) = (200, True)"
    "bal_Available (GetBalance 7 (freezeAsset ex_event) (ep_book ex_tight)) = 100" by code_simp+
  show ?thesis
    using order_event_fails_on_own_freeze [OF _ ok r, of None "''n''"] f by (auto simp: e rollupFrozen_def)
qed


end
