(* ===== verification/Order_Service.thy ===== *)
theory Order_Service
  imports Account_Events
begin

text \<open>
  Order submission: \<open>order/types.go\<close>, \<open>order/validate.go\<close>, \<open>order/freeze.go\<close> and
  \<open>order/service.go\<close>, on the account service reached through \<open>account/client/client.go\<close> and
  \<open>account/service/grpc_server.go\<close>. The account client is a record of operations over its own
  state; the market store, the duplicate check, the publisher and the identifiers of \<open>NewID\<close> are
  arguments. A call on a nil market store panics, which is the value \<open>None\<close>.
\<close>

section \<open>Requests, results and errors (types.go)\<close>

record SubmitRequest =
  sr_UserID :: i64
  sr_MarketID :: i64
  sr_Outcome :: string
  sr_Side :: string
  sr_Type :: string
  sr_TimeInForce :: string
  sr_Price :: i64
  sr_Quantity :: i64
  sr_TraceID :: string
  sr_ClientOrderID :: string
  sr_RequestedAt :: i64
  sr_OrderID :: string

record SubmitResult =
  sq_CommandID :: string
  sq_OrderID :: string
  sq_FreezeID :: string
  sq_Asset :: string
  sq_Amount :: i64

record SeedLiquidityRequest =
  sl_OperatorUserID :: i64
  sl_MarketID :: i64
  sl_Outcome :: string
  sl_Quantity :: i64
  sl_Price :: i64
  sl_TraceID :: string

record InventoryItem =
  ii_Outcome :: string
  ii_PositionAsset :: string
  ii_Quantity :: i64

record SeedLiquidityResult =
  lr_FirstLiquidityID :: string
  lr_OrderID :: string
  lr_CollateralDebit :: i64
  lr_Inventory :: "InventoryItem list"

datatype order_err = ErrMarketNotFound | ErrMarketNotTradable | ErrRollupFrozen | ErrInsufficientFunds
  | ErrValidationFailed | ErrPublishFailed | CreditInventoryFailed | AccountErr string

section \<open>Validation and reserves (validate.go, freeze.go)\<close>

datatype field_err = OutcomeRequired | InvalidSide string | InvalidType string | InvalidTIF string
  | FieldQuantityNotPositive | LimitPriceRange

definition ValidateOrderFields ::
    "string \<Rightarrow> string \<Rightarrow> string \<Rightarrow> string \<Rightarrow> i64 \<Rightarrow> i64 \<Rightarrow> field_err option" where
  "ValidateOrderFields outcome side orderType tif price quantity =
     (if outcome = '''' then Some OutcomeRequired
      else if side \<noteq> ''BUY'' \<and> side \<noteq> ''SELL'' then Some (InvalidSide side)
      else if orderType \<noteq> ''LIMIT'' \<and> orderType \<noteq> ''MARKET'' then Some (InvalidType orderType)
      else if tif \<noteq> ''GTC'' \<and> tif \<noteq> ''IOC'' then Some (InvalidTIF tif)
      else if quantity \<le> 0 then Some FieldQuantityNotPositive
      else if orderType = ''LIMIT'' \<and> (price < 1 \<or> 99 < price) then Some LimitPriceRange
      else None)"

datatype freeze_err = FreezeQuantityNotPositive | LimitRequiresPrice | FreezeOverflow | FreezeUnsupportedType string
  | SellRequiresOutcome | FreezeUnsupportedSide string

definition CalculateFreeze ::
    "string \<Rightarrow> string \<Rightarrow> i64 \<Rightarrow> string \<Rightarrow> i64 \<Rightarrow> i64 \<Rightarrow> freeze_err + string \<times> i64" where
  "CalculateFreeze side orderType marketID outcome price quantity =
     (if quantity \<le> 0 then Inl FreezeQuantityNotPositive
      else if side = ''BUY'' then
        if orderType = ''LIMIT'' then
          if price \<le> 0 then Inl LimitRequiresPrice
          else if 0 < quantity \<and> MaxInt64 sdiv quantity < price then Inl FreezeOverflow
          else Inr (DefaultCollateralAsset, wrap64 (price * quantity))
        else if orderType = ''MARKET'' then
          let maxPrice = 100 in
          if 0 < quantity \<and> MaxInt64 sdiv quantity < maxPrice then Inl FreezeOverflow
          else Inr (DefaultCollateralAsset, wrap64 (maxPrice * quantity))
        else Inl (FreezeUnsupportedType orderType)
      else if side = ''SELL'' then
        if TrimSpace outcome = '''' then Inl SellRequiresOutcome
        else Inr (PositionAsset marketID outcome, quantity)
      else Inl (FreezeUnsupportedSide side))"

section \<open>The account client (client.go, grpc\_server.go)\<close>

record ClientFreezeRequest =
  cf_UserID :: i64
  cf_Asset :: string
  cf_RefType :: string
  cf_RefID :: string
  cf_Amount :: i64

record ClientFreezeRecord =
  cr_FreezeID :: string
  cr_UserID :: i64
  cr_Asset :: string
  cr_RefType :: string
  cr_RefID :: string
  cr_Amount :: i64

record ClientBalance =
  cb_UserID :: i64
  cb_Asset :: string
  cb_Available :: i64
  cb_Frozen :: i64
  cb_Total :: i64

record 's AccountClient =
  ac_PreFreeze :: "ClientFreezeRequest \<Rightarrow> 's \<Rightarrow> (string + ClientFreezeRecord) \<times> 's"
  ac_ReleaseFreeze :: "string \<Rightarrow> 's \<Rightarrow> string option \<times> 's"
  ac_GetBalance :: "i64 \<Rightarrow> string \<Rightarrow> 's \<Rightarrow> string + ClientBalance"
  ac_CreditBalance :: "i64 \<Rightarrow> string \<Rightarrow> i64 \<Rightarrow> string \<Rightarrow> string \<Rightarrow> 's \<Rightarrow> (string + ClientBalance \<times> bool) \<times> 's"
  ac_DebitBalance :: "i64 \<Rightarrow> string \<Rightarrow> i64 \<Rightarrow> string \<Rightarrow> string \<Rightarrow> 's \<Rightarrow> (string + ClientBalance \<times> bool) \<times> 's"

definition errorText :: "acct_error \<Rightarrow> string" where
  "errorText err =
     (case err of
        ErrInvalidAsset \<Rightarrow> ''invalid asset'' | ErrInvalidAmount \<Rightarrow> ''invalid amount''
      | ErrInsufficientBalance \<Rightarrow> ''insufficient available balance''
      | ErrFreezeNotFound \<Rightarrow> ''freeze record not found'' | ErrFreezeAlreadyClosed \<Rightarrow> ''freeze record already closed''
      | ErrFreezeAlreadyExists \<Rightarrow> ''freeze record already exists''
      | ReleaseExceedsFrozen \<Rightarrow> ''release amount exceeds frozen amount''
      | ConsumeExceedsFrozen \<Rightarrow> ''consume amount exceeds frozen amount'' | StoreFailed s \<Rightarrow> s)"

text \<open>A status error and its text as the client sees it.\<close>

definition mapBalanceBookError :: "acct_error \<Rightarrow> string" where
  "mapBalanceBookError err =
     (let code = (case err of
          ErrInvalidAsset \<Rightarrow> ''InvalidArgument'' | ErrInvalidAmount \<Rightarrow> ''InvalidArgument''
        | ErrInsufficientBalance \<Rightarrow> ''FailedPrecondition'' | ErrFreezeNotFound \<Rightarrow> ''NotFound''
        | ErrFreezeAlreadyClosed \<Rightarrow> ''FailedPrecondition'' | ErrFreezeAlreadyExists \<Rightarrow> ''AlreadyExists''
        | _ \<Rightarrow> ''Internal'')
      in ''rpc error: code = '' @ code @ '' desc = '' @ errorText err)"

definition rpc_PreFreeze ::
    "string \<Rightarrow> ClientFreezeRequest \<Rightarrow> 'd BalanceBook \<Rightarrow> (string + ClientFreezeRecord) \<times> 'd BalanceBook" where
  "rpc_PreFreeze newID req b =
     (case PreFreeze newID \<lparr>fq_FreezeID = '''', fq_UserID = cf_UserID req, fq_Asset = cf_Asset req, fq_RefType = cf_RefType req,
             fq_RefID = cf_RefID req, fq_Amount = cf_Amount req\<rparr> b of
        (Inl err, b1) \<Rightarrow> (Inl (mapBalanceBookError err), b1)
      | (Inr record, b1) \<Rightarrow>
          (Inr \<lparr>cr_FreezeID = fr_FreezeID record, cr_UserID = fr_UserID record, cr_Asset = fr_Asset record,
                cr_RefType = fr_RefType record, cr_RefID = fr_RefID record, cr_Amount = fr_Amount record\<rparr>, b1))"

definition rpc_ReleaseFreeze :: "string \<Rightarrow> 'd BalanceBook \<Rightarrow> string option \<times> 'd BalanceBook" where
  "rpc_ReleaseFreeze freezeID b = (let (err, b1) = ReleaseFreeze freezeID b in (map_option mapBalanceBookError err, b1))"

definition clientBalance :: "Balance \<Rightarrow> ClientBalance" where
  "clientBalance balance =
     \<lparr>cb_UserID = bal_UserID balance, cb_Asset = bal_Asset balance, cb_Available = bal_Available balance,
      cb_Frozen = bal_Frozen balance, cb_Total = Total balance\<rparr>"

definition rpc_GetBalance :: "i64 \<Rightarrow> string \<Rightarrow> 'd BalanceBook \<Rightarrow> string + ClientBalance" where
  "rpc_GetBalance userID asset b = Inr (clientBalance (GetBalance userID asset b))"

definition rpc_CreditBalance ::
    "i64 \<Rightarrow> string \<Rightarrow> i64 \<Rightarrow> string \<Rightarrow> string \<Rightarrow> 'd BalanceBook \<Rightarrow> (string + ClientBalance \<times> bool) \<times> 'd BalanceBook" where
  "rpc_CreditBalance userID asset amount refType refID b =
     (case CreditAvailableWithRef \<lparr>cq_UserID = userID, cq_Asset = asset, cq_Amount = amount, cq_RefType = refType, cq_RefID = refID\<rparr> b of
        (Inl err, b1) \<Rightarrow> (Inl (mapBalanceBookError err), b1)
      | (Inr (balance, applied), b1) \<Rightarrow> (Inr (clientBalance balance, applied), b1))"

definition rpc_DebitBalance ::
    "i64 \<Rightarrow> string \<Rightarrow> i64 \<Rightarrow> string \<Rightarrow> string \<Rightarrow> 'd BalanceBook \<Rightarrow> (string + ClientBalance \<times> bool) \<times> 'd BalanceBook" where
  "rpc_DebitBalance userID asset amount refType refID b =
     (case DebitAvailableWithRef \<lparr>dq_UserID = userID, dq_Asset = asset, dq_Amount = amount, dq_RefType = refType, dq_RefID = refID\<rparr> b of
        (Inl err, b1) \<Rightarrow> (Inl (mapBalanceBookError err), b1)
      | (Inr (balance, applied), b1) \<Rightarrow> (Inr (clientBalance balance, applied), b1))"

text \<open>The client of a book; the argument is the identifier the book draws for a freeze.\<close>

definition bookClient :: "string \<Rightarrow> 'd BalanceBook AccountClient" where
  "bookClient newID =
     \<lparr>ac_PreFreeze = rpc_PreFreeze newID, ac_ReleaseFreeze = rpc_ReleaseFreeze, ac_GetBalance = rpc_GetBalance,
      ac_CreditBalance = rpc_CreditBalance, ac_DebitBalance = rpc_DebitBalance\<rparr>"

section \<open>The service (service.go)\<close>

record MarketResponse =
  mr_Status :: string
  mr_CloseAt :: i64
  mr_CollateralAsset :: string

record MarketStore =
  ms_GetMarket :: "i64 \<Rightarrow> string + MarketResponse"
  ms_GetRollupFreezeState :: "string + bool"

text \<open>What the service is given: the account client, the publisher, the stores, the clock (one reading for a
  call) and the identifiers, by prefix and by the number of identifiers of that prefix drawn before.\<close>

record ('s, 'p) OrderEnv =
  env_account :: "'s AccountClient"
  env_publish :: "string \<Rightarrow> OrderCommand \<Rightarrow> 'p \<Rightarrow> string option \<times> 'p"
  env_publishPosition :: "string \<Rightarrow> PositionChangedEvent \<Rightarrow> 'p \<Rightarrow> string option \<times> 'p"
  env_store :: "MarketStore option"
  env_dedup :: "(string \<Rightarrow> string + bool) option"
  env_now :: i64
  env_nowMillis :: i64
  env_newID :: "string \<Rightarrow> nat \<Rightarrow> string"

definition requireRollupNotFrozen :: "MarketStore option \<Rightarrow> order_err option" where
  "requireRollupNotFrozen store =
     (case store of
        None \<Rightarrow> None
      | Some s \<Rightarrow> (case ms_GetRollupFreezeState s of Inl _ \<Rightarrow> None | Inr frozen \<Rightarrow> if frozen then Some ErrRollupFrozen else None))"

definition marketIsOpenForTrading :: "MarketResponse \<Rightarrow> i64 \<Rightarrow> bool" where
  "marketIsOpenForTrading market nowUnix =
     (let status = ToUpper (TrimSpace (mr_Status market)) in
      if status \<noteq> '''' \<and> status \<noteq> ''OPEN'' then False
      else if 0 < mr_CloseAt market \<and> mr_CloseAt market \<le> nowUnix then False
      else True)"

fun contains :: "string \<Rightarrow> string \<Rightarrow> bool" where
  "contains pat [] = (pat = [])"
| "contains pat (c # cs) = (take (length pat) (c # cs) = pat \<or> contains pat cs)"

definition looksLikeInsufficientBalance :: "string \<Rightarrow> bool" where
  "looksLikeInsufficientBalance err = contains ''insufficient'' (ToLower err)"

text \<open>The checks before anything changes: the normalised fields and what has to be frozen.\<close>

definition submitChecks ::
    "('s, 'p) OrderEnv \<Rightarrow> SubmitRequest \<Rightarrow> (order_err + string \<times> i64) option" where
  "submitChecks env req =
     (let outcome = ToUpper (TrimSpace (sr_Outcome req)); side = ToUpper (TrimSpace (sr_Side req));
          orderType = ToUpper (TrimSpace (sr_Type req)); tif = ToUpper (TrimSpace (sr_TimeInForce req)) in
      if sr_MarketID req \<le> 0 \<or> sr_Quantity req \<le> 0 \<or> sr_UserID req \<le> 0 then Some (Inl ErrValidationFailed)
      else if ValidateOrderFields outcome side orderType tif (sr_Price req) (sr_Quantity req) \<noteq> None
      then Some (Inl ErrValidationFailed)
      else case requireRollupNotFrozen (env_store env) of
        Some err \<Rightarrow> Some (Inl err)
      | None \<Rightarrow>
          (case env_store env of
             None \<Rightarrow> None
           | Some store \<Rightarrow>
               (case ms_GetMarket store (sr_MarketID req) of
                  Inl _ \<Rightarrow> Some (Inl ErrMarketNotFound)
                | Inr market \<Rightarrow>
                    if \<not> marketIsOpenForTrading market (env_now env) then Some (Inl ErrMarketNotTradable)
                    else (case CalculateFreeze side orderType (sr_MarketID req) outcome (sr_Price req) (sr_Quantity req) of
                            Inl _ \<Rightarrow> Some (Inl ErrValidationFailed)
                          | Inr freeze \<Rightarrow> Some (Inr freeze)))))"

definition duplicateOrder :: "('s, 'p) OrderEnv \<Rightarrow> SubmitRequest \<Rightarrow> bool" where
  "duplicateOrder env req \<longleftrightarrow> sr_OrderID req \<noteq> '''' \<and>
     (case env_dedup env of None \<Rightarrow> False | Some check \<Rightarrow> (case check (sr_OrderID req) of Inl _ \<Rightarrow> False | Inr seen \<Rightarrow> seen))"

definition submitOrderID :: "('s, 'p) OrderEnv \<Rightarrow> SubmitRequest \<Rightarrow> string" where
  "submitOrderID env req = (if sr_OrderID req = '''' then env_newID env ''ord'' 0 else sr_OrderID req)"

definition submitCommand :: "('s, 'p) OrderEnv \<Rightarrow> SubmitRequest \<Rightarrow> ClientFreezeRecord \<Rightarrow> OrderCommand" where
  "submitCommand env req freeze =
     (let outcome = ToUpper (TrimSpace (sr_Outcome req)); side = ToUpper (TrimSpace (sr_Side req));
          market = (ToUpper (TrimSpace (sr_Type req)) = ''MARKET'') in
      \<lparr>oc_CommandID = env_newID env ''cmd'' 0, oc_TraceID = TrimSpace (sr_TraceID req), oc_OrderID = submitOrderID env req,
       oc_ClientOrderID = TrimSpace (sr_ClientOrderID req), oc_FreezeID = cr_FreezeID freeze, oc_FreezeAsset = cr_Asset freeze,
       oc_FreezeAmount = cr_Amount freeze, oc_CollateralAsset = DefaultCollateralAsset, oc_UserID = sr_UserID req,
       oc_MarketID = sr_MarketID req, oc_Outcome = outcome, oc_BookKey = itoa (sr_MarketID req) @ '':'' @ outcome,
       oc_Side = side, oc_Type = (if market then ''LIMIT'' else ToUpper (TrimSpace (sr_Type req))),
       oc_TimeInForce = (if market then ''IOC'' else ToUpper (TrimSpace (sr_TimeInForce req))), oc_STPStrategy = '''',
       oc_Price = (if market then if side = ''BUY'' then 99 else 1 else sr_Price req), oc_Quantity = sr_Quantity req,
       oc_RequestedAtMillis = sr_RequestedAt req\<rparr>)"

definition SubmitOrder ::
    "('s, 'p) OrderEnv \<Rightarrow> SubmitRequest \<Rightarrow> 's \<times> 'p \<Rightarrow> ((order_err + SubmitResult) \<times> 's \<times> 'p) option" where
  "SubmitOrder env req st =
     (case submitChecks env req of
        None \<Rightarrow> None
      | Some (Inl err) \<Rightarrow> Some (Inl err, st)
      | Some (Inr (asset, amount)) \<Rightarrow>
          if duplicateOrder env req then Some (Inl ErrValidationFailed, st)
          else
            (case ac_PreFreeze (env_account env) \<lparr>cf_UserID = sr_UserID req, cf_Asset = asset, cf_RefType = ''ORDER'',
                    cf_RefID = submitOrderID env req, cf_Amount = amount\<rparr> (fst st) of
               (Inl err, s1) \<Rightarrow>
                 Some (Inl (if looksLikeInsufficientBalance err then ErrInsufficientFunds else AccountErr err), s1, snd st)
             | (Inr freeze, s1) \<Rightarrow>
                 let command = submitCommand env req freeze
                 in case env_publish env (oc_BookKey command) command (snd st) of
                      (Some _, p1) \<Rightarrow>
                        let (_, s2) = ac_ReleaseFreeze (env_account env) (cr_FreezeID freeze) s1
                        in Some (Inl ErrPublishFailed, s2, p1)
                    | (None, p1) \<Rightarrow>
                        Some (Inr \<lparr>sq_CommandID = oc_CommandID command, sq_OrderID = oc_OrderID command,
                                  sq_FreezeID = cr_FreezeID freeze, sq_Asset = cr_Asset freeze, sq_Amount = cr_Amount freeze\<rparr>,
                              s1, p1)))"

text \<open>
  The loop over the two outcomes of a complete set; the number counts the identifiers drawn. A failed
  position event is logged only.
\<close>

fun seedInventory ::
    "('s, 'p) OrderEnv \<Rightarrow> SeedLiquidityRequest \<Rightarrow> string \<Rightarrow> nat \<Rightarrow> InventoryItem list \<Rightarrow> 's \<times> 'p \<Rightarrow> bool \<times> 's \<times> 'p" where
  "seedInventory env req liq n [] st = (True, st)"
| "seedInventory env req liq n (item # items) st =
     (case ac_CreditBalance (env_account env) (sl_OperatorUserID req) (ii_PositionAsset item) (ii_Quantity item)
             ''FIRST_LIQUIDITY_POSITION'' (liq @ '':'' @ ii_Outcome item) (fst st) of
        (Inl _, s1) \<Rightarrow> (False, s1, snd st)
      | (Inr (_, applied), s1) \<Rightarrow>
          if \<not> applied then (False, s1, snd st)
          else
            let event = \<lparr>pc_EventID = env_newID env ''evt_pos'' n, pc_TraceID = liq, pc_SourceTradeID = liq,
                         pc_UserID = sl_OperatorUserID req, pc_MarketID = sl_MarketID req, pc_Outcome = ii_Outcome item,
                         pc_PositionAsset = ii_PositionAsset item, pc_DeltaQuantity = ii_Quantity item,
                         pc_OccurredAtMillis = env_nowMillis env\<rparr>;
                (_, p1) = env_publishPosition env (itoa (sl_MarketID req) @ '':'' @ ii_Outcome item) event (snd st)
            in seedInventory env req liq (Suc n) items (s1, p1))"

definition completeSet :: "SeedLiquidityRequest \<Rightarrow> InventoryItem list" where
  "completeSet req =
     map (\<lambda>outcome. \<lparr>ii_Outcome = outcome, ii_PositionAsset = PositionAsset (sl_MarketID req) outcome, ii_Quantity = sl_Quantity req\<rparr>)
       [''YES'', ''NO'']"

definition bootstrapOrder :: "('s, 'p) OrderEnv \<Rightarrow> SeedLiquidityRequest \<Rightarrow> string \<Rightarrow> SubmitRequest" where
  "bootstrapOrder env req liq =
     \<lparr>sr_UserID = sl_OperatorUserID req, sr_MarketID = sl_MarketID req, sr_Outcome = ToUpper (TrimSpace (sl_Outcome req)),
      sr_Side = ''SELL'', sr_Type = ''LIMIT'', sr_TimeInForce = ''GTC'', sr_Price = sl_Price req, sr_Quantity = sl_Quantity req,
      sr_TraceID = liq, sr_ClientOrderID = '''', sr_RequestedAt = env_nowMillis env, sr_OrderID = ''''\<rparr>"

text \<open>The second argument is the clock when the bootstrap order is submitted.\<close>

definition SeedLiquidity ::
    "('s, 'p) OrderEnv \<Rightarrow> i64 \<Rightarrow> SeedLiquidityRequest \<Rightarrow> 's \<times> 'p \<Rightarrow> ((order_err + SeedLiquidityResult) \<times> 's \<times> 'p) option" where
  "SeedLiquidity env later req st =
     (let outcome = ToUpper (TrimSpace (sl_Outcome req)); liq = env_newID env ''liq'' 0 in
      if sl_MarketID req \<le> 0 \<or> sl_Quantity req \<le> 0 \<or> sl_Price req \<le> 0 \<or> sl_OperatorUserID req \<le> 0
      then Some (Inl ErrValidationFailed, st)
      else if outcome \<noteq> ''YES'' \<and> outcome \<noteq> ''NO'' then Some (Inl ErrValidationFailed, st)
      else case requireRollupNotFrozen (env_store env) of
        Some err \<Rightarrow> Some (Inl err, st)
      | None \<Rightarrow>
        (case env_store env of
           None \<Rightarrow> None
         | Some store \<Rightarrow>
           (case ms_GetMarket store (sl_MarketID req) of
              Inl _ \<Rightarrow> Some (Inl ErrMarketNotFound, st)
            | Inr market \<Rightarrow>
              if \<not> marketIsOpenForTrading market (env_now env) then Some (Inl ErrMarketNotTradable, st)
              else
                (case WinningPayoutAmount (sl_Quantity req) of
                   Inl _ \<Rightarrow> Some (Inl ErrValidationFailed, st)
                 | Inr collateralDebit \<Rightarrow>
                   (case ac_DebitBalance (env_account env) (sl_OperatorUserID req) (NormalizeAsset (mr_CollateralAsset market))
                           collateralDebit ''FIRST_LIQUIDITY_COLLATERAL'' (liq @ '':collateral'') (fst st) of
                      (Inl err, s1) \<Rightarrow>
                        Some (Inl (if looksLikeInsufficientBalance err then ErrInsufficientFunds else AccountErr err), s1, snd st)
                    | (Inr (_, applied), s1) \<Rightarrow>
                        if \<not> applied then Some (Inl ErrInsufficientFunds, s1, snd st)
                        else
                          (case seedInventory env req liq 0 (completeSet req) (s1, snd st) of
                             (False, st2) \<Rightarrow> Some (Inl CreditInventoryFailed, st2)
                           | (True, st2) \<Rightarrow>
                               (case SubmitOrder (env\<lparr>env_now := later\<rparr>) (bootstrapOrder env req liq) st2 of
                                  None \<Rightarrow> None
                                | Some (Inl err, st3) \<Rightarrow> Some (Inl err, st3)
                                | Some (Inr submitted, st3) \<Rightarrow>
                                    Some (Inr \<lparr>lr_FirstLiquidityID = liq, lr_OrderID = sq_OrderID submitted,
                                              lr_CollateralDebit = collateralDebit, lr_Inventory = completeSet req\<rparr>, st3))))))))"

section \<open>The contract of the account service\<close>

text \<open>
  What order submission relies on: a refused freeze changes no funds, a freeze moves exactly its
  amount from available to frozen for one user, and it can be undone.
\<close>

locale freeze_account =
  fixes ok :: "'s \<Rightarrow> bool"
    and funds :: "'s \<Rightarrow> i64 \<Rightarrow> string \<Rightarrow> int \<times> int"
    and client :: "'s AccountClient"
  assumes freeze_refused: "ok s \<Longrightarrow> ac_PreFreeze client req s = (Inl err, s') \<Longrightarrow> ok s' \<and> funds s' = funds s"
    and freeze_made: "ok s \<Longrightarrow> ac_PreFreeze client req s = (Inr r, s') \<Longrightarrow>
      ok s' \<and> cr_Amount r = cf_Amount req \<and> 0 < cf_Amount req \<and>
      cf_Amount req \<le> fst (funds s (cf_UserID req) (cf_Asset req)) \<and>
      funds s' (cf_UserID req) (cf_Asset req) =
        (fst (funds s (cf_UserID req) (cf_Asset req)) - cf_Amount req, snd (funds s (cf_UserID req) (cf_Asset req)) + cf_Amount req) \<and>
      (\<forall>u a. u \<noteq> cf_UserID req \<longrightarrow> funds s' u a = funds s u a)"
    and freeze_undone: "ok s \<Longrightarrow> ac_PreFreeze client req s = (Inr r, s') \<Longrightarrow>
      \<exists>s2. ac_ReleaseFreeze client (cr_FreezeID r) s' = (None, s2) \<and> ok s2 \<and> funds s2 = funds s"
begin

text \<open>An order that is not accepted leaves the funds as they were, also when publishing failed after the freeze.\<close>

lemma submit_refused:
  assumes "ok s" and "env_account env = client" and "SubmitOrder env req (s, p) = Some (Inl err, s', p')"
  shows "ok s' \<and> funds s' = funds s"
proof (cases "\<exists>a n. submitChecks env req = Some (Inr (a, n)) \<and> \<not> duplicateOrder env req")
  case False
  then have "s' = s" using assms(3) by (auto simp: SubmitOrder_def split: option.splits sum.splits if_splits)
  then show ?thesis using assms(1) by simp
next
  case True
  then obtain a n where c: "submitChecks env req = Some (Inr (a, n))" "\<not> duplicateOrder env req" by blast
  define f where "f = \<lparr>cf_UserID = sr_UserID req, cf_Asset = a, cf_RefType = ''ORDER'', cf_RefID = submitOrderID env req, cf_Amount = n\<rparr>"
  obtain res s1 where f1: "ac_PreFreeze client f s = (res, s1)" by fastforce
  show ?thesis
  proof (cases res)
    case (Inl x)
    then have "s' = s1" using assms(2,3) c f1 by (auto simp: SubmitOrder_def f_def)
    then show ?thesis using freeze_refused [OF assms(1)] f1 Inl by blast
  next
    case (Inr r)
    obtain s2 where s2: "ac_ReleaseFreeze client (cr_FreezeID r) s1 = (None, s2)" "ok s2" "funds s2 = funds s"
      using freeze_undone [OF assms(1)] f1 Inr by blast
    have "s' = s2"
      using assms(2,3) c f1 Inr s2(1) by (auto simp: SubmitOrder_def f_def Let_def split: prod.splits option.splits)
    then show ?thesis using s2 by simp
  qed
qed

text \<open>An accepted order has been published with the freeze it was given.\<close>

lemma submit_accepted:
  assumes "ok s" and "env_account env = client" and "SubmitOrder env req (s, p) = Some (Inr res, s', p')"
  shows "\<exists>a n r. submitChecks env req = Some (Inr (a, n)) \<and> \<not> duplicateOrder env req \<and> sq_FreezeID res = cr_FreezeID r \<and>
    sq_Amount res = n \<and> cr_Amount r = n \<and> 0 < n \<and> n \<le> fst (funds s (sr_UserID req) a) \<and> ok s' \<and>
    funds s' (sr_UserID req) a = (fst (funds s (sr_UserID req) a) - n, snd (funds s (sr_UserID req) a) + n) \<and>
    (\<forall>u x. u \<noteq> sr_UserID req \<longrightarrow> funds s' u x = funds s u x) \<and>
    env_publish env (oc_BookKey (submitCommand env req r)) (submitCommand env req r) p = (None, p')"
proof -
  obtain a n where c: "submitChecks env req = Some (Inr (a, n))" "\<not> duplicateOrder env req"
    using assms(3) by (auto simp: SubmitOrder_def split: option.splits sum.splits if_splits)
  define f where "f = \<lparr>cf_UserID = sr_UserID req, cf_Asset = a, cf_RefType = ''ORDER'', cf_RefID = submitOrderID env req, cf_Amount = n\<rparr>"
  obtain q s1 where f1: "ac_PreFreeze client f s = (q, s1)" by fastforce
  obtain r where r: "q = Inr r" using assms(2,3) c f1 by (cases q) (auto simp: SubmitOrder_def f_def)
  have "s' = s1 \<and> sq_FreezeID res = cr_FreezeID r \<and> sq_Amount res = cr_Amount r \<and>
      env_publish env (oc_BookKey (submitCommand env req r)) (submitCommand env req r) p = (None, p')"
    using assms(2,3) c f1 r by (auto simp: SubmitOrder_def f_def Let_def split: prod.splits option.splits)
  then show ?thesis using freeze_made [OF assms(1)] f1 r c by (fastforce simp: f_def)
qed

end

text \<open>The balance book behind its server and client keeps the contract.\<close>

definition book_funds :: "'d BalanceBook \<Rightarrow> i64 \<Rightarrow> string \<Rightarrow> int \<times> int" where
  "book_funds b u a = (bal_Available (GetBalance u a b), bal_Frozen (GetBalance u a b))"

definition book_live :: "'d BalanceBook \<Rightarrow> bool" where
  "book_live b \<longleftrightarrow> book_ok b \<and> bb_store b = None"

abbreviation frozen_request :: "ClientFreezeRequest \<Rightarrow> FreezeRequest" where
  "frozen_request req \<equiv> \<lparr>fq_FreezeID = '''', fq_UserID = cf_UserID req, fq_Asset = cf_Asset req, fq_RefType = cf_RefType req,
     fq_RefID = cf_RefID req, fq_Amount = cf_Amount req\<rparr>"

lemma rpc_PreFreeze_cases:
  assumes "rpc_PreFreeze newID req b = (res, b')"
  obtains err where "PreFreeze newID (frozen_request req) b = (Inl err, b')" "res = Inl (mapBalanceBookError err)"
    | r q where "PreFreeze newID (frozen_request req) b = (Inr r, b')" "res = Inr q" "cr_FreezeID q = fr_FreezeID r"
      "cr_Amount q = fr_Amount r"
  using assms by (auto simp: rpc_PreFreeze_def split: prod.splits sum.splits)

lemma rpc_PreFreeze_refused:
  assumes "book_live b" and "rpc_PreFreeze newID req b = (Inl err, b')"
  shows "book_live b' \<and> book_funds b' = book_funds b"
proof -
  obtain e where p: "PreFreeze newID (frozen_request req) b = (Inl e, b')" using assms(2) by (auto elim: rpc_PreFreeze_cases)
  have "book_ok b' \<and> same_funds b b'" "bb_store b' = None"
    using PreFreeze_facts [OF _ p] PreFreeze_memory [OF _ p] assms(1) by (auto simp: book_live_def)
  then show ?thesis by (simp add: book_live_def book_funds_def same_funds_def fun_eq_iff)
qed

lemma rpc_PreFreeze_made:
  assumes "book_live b" and "rpc_PreFreeze newID req b = (Inr r, b')"
  shows "book_live b' \<and> cr_Amount r = cf_Amount req \<and> 0 < cf_Amount req \<and>
      cf_Amount req \<le> fst (book_funds b (cf_UserID req) (cf_Asset req)) \<and>
      book_funds b' (cf_UserID req) (cf_Asset req) =
        (fst (book_funds b (cf_UserID req) (cf_Asset req)) - cf_Amount req, snd (book_funds b (cf_UserID req) (cf_Asset req)) + cf_Amount req) \<and>
      (\<forall>u a. u \<noteq> cf_UserID req \<longrightarrow> book_funds b' u a = book_funds b u a)" (is ?made)
    and "\<exists>b2. rpc_ReleaseFreeze (cr_FreezeID r) b' = (None, b2) \<and> book_live b2 \<and> book_funds b2 = book_funds b" (is ?undone)
proof -
  obtain q where p: "PreFreeze newID (frozen_request req) b = (Inr q, b')"
    and q: "cr_FreezeID r = fr_FreezeID q" "cr_Amount r = fr_Amount q"
    using assms(2) by (auto elim: rpc_PreFreeze_cases)
  have ok: "book_ok b" "bb_store b = None" using assms(1) by (simp_all add: book_live_def)
  have F: "book_ok b'" "froze (frozen_request req) q b b'" "bb_store b' = None"
    using PreFreeze_facts [OF ok(1) p] PreFreeze_memory [OF ok(2) p] by auto
  show ?made using F q by (auto simp: froze_def moved_def book_live_def book_funds_def)
  obtain b2 where R: "ReleaseFreeze (fr_FreezeID q) b' = (None, b2)" "bb_store b2 = None"
    using ReleaseFreeze_memory [OF F(1,3), of "fr_FreezeID q" q] F(2) by (auto simp: froze_def)
  then show ?undone
    using release_restores [OF ok(1) p R(1)] q(1)
    by (auto simp: rpc_ReleaseFreeze_def book_live_def book_funds_def fun_eq_iff)
qed

interpretation book_account: freeze_account book_live book_funds "bookClient newID" for newID
  by unfold_locales (auto simp: bookClient_def dest: rpc_PreFreeze_refused rpc_PreFreeze_made)

section \<open>What is reserved\<close>

lemma SubmitOrder_orderID: "SubmitOrder env req st = Some (Inr res, st') \<Longrightarrow> sq_OrderID res = submitOrderID env req"
  by (auto simp: SubmitOrder_def submitCommand_def Let_def split: option.splits sum.splits if_splits prod.splits)

lemma CalculateFreeze_buy:
  assumes "CalculateFreeze ''BUY'' ty mid oc price q = Inr (a, n)"
  shows "a = DefaultCollateralAsset \<and> 0 < q \<and> n = (if ty = ''LIMIT'' then price else 100) * q \<and> n \<le> MaxInt64 \<and>
    (ty = ''LIMIT'' \<longrightarrow> 0 < price)"
  using assms mul_guard_iff [of q price] mul_guard_iff [of q 100]
  by (auto simp: CalculateFreeze_def Let_def wrap64_range split: if_splits)

lemma CalculateFreeze_sell: "CalculateFreeze ''SELL'' ty mid oc price q = Inr (a, n) \<Longrightarrow> a = PositionAsset mid oc \<and> n = q \<and> 0 < q"
  by (auto simp: CalculateFreeze_def split: if_splits)

lemma submitChecks_passed:
  assumes "submitChecks env req = Some (Inr (a, n))"
  shows "0 < sr_MarketID req \<and> 0 < sr_UserID req \<and> 0 < sr_Quantity req \<and>
    ValidateOrderFields (ToUpper (TrimSpace (sr_Outcome req))) (ToUpper (TrimSpace (sr_Side req))) (ToUpper (TrimSpace (sr_Type req)))
      (ToUpper (TrimSpace (sr_TimeInForce req))) (sr_Price req) (sr_Quantity req) = None \<and>
    CalculateFreeze (ToUpper (TrimSpace (sr_Side req))) (ToUpper (TrimSpace (sr_Type req))) (sr_MarketID req)
      (ToUpper (TrimSpace (sr_Outcome req))) (sr_Price req) (sr_Quantity req) = Inr (a, n)"
  using assms by (auto simp: submitChecks_def Let_def split: if_splits option.splits sum.splits)


text \<open>
  A service on the example book with one open market. The publisher keeps the commands it accepted, and
  refuses everything when it is down.
\<close>

definition ex_env :: "bool \<Rightarrow> (unit BalanceBook, OrderCommand list) OrderEnv" where
  "ex_env up =
     \<lparr>env_account = bookClient ''frz1'',
      env_publish = (\<lambda>_ c p. if up then (None, p @ [c]) else (Some ''broker down'', p)),
      env_publishPosition = (\<lambda>_ _ p. (None, p)),
      env_store = Some \<lparr>ms_GetMarket = (\<lambda>_. Inr \<lparr>mr_Status = ''OPEN'', mr_CloseAt = 0, mr_CollateralAsset = ''usdt''\<rparr>),
                        ms_GetRollupFreezeState = Inr False\<rparr>,
      env_dedup = None, env_now = 0, env_nowMillis = 0, env_newID = (\<lambda>x _. x @ ''1'')\<rparr>"

definition ex_submit :: SubmitRequest where
  "ex_submit = \<lparr>sr_UserID = 7, sr_MarketID = 1, sr_Outcome = ''yes'', sr_Side = ''buy'', sr_Type = ''MARKET'', sr_TimeInForce = ''IOC'',
     sr_Price = 0, sr_Quantity = 2, sr_TraceID = '''', sr_ClientOrderID = '''', sr_RequestedAt = 0, sr_OrderID = ''''\<rparr>"

definition ex_seed :: SeedLiquidityRequest where
  "ex_seed = \<lparr>sl_OperatorUserID = 7, sl_MarketID = 1, sl_Outcome = ''YES'', sl_Quantity = 2, sl_Price = 150, sl_TraceID = ''''\<rparr>"

text \<open>Reading off the outcome of an evaluated call.\<close>

lemma outcome_refused:
  "(case x of Some (Inl e, b, p) \<Rightarrow> P e b p | _ \<Rightarrow> False) \<Longrightarrow> \<exists>e b p. x = Some (Inl e, b, p) \<and> P e b p"
  by (cases x) (auto simp: case_prod_unfold split: sum.splits intro: prod_eqI)

lemma outcome_accepted:
  "(case x of Some (Inr r, b, p) \<Rightarrow> P r b p | _ \<Rightarrow> False) \<Longrightarrow> \<exists>r b p. x = Some (Inr r, b, p) \<and> P r b p"
  by (cases x) (auto simp: case_prod_unfold split: sum.splits intro: prod_eqI)

lemma ex_submit_down:
  "\<exists>b'. SubmitOrder (ex_env False) ex_submit (ex_book, []) = Some (Inl ErrPublishFailed, b', [])"
proof -
  have "case SubmitOrder (ex_env False) ex_submit (ex_book, []) of
      Some (Inl e, _, p) \<Rightarrow> e = ErrPublishFailed \<and> p = [] | _ \<Rightarrow> False" by code_simp
  from outcome_refused [OF this] show ?thesis by blast
qed


text \<open>
  C12. An accepted order is published with its whole cost reserved. The published command is a limit
  order at a price from 1 to 99; its freeze amount has moved from the available to the frozen balance
  of the user and of no one else; and it is the quantity in the position asset for a sale, and at
  least price times quantity in the collateral asset for a purchase.
\<close>

theorem submit_reserves_cost:
  assumes "book_reach b" and "bb_store b = None" and "env_account env = bookClient newID"
    and "SubmitOrder env req (b, p) = Some (Inr res, b', p')"
  shows "\<exists>c a. env_publish env (oc_BookKey c) c p = (None, p') \<and> oc_OrderID c = sq_OrderID res \<and> oc_UserID c = sr_UserID req \<and>
    oc_Type c = ''LIMIT'' \<and> 1 \<le> oc_Price c \<and> oc_Price c \<le> 99 \<and> 0 < oc_Quantity c \<and> oc_Quantity c = sr_Quantity req \<and>
    (if oc_Side c = ''BUY'' then a = DefaultCollateralAsset \<and> oc_Price c * oc_Quantity c \<le> oc_FreezeAmount c
     else oc_Side c = ''SELL'' \<and> a = PositionAsset (oc_MarketID c) (oc_Outcome c) \<and> oc_FreezeAmount c = oc_Quantity c) \<and>
    book_funds b' (oc_UserID c) a =
      (fst (book_funds b (oc_UserID c) a) - oc_FreezeAmount c, snd (book_funds b (oc_UserID c) a) + oc_FreezeAmount c) \<and>
    (\<forall>u x. u \<noteq> oc_UserID c \<longrightarrow> book_funds b' u x = book_funds b u x)"
proof -
  have "book_live b" using book_reach_ok [OF assms(1)] assms(2) by (simp add: book_live_def)
  then obtain a n r where A: "submitChecks env req = Some (Inr (a, n))" "cr_Amount r = n" "sq_FreezeID res = cr_FreezeID r"
    "book_funds b' (sr_UserID req) a = (fst (book_funds b (sr_UserID req) a) - n, snd (book_funds b (sr_UserID req) a) + n)"
    "\<forall>u x. u \<noteq> sr_UserID req \<longrightarrow> book_funds b' u x = book_funds b u x"
    "env_publish env (oc_BookKey (submitCommand env req r)) (submitCommand env req r) p = (None, p')"
    using book_account.submit_accepted [OF _ assms(3,4)] by blast
  have id: "sq_OrderID res = submitOrderID env req" using SubmitOrder_orderID [OF assms(4)] .
  note P = submitChecks_passed [OF A(1)]
  define side ty oc where "side = ToUpper (TrimSpace (sr_Side req))" "ty = ToUpper (TrimSpace (sr_Type req))"
    "oc = ToUpper (TrimSpace (sr_Outcome req))"
  note F = P [folded side_ty_oc_def]
  have V: "side = ''BUY'' \<or> side = ''SELL''" "ty = ''LIMIT'' \<or> ty = ''MARKET''"
    "ty = ''LIMIT'' \<longrightarrow> 1 \<le> sr_Price req \<and> sr_Price req \<le> 99"
    using F by (auto simp: ValidateOrderFields_def split: if_splits)
  have C: "if side = ''BUY'' then a = DefaultCollateralAsset \<and> n = (if ty = ''LIMIT'' then sr_Price req else 100) * sr_Quantity req
      else a = PositionAsset (sr_MarketID req) oc \<and> n = sr_Quantity req"
    using F V(1) CalculateFreeze_buy [of ty _ oc] CalculateFreeze_sell [of ty _ oc] by auto
  show ?thesis
    using A id V C F
    by - (rule exI [of _ "submitCommand env req r"], rule exI [of _ a],
      auto simp: submitCommand_def Let_def side_ty_oc_def [symmetric] mult_right_mono)
qed

theorem submit_reserves_cost_witness:
  "\<exists>b' p' res. SubmitOrder (ex_env True) ex_submit (ex_book, []) = Some (Inr res, b', p') \<and>
    (\<exists>c. p' = [c] \<and> 1 \<le> oc_Price c \<and> oc_Price c \<le> 99 \<and> oc_UserID c = 7)"
proof -
  have "case SubmitOrder (ex_env True) ex_submit (ex_book, []) of Some (Inr _, _, p) \<Rightarrow> True | _ \<Rightarrow> False" by code_simp
  from outcome_accepted [OF this] obtain res b' p' where
    s: "SubmitOrder (ex_env True) ex_submit (ex_book, []) = Some (Inr res, b', p')" by blast
  have "bb_store ex_book = None" by code_simp
  then show ?thesis
    using submit_reserves_cost [OF ex_book_reach _ _ s, of "''frz1''"] s by (fastforce simp: ex_env_def ex_submit_def)
qed


end
