(* ===== verification/Ring_Buffer.thy ===== *)
theory Ring_Buffer
  imports Go_Prelude "HOL-Library.Sublist"
begin

text \<open>
  The single-producer single-consumer queue of \<open>matching/ringbuffer/ringbuffer.go\<close>: the operations on
  its 64-bit cursors, their contract as a bounded queue, and the interleaving of a producer and a
  consumer at the granularity of the atomic loads and stores of the code.
\<close>

unbundle bit_operations_syntax

section \<open>Operations\<close>

record 'a RingBuffer =
  rb_write :: "64 word"
  rb_read :: "64 word"
  rb_mask :: "64 word"
  rb_slots :: "'a list"

definition nextPowerOfTwo :: "i64 \<Rightarrow> i64" where
  "nextPowerOfTwo v =
     (if v \<le> 0 then 1
      else let v0 = v - 1;
               v1 = v0 OR drop_bit 1 v0;
               v2 = v1 OR drop_bit 2 v1;
               v3 = v2 OR drop_bit 4 v2;
               v4 = v3 OR drop_bit 8 v3;
               v5 = v4 OR drop_bit 16 v4;
               v6 = v5 OR drop_bit 32 v5
           in wrap64 (v6 + 1))"

text \<open>The first argument is the zero value of the element type.\<close>

definition rb_New :: "'a \<Rightarrow> i64 \<Rightarrow> 'a RingBuffer" where
  "rb_New zero requestedCap =
     (let n = nextPowerOfTwo requestedCap; cap = (if n < 16 then 16 else n)
      in \<lparr>rb_write = 0, rb_read = 0, rb_mask = of_int (cap - 1), rb_slots = replicate (nat cap) zero\<rparr>)"

definition slot :: "'a RingBuffer \<Rightarrow> 64 word \<Rightarrow> nat" where
  "slot rb i = unat (i AND rb_mask rb)"

definition TryPublish :: "'a \<Rightarrow> 'a RingBuffer \<Rightarrow> bool \<times> 'a RingBuffer" where
  "TryPublish item rb =
     (let w = rb_write rb in
      if rb_mask rb < w - rb_read rb then (False, rb)
      else (True, rb\<lparr>rb_slots := (rb_slots rb)[slot rb w := item], rb_write := w + 1\<rparr>))"

definition TryConsume :: "'a RingBuffer \<Rightarrow> 'a option \<times> 'a RingBuffer" where
  "TryConsume rb =
     (let r = rb_read rb in
      if rb_write rb \<le> r then (None, rb)
      else (Some (rb_slots rb ! slot rb r), rb\<lparr>rb_read := r + 1\<rparr>))"

definition DrainTo :: "'a list \<Rightarrow> i64 \<Rightarrow> 'a RingBuffer \<Rightarrow> i64 \<times> 'a list \<times> 'a RingBuffer" where
  "DrainTo dst maxItems rb =
     (let r = rb_read rb; avail = sint (rb_write rb - r) in
      if avail = 0 then (0, dst, rb)
      else
        let n = (if maxItems < avail then maxItems else avail);
            n = (if int (length dst) < n then int (length dst) else n);
            items = map (\<lambda>i. rb_slots rb ! slot rb (r + of_nat i)) [0..<nat n]
        in (n, items @ drop (nat n) dst, rb\<lparr>rb_read := r + of_int n\<rparr>))"

definition rb_Size :: "'a RingBuffer \<Rightarrow> i64" where
  "rb_Size rb = sint (rb_write rb - rb_read rb)"

definition rb_Cap :: "'a RingBuffer \<Rightarrow> i64" where
  "rb_Cap rb = sint (rb_mask rb + 1)"

definition IsFull :: "'a RingBuffer \<Rightarrow> bool" where
  "IsFull rb \<longleftrightarrow> rb_mask rb < rb_write rb - rb_read rb"

section \<open>The buffer as a bounded queue\<close>

definition rb_len :: "'a RingBuffer \<Rightarrow> nat" where
  "rb_len rb = unat (rb_write rb - rb_read rb)"

definition rb_queue :: "'a RingBuffer \<Rightarrow> 'a list" where
  "rb_queue rb = map (\<lambda>i. rb_slots rb ! slot rb (rb_read rb + of_nat i)) [0..<rb_len rb]"

definition rb_shape :: "'a RingBuffer \<Rightarrow> bool" where
  "rb_shape rb \<longleftrightarrow> (\<exists>k\<le>62. rb_mask rb = mask k \<and> length (rb_slots rb) = 2 ^ k)"

definition rb_ok :: "'a RingBuffer \<Rightarrow> bool" where
  "rb_ok rb \<longleftrightarrow> rb_shape rb \<and> rb_len rb \<le> length (rb_slots rb)"

lemma mask_length:
  assumes "rb_shape rb"
  shows "unat (rb_mask rb) = length (rb_slots rb) - 1" and "0 < length (rb_slots rb)" and "length (rb_slots rb) \<le> 2 ^ 62"
    and "length (rb_slots rb) dvd 2 ^ 64"
proof -
  obtain k where k: "k \<le> 62" "rb_mask rb = mask k" "length (rb_slots rb) = 2 ^ k" using assms by (auto simp: rb_shape_def)
  have "uint (rb_mask rb) = mask k" using k(1,2) by (simp add: uint_mask_eq min_def)
  then have "unat (rb_mask rb) = nat (mask k)" by (metis nat_uint_eq)
  then show "unat (rb_mask rb) = length (rb_slots rb) - 1" by (simp add: k(3) mask_eq_exp_minus_1 nat_diff_distrib' nat_power_eq)
  show "0 < length (rb_slots rb)" "length (rb_slots rb) \<le> 2 ^ 62" "length (rb_slots rb) dvd 2 ^ 64"
    using k(1) by (simp_all add: k(3) power_increasing le_imp_power_dvd del: power_numeral)
qed

lemma slot_mod: "rb_shape rb \<Longrightarrow> slot rb i = unat i mod length (rb_slots rb)"
  by (auto simp: rb_shape_def slot_def unsigned_take_bit_eq simp flip: take_bit_eq_mask) (simp add: take_bit_eq_mod)

lemma slot_offset: "rb_shape rb \<Longrightarrow> slot rb (r + of_nat i) = (unat r + i) mod length (rb_slots rb)"
  using mask_length(4) [of rb]
  by (simp add: slot_mod unat_word_ariths(1) unat_of_nat mod_mod_cancel mod_add_right_eq)

lemma slot_range: "rb_shape rb \<Longrightarrow> slot rb i < length (rb_slots rb)"
  using mask_length(2) [of rb] by (simp add: slot_mod)

lemma full_iff: "rb_shape rb \<Longrightarrow> rb_mask rb < rb_write rb - rb_read rb \<longleftrightarrow> length (rb_slots rb) \<le> rb_len rb"
  using mask_length(1) [of rb] mask_length(2) [of rb]
  by (cases "length (rb_slots rb)") (auto simp: rb_len_def word_less_nat_alt)

lemma write_offset: "rb_write rb = rb_read rb + of_nat (rb_len rb)"
  by (simp add: rb_len_def)

lemma length_queue [simp]: "length (rb_queue rb) = rb_len rb"
  by (simp add: rb_queue_def)

text \<open>The single stores of the operations, on the queue the buffer holds.\<close>

lemma store_slot:
  assumes "rb_ok rb" and "rb_len rb < length (rb_slots rb)"
  shows "rb_ok (rb\<lparr>rb_slots := (rb_slots rb)[slot rb (rb_write rb) := x]\<rparr>) \<and>
    rb_queue (rb\<lparr>rb_slots := (rb_slots rb)[slot rb (rb_write rb) := x]\<rparr>) = rb_queue rb"
proof -
  let ?n = "length (rb_slots rb)"
  have sh: "rb_shape rb" using assms(1) by (simp add: rb_ok_def)
  have "(unat (rb_read rb) + i) mod ?n \<noteq> (unat (rb_read rb) + rb_len rb) mod ?n" if "i < rb_len rb" for i
  proof
    assume "(unat (rb_read rb) + i) mod ?n = (unat (rb_read rb) + rb_len rb) mod ?n"
    then have "?n dvd (unat (rb_read rb) + rb_len rb) - (unat (rb_read rb) + i)"
      using that by (metis add_left_mono less_imp_le mod_eq_dvd_iff_nat)
    then show False using that assms(2) by (auto dest: dvd_imp_le)
  qed
  then have ne: "slot rb (rb_write rb) \<noteq> slot rb (rb_read rb + of_nat i)" if "i < rb_len rb" for i
    using that slot_offset [OF sh] write_offset [of rb] by metis
  let ?rb = "rb\<lparr>rb_slots := (rb_slots rb)[slot rb (rb_write rb) := x]\<rparr>"
  have same: "rb_len ?rb = rb_len rb" "slot ?rb = slot rb" by (simp_all add: rb_len_def slot_def fun_eq_iff)
  have "rb_queue ?rb = rb_queue rb" unfolding rb_queue_def same using ne by simp
  moreover have "rb_ok ?rb" using assms(1) by (simp add: rb_ok_def rb_shape_def rb_len_def)
  ultimately show ?thesis by simp
qed

lemma advance_write:
  assumes "rb_ok rb" and "rb_len rb < length (rb_slots rb)"
  shows "rb_ok (rb\<lparr>rb_write := rb_write rb + 1\<rparr>) \<and>
    rb_queue (rb\<lparr>rb_write := rb_write rb + 1\<rparr>) = rb_queue rb @ [rb_slots rb ! slot rb (rb_write rb)]"
proof -
  have "rb_shape rb" using assms(1) by (simp add: rb_ok_def)
  then have "rb_len rb + 1 < 2 ^ 64" using mask_length(3) [of rb] assms(2) by simp
  then have "unat (rb_write rb - rb_read rb + 1) = rb_len rb + 1"
    using unat_add_lem [of "rb_write rb - rb_read rb" 1] by (simp add: rb_len_def)
  then have len: "rb_len (rb\<lparr>rb_write := rb_write rb + 1\<rparr>) = Suc (rb_len rb)"
    by (simp add: rb_len_def algebra_simps)
  then show ?thesis
    using assms write_offset [of rb] by (simp add: rb_ok_def rb_shape_def rb_queue_def slot_def)
qed

lemma advance_read:
  assumes "rb_ok rb" and "n \<le> rb_len rb"
  shows "rb_ok (rb\<lparr>rb_read := rb_read rb + of_nat n\<rparr>) \<and> rb_queue (rb\<lparr>rb_read := rb_read rb + of_nat n\<rparr>) = drop n (rb_queue rb)"
proof -
  have "rb_write rb - (rb_read rb + of_nat n) = of_nat (rb_len rb - n)"
    using assms(2) write_offset [of rb] by (simp add: of_nat_diff)
  moreover have "rb_len rb - n < 2 ^ 64" unfolding rb_len_def by (rule le_less_trans [OF diff_le_self]) (use unsigned_less [of "rb_write rb - rb_read rb"] in auto)
  ultimately have len: "rb_len (rb\<lparr>rb_read := rb_read rb + of_nat n\<rparr>) = rb_len rb - n"
    by (simp add: rb_len_def unat_of_nat)
  have "rb_queue (rb\<lparr>rb_read := rb_read rb + of_nat n\<rparr>) = drop n (rb_queue rb)"
  proof (rule nth_equalityI)
    show "length (rb_queue (rb\<lparr>rb_read := rb_read rb + of_nat n\<rparr>)) = length (drop n (rb_queue rb))" by (simp add: len)
  next
    fix i assume "i < length (rb_queue (rb\<lparr>rb_read := rb_read rb + of_nat n\<rparr>))"
    then have "n + i < rb_len rb" "i < rb_len rb - n" by (simp_all add: len)
    then show "rb_queue (rb\<lparr>rb_read := rb_read rb + of_nat n\<rparr>) ! i = drop n (rb_queue rb) ! i"
      unfolding rb_queue_def len by (simp add: slot_def add.assoc)
  qed
  then show ?thesis using assms(1) len by (auto simp: rb_ok_def rb_shape_def)
qed

lemma queue_prefix:
  assumes "n \<le> rb_len rb"
  shows "map (\<lambda>i. rb_slots rb ! slot rb (rb_read rb + of_nat i)) [0..<n] = take n (rb_queue rb)"
  using assms by (simp add: rb_queue_def take_map)

lemma avail_len: "rb_ok rb \<Longrightarrow> sint (rb_write rb - rb_read rb) = int (rb_len rb)"
proof -
  assume "rb_ok rb"
  then have "rb_len rb < 2 ^ 63" using mask_length(3) [of rb] by (auto simp: rb_ok_def)
  then have "int (rb_len rb) < 2 ^ 63" by simp
  then have "uint (rb_write rb - rb_read rb) < 2 ^ 63" by (simp add: rb_len_def)
  then have "signed_take_bit 63 (uint (rb_write rb - rb_read rb)) = uint (rb_write rb - rb_read rb)"
    by (intro signed_take_bit_int_eq_self) (simp_all add: order_trans [OF _ unsigned_greater_eq])
  then show ?thesis by (simp add: rb_len_def sint_uint)
qed

section \<open>The contract\<close>

text \<open>A bounded queue with back-pressure that is emptied in batches.\<close>

locale bounded_queue =
  fixes inv :: "'q \<Rightarrow> bool"
    and contents :: "'q \<Rightarrow> 'a list"
    and capacity :: "'q \<Rightarrow> nat"
    and publish :: "'a \<Rightarrow> 'q \<Rightarrow> bool \<times> 'q"
    and drain :: "nat \<Rightarrow> 'q \<Rightarrow> 'a list \<times> 'q"
  assumes publish_room: "inv q \<Longrightarrow> length (contents q) < capacity q \<Longrightarrow>
      \<exists>q'. publish x q = (True, q') \<and> inv q' \<and> contents q' = contents q @ [x] \<and> capacity q' = capacity q"
    and publish_full: "inv q \<Longrightarrow> \<not> length (contents q) < capacity q \<Longrightarrow> publish x q = (False, q)"
    and drain_front: "inv q \<Longrightarrow>
      \<exists>q'. drain n q = (take n (contents q), q') \<and> inv q' \<and> contents q' = drop n (contents q) \<and> capacity q' = capacity q"
begin

text \<open>Publishing never loses or reorders, and a batch brings an emptying loop one iteration closer to the end.\<close>

lemma publish_total:
  "inv q \<Longrightarrow> \<exists>ok q'. publish x q = (ok, q') \<and> inv q' \<and> contents q' = (if ok then contents q @ [x] else contents q)"
  using publish_room publish_full by (metis (full_types))

lemma drain_progress:
  assumes "inv q" and "length (contents q) \<le> Suc k * n"
  shows "\<exists>q'. drain n q = (take n (contents q), q') \<and> inv q' \<and> contents q' = drop n (contents q) \<and> length (contents q') \<le> k * n"
  using drain_front [OF assms(1), of n] assms(2) by auto

end

text \<open>The batch of \<open>n\<close> items as the code drains it, into a buffer of that length.\<close>

definition drain_batch :: "'a \<Rightarrow> nat \<Rightarrow> 'a RingBuffer \<Rightarrow> 'a list \<times> 'a RingBuffer" where
  "drain_batch zero n rb = (let (m, dst, rb') = DrainTo (replicate n zero) (int n) rb in (take (nat m) dst, rb'))"

lemma DrainTo_batch:
  assumes "rb_ok rb"
  shows "drain_batch zero n rb = (take n (rb_queue rb), rb\<lparr>rb_read := rb_read rb + of_nat (min n (rb_len rb))\<rparr>)"
proof (cases "rb_len rb = 0")
  case True
  then have "rb_queue rb = []" by (simp add: rb_queue_def)
  then show ?thesis using True by (simp add: drain_batch_def DrainTo_def avail_len [OF assms])
next
  case False
  define m where "m = min n (rb_len rb)"
  have "DrainTo (replicate n zero) (int n) rb =
      (int m, take m (rb_queue rb) @ drop m (replicate n zero), rb\<lparr>rb_read := rb_read rb + of_nat m\<rparr>)"
    unfolding DrainTo_def Let_def avail_len [OF assms] 
    using False queue_prefix [of n rb] queue_prefix [of "rb_len rb" rb]
    by (cases "n \<le> rb_len rb") (auto simp: m_def min_def)
  moreover have "take m (rb_queue rb) = take n (rb_queue rb)" by (simp add: m_def min_def)
  ultimately show ?thesis by (simp add: drain_batch_def m_def)
qed

lemma TryPublish_queue:
  assumes "rb_ok rb"
  shows "TryPublish x rb =
    (if rb_len rb < length (rb_slots rb)
     then (True, rb\<lparr>rb_slots := (rb_slots rb)[slot rb (rb_write rb) := x], rb_write := rb_write rb + 1\<rparr>)
     else (False, rb))"
  using assms full_iff [of rb] by (auto simp: TryPublish_def rb_ok_def Let_def)

lemma publish_step:
  assumes "rb_ok rb" and "rb_len rb < length (rb_slots rb)"
  shows "rb_ok (rb\<lparr>rb_slots := (rb_slots rb)[slot rb (rb_write rb) := x], rb_write := rb_write rb + 1\<rparr>) \<and>
    rb_queue (rb\<lparr>rb_slots := (rb_slots rb)[slot rb (rb_write rb) := x], rb_write := rb_write rb + 1\<rparr>) = rb_queue rb @ [x]"
proof -
  let ?rb = "rb\<lparr>rb_slots := (rb_slots rb)[slot rb (rb_write rb) := x]\<rparr>"
  have s: "rb_ok ?rb" "rb_queue ?rb = rb_queue rb" using store_slot [OF assms] by blast+
  moreover have "rb_len ?rb < length (rb_slots ?rb)" using assms(2) by (simp add: rb_len_def)
  moreover have "rb_slots ?rb ! slot ?rb (rb_write ?rb) = x"
    using slot_range [of rb "rb_write rb"] assms(1) by (simp add: rb_ok_def slot_def)
  ultimately show ?thesis using advance_write [of ?rb] by simp
qed

interpretation ring: bounded_queue rb_ok rb_queue "\<lambda>rb. length (rb_slots rb)" TryPublish "drain_batch zero" for zero :: 'a
proof unfold_locales
  fix q :: "'a RingBuffer" and x n
  assume ok: "rb_ok q"
  show "\<exists>q'. TryPublish x q = (True, q') \<and> rb_ok q' \<and> rb_queue q' = rb_queue q @ [x] \<and> length (rb_slots q') = length (rb_slots q)"
    if "length (rb_queue q) < length (rb_slots q)"
    using that publish_step [OF ok, of x] by (simp add: TryPublish_queue [OF ok])
  show "TryPublish x q = (False, q)" if "\<not> length (rb_queue q) < length (rb_slots q)"
    using that by (simp add: TryPublish_queue [OF ok])
  show "\<exists>q'. drain_batch zero n q = (take n (rb_queue q), q') \<and> rb_ok q' \<and> rb_queue q' = drop n (rb_queue q) \<and>
      length (rb_slots q') = length (rb_slots q)"
    using advance_read [OF ok, of "min n (rb_len q)"] by (simp add: DrainTo_batch [OF ok] min_def)
qed

section \<open>A producer and a consumer at the same time\<close>

text \<open>
  The producer runs \<open>TryPublish\<close> and the consumer \<open>DrainTo\<close>, each again and again. A step is one
  atomic load or store of the code, or the read or write of one slot, and the steps of the two sides
  interleave in any order. A side keeps between its steps the local variables of the function; the
  histories record what \<open>TryPublish\<close> accepted and what \<open>DrainTo\<close> returned.
\<close>

datatype 'a producer = PIdle | PLoadedWrite "64 word" 'a | PChecked "64 word" 'a | PStored "64 word" 'a

datatype 'a consumer = CIdle | CLoadedRead "64 word" | CCopying "64 word" nat "'a list"

record 'a spsc =
  sp_rb :: "'a RingBuffer"
  sp_prod :: "'a producer"
  sp_cons :: "'a consumer"
  sp_accepted :: "'a list"
  sp_delivered :: "'a list"

inductive spsc_step :: "'a spsc \<Rightarrow> 'a spsc \<Rightarrow> bool" where
  load_write: "sp_prod s = PIdle \<Longrightarrow> spsc_step s (s\<lparr>sp_prod := PLoadedWrite (rb_write (sp_rb s)) x\<rparr>)"
| refuse: "sp_prod s = PLoadedWrite w x \<Longrightarrow> rb_mask (sp_rb s) < w - rb_read (sp_rb s) \<Longrightarrow> spsc_step s (s\<lparr>sp_prod := PIdle\<rparr>)"
| check: "sp_prod s = PLoadedWrite w x \<Longrightarrow> \<not> rb_mask (sp_rb s) < w - rb_read (sp_rb s) \<Longrightarrow>
    spsc_step s (s\<lparr>sp_prod := PChecked w x\<rparr>)"
| store: "sp_prod s = PChecked w x \<Longrightarrow>
    spsc_step s (s\<lparr>sp_rb := (sp_rb s)\<lparr>rb_slots := (rb_slots (sp_rb s))[slot (sp_rb s) w := x]\<rparr>, sp_prod := PStored w x\<rparr>)"
| commit: "sp_prod s = PStored w x \<Longrightarrow>
    spsc_step s (s\<lparr>sp_rb := (sp_rb s)\<lparr>rb_write := w + 1\<rparr>, sp_prod := PIdle, sp_accepted := sp_accepted s @ [x]\<rparr>)"
| load_read: "sp_cons s = CIdle \<Longrightarrow> spsc_step s (s\<lparr>sp_cons := CLoadedRead (rb_read (sp_rb s))\<rparr>)"
| load_avail: "sp_cons s = CLoadedRead r \<Longrightarrow> avail = sint (rb_write (sp_rb s) - r) \<Longrightarrow>
    spsc_step s (s\<lparr>sp_cons := (if avail = 0 then CIdle else CCopying r (nat (min avail (int maxItems))) [])\<rparr>)"
| copy: "sp_cons s = CCopying r n xs \<Longrightarrow> length xs < n \<Longrightarrow>
    spsc_step s (s\<lparr>sp_cons := CCopying r n (xs @ [rb_slots (sp_rb s) ! slot (sp_rb s) (r + of_nat (length xs))])\<rparr>)"
| release: "sp_cons s = CCopying r n xs \<Longrightarrow> length xs = n \<Longrightarrow>
    spsc_step s (s\<lparr>sp_rb := (sp_rb s)\<lparr>rb_read := r + of_nat n\<rparr>, sp_cons := CIdle, sp_delivered := sp_delivered s @ xs\<rparr>)"

definition spsc_start :: "'a RingBuffer \<Rightarrow> 'a spsc" where
  "spsc_start rb = \<lparr>sp_rb = rb, sp_prod = PIdle, sp_cons = CIdle, sp_accepted = [], sp_delivered = []\<rparr>"

text \<open>What each side knows of the shared buffer at its program point.\<close>

definition producer_knows :: "'a producer \<Rightarrow> 'a RingBuffer \<Rightarrow> bool" where
  "producer_knows p rb =
     (case p of
        PIdle \<Rightarrow> True
      | PLoadedWrite w _ \<Rightarrow> w = rb_write rb
      | PChecked w _ \<Rightarrow> w = rb_write rb \<and> rb_len rb < length (rb_slots rb)
      | PStored w x \<Rightarrow> w = rb_write rb \<and> rb_len rb < length (rb_slots rb) \<and> rb_slots rb ! slot rb w = x)"

definition consumer_knows :: "'a consumer \<Rightarrow> 'a RingBuffer \<Rightarrow> bool" where
  "consumer_knows c rb =
     (case c of
        CIdle \<Rightarrow> True
      | CLoadedRead r \<Rightarrow> r = rb_read rb
      | CCopying r n xs \<Rightarrow> r = rb_read rb \<and> n \<le> rb_len rb \<and> length xs \<le> n \<and> xs = take (length xs) (rb_queue rb))"

definition spsc_inv :: "'a spsc \<Rightarrow> bool" where
  "spsc_inv s \<longleftrightarrow> rb_ok (sp_rb s) \<and> sp_accepted s = sp_delivered s @ rb_queue (sp_rb s) \<and>
     producer_knows (sp_prod s) (sp_rb s) \<and> consumer_knows (sp_cons s) (sp_rb s)"

text \<open>The consumer is not disturbed by the producer's stores, nor the producer by the consumer's.\<close>

lemma consumer_keeps:
  assumes "consumer_knows c rb" and "rb_read rb' = rb_read rb" and "rb_queue rb' = rb_queue rb @ ys"
  shows "consumer_knows c rb'"
proof -
  have "rb_len rb' = rb_len rb + length ys" using arg_cong [OF assms(3), of length] by simp
  then show ?thesis using assms by (auto simp: consumer_knows_def split: consumer.splits)
qed

lemma producer_keeps:
  assumes "producer_knows p rb" and "rb_write rb' = rb_write rb" and "rb_slots rb' = rb_slots rb" and "rb_mask rb' = rb_mask rb"
    and "rb_len rb' \<le> rb_len rb"
  shows "producer_knows p rb'"
  using assms by (auto simp: producer_knows_def slot_def split: producer.splits)

lemma spsc_step_inv: "spsc_step s s' \<Longrightarrow> spsc_inv s \<Longrightarrow> spsc_inv s'"
proof (induction rule: spsc_step.induct)
  case (check s w x)
  then show ?case using full_iff [of "sp_rb s"] by (auto simp: spsc_inv_def producer_knows_def rb_ok_def)
next
  case (store s w x)
  let ?rb = "(sp_rb s)\<lparr>rb_slots := (rb_slots (sp_rb s))[slot (sp_rb s) w := x]\<rparr>"
  have k: "rb_ok (sp_rb s)" "w = rb_write (sp_rb s)" "rb_len (sp_rb s) < length (rb_slots (sp_rb s))"
    using store by (auto simp: spsc_inv_def producer_knows_def)
  have q: "rb_ok ?rb" "rb_queue ?rb = rb_queue (sp_rb s)" using store_slot [OF k(1,3), of x] k(2) by auto
  have "producer_knows (PStored w x) ?rb"
    using k slot_range [of "sp_rb s" w] by (auto simp: producer_knows_def rb_len_def slot_def rb_ok_def)
  moreover have "consumer_knows (sp_cons s) ?rb"
    using consumer_keeps [of "sp_cons s" "sp_rb s" ?rb "[]"] store(2) q(2) by (simp add: spsc_inv_def)
  ultimately show ?case using store(2) q by (simp add: spsc_inv_def)
next
  case (commit s w x)
  have k: "rb_ok (sp_rb s)" "w = rb_write (sp_rb s)" "rb_len (sp_rb s) < length (rb_slots (sp_rb s))"
    "rb_slots (sp_rb s) ! slot (sp_rb s) w = x"
    using commit by (auto simp: spsc_inv_def producer_knows_def)
  have q: "rb_ok ((sp_rb s)\<lparr>rb_write := w + 1\<rparr>)" "rb_queue ((sp_rb s)\<lparr>rb_write := w + 1\<rparr>) = rb_queue (sp_rb s) @ [x]"
    using advance_write [OF k(1,3)] k(2,4) by auto
  have "consumer_knows (sp_cons s) ((sp_rb s)\<lparr>rb_write := w + 1\<rparr>)"
    using consumer_keeps [of "sp_cons s" "sp_rb s" _ "[x]"] commit(2) q(2) by (simp add: spsc_inv_def)
  then show ?case using commit(2) q by (simp add: spsc_inv_def producer_knows_def)
next
  case (load_avail s r avail maxItems)
  then show ?case using avail_len [of "sp_rb s"] by (auto simp: spsc_inv_def consumer_knows_def)
next
  case (copy s r n xs)
  then have k: "r = rb_read (sp_rb s)" "length xs < rb_len (sp_rb s)" "xs = take (length xs) (rb_queue (sp_rb s))"
    by (auto simp: spsc_inv_def consumer_knows_def)
  have "rb_queue (sp_rb s) ! length xs = rb_slots (sp_rb s) ! slot (sp_rb s) (r + of_nat (length xs))"
    using k(1,2) by (simp add: rb_queue_def)
  then have "xs @ [rb_slots (sp_rb s) ! slot (sp_rb s) (r + of_nat (length xs))] = take (Suc (length xs)) (rb_queue (sp_rb s))"
    using k(2,3) by (simp add: take_Suc_conv_app_nth)
  then show ?case using copy by (auto simp: spsc_inv_def consumer_knows_def)
next
  case (release s r n xs)
  then have k: "rb_ok (sp_rb s)" "r = rb_read (sp_rb s)" "n \<le> rb_len (sp_rb s)" "xs = take n (rb_queue (sp_rb s))"
    by (auto simp: spsc_inv_def consumer_knows_def)
  let ?rb = "(sp_rb s)\<lparr>rb_read := r + of_nat n\<rparr>"
  have q: "rb_ok ?rb" "rb_queue ?rb = drop n (rb_queue (sp_rb s))" using advance_read [OF k(1,3)] k(2) by auto
  have "rb_len ?rb \<le> rb_len (sp_rb s)" using arg_cong [OF q(2), of length] by simp
  then have "producer_knows (sp_prod s) ?rb"
    using release(3) producer_keeps [of "sp_prod s" "sp_rb s" ?rb] by (simp add: spsc_inv_def)
  moreover have "xs @ rb_queue ?rb = rb_queue (sp_rb s)" using k(4) q(2) by simp
  ultimately show ?case using release(3) q(1) by (simp add: spsc_inv_def consumer_knows_def)
qed (auto simp: spsc_inv_def producer_knows_def consumer_knows_def)

lemma spsc_reach_inv: "spsc_step\<^sup>*\<^sup>* s s' \<Longrightarrow> spsc_inv s \<Longrightarrow> spsc_inv s'"
  by (induction rule: rtranclp_induct) (auto intro: spsc_step_inv)

section \<open>The capacity\<close>

text \<open>Each line of the rounding doubles the number of positions a set bit is copied to.\<close>

definition smeared :: "int \<Rightarrow> nat \<Rightarrow> int \<Rightarrow> bool" where
  "smeared v n x \<longleftrightarrow> (\<forall>i. bit x i \<longleftrightarrow> (\<exists>j<n. bit v (i + j)))"

lemma smeared_start: "smeared v 1 v"
  by (simp add: smeared_def)

lemma smeared_double: "smeared v n x \<Longrightarrow> smeared v (n + n) (x OR drop_bit n x)"
proof -
  assume s: "smeared v n x"
  have split: "(\<exists>j<n + n. bit v (i + j)) \<longleftrightarrow> (\<exists>j<n. bit v (i + j)) \<or> (\<exists>j<n. bit v (n + i + j))" for i
  proof
    assume "\<exists>j<n + n. bit v (i + j)"
    then obtain j where j: "j < n + n" "bit v (i + j)" by blast
    show "(\<exists>j<n. bit v (i + j)) \<or> (\<exists>j<n. bit v (n + i + j))"
    proof (cases "j < n")
      case False
      then have "j - n < n" "n + i + (j - n) = i + j" using j(1) by auto
      then show ?thesis using j(2) by metis
    qed (use j in blast)
  next
    assume "(\<exists>j<n. bit v (i + j)) \<or> (\<exists>j<n. bit v (n + i + j))"
    then show "\<exists>j<n + n. bit v (i + j)"
    proof
      assume "\<exists>j<n. bit v (n + i + j)"
      then obtain j where "j < n" "bit v (n + i + j)" by blast
      then have "n + j < n + n" "bit v (i + (n + j))" by (simp_all add: ac_simps)
      then show ?thesis by blast
    qed (use trans_less_add1 in blast)
  qed
  show ?thesis using s by (simp add: smeared_def bit_or_iff bit_drop_bit_eq split)
qed

lemma smeared_mask:
  assumes "2 ^ p \<le> v" and "v < 2 ^ Suc p" and "p < n" and "smeared v n x"
  shows "x = mask (Suc p)"
proof (rule bit_eqI)
  fix i
  have top: "bit v p" and above: "\<not> bit v j" if "p < j" for j
  proof -
    have "v div 2 ^ p = 1" using assms(1,2) by (intro int_div_pos_eq [where r = "v - 2 ^ p"]) auto
    then show "bit v p" by (simp add: bit_iff_odd)
    have "v < 2 ^ j" using assms(2) power_increasing [of "Suc p" j "2 :: int"] that by simp
    moreover have "0 \<le> v" using order_trans [OF _ assms(1), of 0] by simp
    ultimately show "\<not> bit v j" by (simp add: bit_iff_odd)
  qed
  have "(\<exists>j<n. bit v (i + j)) \<longleftrightarrow> i < Suc p"
  proof
    assume "\<exists>j<n. bit v (i + j)"
    then show "i < Suc p" using above by (metis linorder_neqE_nat less_Suc_eq_le not_less trans_less_add1)
  next
    assume "i < Suc p"
    then have "p - i < n" "i + (p - i) = p" using assms(3) by auto
    moreover have "bit v p" using top [of "Suc p"] by simp
    ultimately show "\<exists>j<n. bit v (i + j)" by metis
  qed
  then show "bit x i = bit (mask (Suc p) :: int) i" using assms(4) by (simp add: smeared_def bit_mask_iff)
qed

lemma nextPowerOfTwo_exact:
  assumes "1 < v" and "v \<le> 2 ^ 62"
  shows "\<exists>p<62. nextPowerOfTwo v = 2 ^ Suc p \<and> 2 ^ p < v \<and> v \<le> 2 ^ Suc p"
proof -
  define v0 where "v0 = v - 1"
  define v1 v2 v3 v4 v5 v6 where "v1 = v0 OR drop_bit 1 v0" "v2 = v1 OR drop_bit 2 v1" "v3 = v2 OR drop_bit 4 v2"
    "v4 = v3 OR drop_bit 8 v3" "v5 = v4 OR drop_bit 16 v4" "v6 = v5 OR drop_bit 32 v5"
  note V = v1_v2_v3_v4_v5_v6_def
  have "smeared v0 2 v1" using smeared_double [OF smeared_start, of v0] by (simp add: V numeral_2_eq_2)
  then have "smeared v0 4 v2" using smeared_double [of v0 2 v1] by (simp add: V)
  then have "smeared v0 8 v3" using smeared_double [of v0 4 v2] by (simp add: V)
  then have "smeared v0 16 v4" using smeared_double [of v0 8 v3] by (simp add: V)
  then have "smeared v0 32 v5" using smeared_double [of v0 16 v4] by (simp add: V)
  then have s: "smeared v0 64 v6" using smeared_double [of v0 32 v5] by (simp add: V)
  have pos: "1 \<le> v0" "v0 < 2 ^ 62" using assms by (simp_all add: v0_def)
  obtain p where p: "2 ^ p \<le> nat v0" "nat v0 < 2 ^ Suc p"
    using ex_power_ivl1 [of 2 "nat v0"] nat_mono [OF pos(1)] by auto
  have "nat v0 < 2 ^ 62" using pos by (simp add: nat_less_iff)
  then have "(2 :: nat) ^ p < 2 ^ 62" using p(1) by linarith
  then have p62: "p < 62" by (simp add: power_less_imp_less_exp del: power_numeral)
  have b: "2 ^ p \<le> v0" "v0 < 2 ^ Suc p"
    using p pos by (simp_all add: nat_less_iff le_nat_iff)
  have "v6 = mask (Suc p)" using smeared_mask [OF b _ s] p62 by simp
  moreover have "(2 :: int) ^ Suc p \<le> 2 ^ 62" using p62 by (intro power_increasing) auto
  moreover have "nextPowerOfTwo v = wrap64 (v6 + 1)"
    using assms(1) unfolding nextPowerOfTwo_def Let_def V v0_def by (simp only: not_le [symmetric] if_False) simp
  ultimately have "nextPowerOfTwo v = 2 ^ Suc p"
    by (simp add: mask_eq_exp_minus_1 wrap64_id order_trans [OF _ zero_le_power])
  then show ?thesis using p62 b by (auto simp: v0_def)
qed

lemma rb_New_ok:
  assumes "c \<le> 2 ^ 62"
  shows "rb_ok (rb_New zero c) \<and> rb_queue (rb_New zero c) = [] \<and>
    (\<exists>k. length (rb_slots (rb_New zero c)) = 2 ^ k \<and> max c 16 \<le> 2 ^ k \<and> ((2 :: int) ^ k = 16 \<or> 2 ^ k < 2 * c))"
proof -
  define cap where "cap = (if nextPowerOfTwo c < 16 then 16 else nextPowerOfTwo c)"
  have "\<exists>k\<le>62. cap = 2 ^ k \<and> max c 16 \<le> 2 ^ k \<and> ((2 :: int) ^ k = 16 \<or> 2 ^ k < 2 * c)"
  proof (cases "1 < c")
    case True
    then obtain p where p: "p < 62" "nextPowerOfTwo c = 2 ^ Suc p" "2 ^ p < c" "c \<le> 2 ^ Suc p"
      using nextPowerOfTwo_exact [OF True assms] by blast
    show ?thesis
    proof (cases "(2 :: int) ^ Suc p < 16")
      case True
      then show ?thesis using p by (intro exI [of _ 4]) (auto simp: cap_def)
    next
      case False
      then show ?thesis using p by (intro exI [of _ "Suc p"]) (auto simp: cap_def)
    qed
  next
    case False
    have "c = 1 \<Longrightarrow> nextPowerOfTwo c = 1" by (simp add: nextPowerOfTwo_def wrap64_id)
    then have "nextPowerOfTwo c = 1" using False by (cases "c = 1") (auto simp: nextPowerOfTwo_def)
    then show ?thesis using False by (intro exI [of _ 4]) (auto simp: cap_def)
  qed
  then obtain k where k: "k \<le> 62" "cap = 2 ^ k" "max c 16 \<le> 2 ^ k" "(2 :: int) ^ k = 16 \<or> 2 ^ k < 2 * c" by blast
  have n: "rb_New zero c = \<lparr>rb_write = 0, rb_read = 0, rb_mask = of_int (cap - 1), rb_slots = replicate (nat cap) zero\<rparr>"
    by (simp add: rb_New_def Let_def cap_def)
  have "(of_int (cap - 1) :: 64 word) = mask k" by (simp add: k(2) mask_eq_exp_minus_1)
  then have "rb_shape (rb_New zero c)" using k(1,2) by (auto simp: rb_shape_def n nat_power_eq)
  then show ?thesis using k by (auto simp: rb_ok_def rb_len_def rb_queue_def n nat_power_eq)
qed

text \<open>
  C27. The lock-free queue is a bounded first-in first-out queue under every interleaving of one
  producer and one consumer: started empty with any requested capacity up to \<open>2\<^sup>6\<^sup>2\<close>, at every moment
  the items delivered are a prefix of the items accepted, in order, without loss or repetition, and
  what lies between them is exactly the buffer's content. The capacity is the least power of two that
  is at least 16 and at least the requested one, and the buffer never holds more.
\<close>

theorem ring_interleaving_fifo:
  assumes "c \<le> 2 ^ 62" and "spsc_step\<^sup>*\<^sup>* (spsc_start (rb_New zero c)) s"
  shows "sp_accepted s = sp_delivered s @ rb_queue (sp_rb s) \<and> prefix (sp_delivered s) (sp_accepted s) \<and>
    length (rb_queue (sp_rb s)) \<le> length (rb_slots (sp_rb s)) \<and>
    (\<exists>k. length (rb_slots (rb_New zero c)) = 2 ^ k \<and> max c 16 \<le> 2 ^ k \<and> ((2 :: int) ^ k = 16 \<or> 2 ^ k < 2 * c))"
proof -
  have "spsc_inv (spsc_start (rb_New zero c))"
    using rb_New_ok [OF assms(1), of zero] by (simp add: spsc_inv_def spsc_start_def producer_knows_def consumer_knows_def)
  then have "spsc_inv s" using spsc_reach_inv [OF assms(2)] by blast
  then show ?thesis using rb_New_ok [OF assms(1), of zero] by (auto simp: spsc_inv_def rb_ok_def)
qed

text \<open>Publishing one item without interruption is four steps.\<close>

lemma publish_steps:
  assumes "sp_prod s = PIdle" and "\<not> IsFull (sp_rb s)"
  shows "spsc_step\<^sup>*\<^sup>* s (s\<lparr>sp_rb := snd (TryPublish x (sp_rb s)), sp_accepted := sp_accepted s @ [x]\<rparr>)"
proof -
  let ?rb = "sp_rb s"
  let ?w = "rb_write ?rb"
  let ?rb1 = "?rb\<lparr>rb_slots := (rb_slots ?rb)[slot ?rb ?w := x]\<rparr>"
  have full: "\<not> rb_mask ?rb < ?w - rb_read ?rb" using assms(2) by (simp add: IsFull_def)
  have "spsc_step s (s\<lparr>sp_prod := PLoadedWrite ?w x\<rparr>)" by (rule load_write [OF assms(1)])
  moreover have "spsc_step (s\<lparr>sp_prod := PLoadedWrite ?w x\<rparr>) (s\<lparr>sp_prod := PChecked ?w x\<rparr>)"
    using check [of "s\<lparr>sp_prod := PLoadedWrite ?w x\<rparr>" ?w x] full by simp
  moreover have "spsc_step (s\<lparr>sp_prod := PChecked ?w x\<rparr>) (s\<lparr>sp_rb := ?rb1, sp_prod := PStored ?w x\<rparr>)"
    using store [of "s\<lparr>sp_prod := PChecked ?w x\<rparr>" ?w x] by simp
  moreover have "spsc_step (s\<lparr>sp_rb := ?rb1, sp_prod := PStored ?w x\<rparr>)
      (s\<lparr>sp_rb := ?rb1\<lparr>rb_write := ?w + 1\<rparr>, sp_prod := PIdle, sp_accepted := sp_accepted s @ [x]\<rparr>)"
    using commit [of "s\<lparr>sp_rb := ?rb1, sp_prod := PStored ?w x\<rparr>" ?w x] by simp
  ultimately have "spsc_step\<^sup>*\<^sup>* s (s\<lparr>sp_rb := ?rb1\<lparr>rb_write := ?w + 1\<rparr>, sp_prod := PIdle, sp_accepted := sp_accepted s @ [x]\<rparr>)"
    by (meson converse_rtranclp_into_rtranclp rtranclp.rtrancl_refl)
  moreover have "s\<lparr>sp_rb := ?rb1\<lparr>rb_write := ?w + 1\<rparr>, sp_prod := PIdle, sp_accepted := sp_accepted s @ [x]\<rparr> =
      s\<lparr>sp_rb := snd (TryPublish x ?rb), sp_accepted := sp_accepted s @ [x]\<rparr>"
    using assms(1) full by (cases s) (simp add: TryPublish_def Let_def)
  ultimately show ?thesis by simp
qed

theorem ring_interleaving_fifo_witness:
  "\<exists>s. spsc_step\<^sup>*\<^sup>* (spsc_start (rb_New (0 :: nat) 20)) s \<and> sp_accepted s = [5] \<and> prefix (sp_delivered s) [5] \<and>
    length (rb_queue (sp_rb s)) \<le> length (rb_slots (sp_rb s))"
proof -
  let ?s = "spsc_start (rb_New (0 :: nat) 20)"
  have "\<not> IsFull (rb_New (0 :: nat) 20)" by (simp add: IsFull_def rb_New_def Let_def)
  then have "spsc_step\<^sup>*\<^sup>* ?s (?s\<lparr>sp_rb := snd (TryPublish 5 (sp_rb ?s)), sp_accepted := sp_accepted ?s @ [5]\<rparr>)"
    by (intro publish_steps) (simp_all add: spsc_start_def)
  from ring_interleaving_fifo [OF _ this] this show ?thesis by (auto simp: spsc_start_def)
qed

end
