(* ===== verification/Match_Pipeline.thy ===== *)
theory Match_Pipeline
  imports Match_Props Kafka_Messages Ring_Buffer
begin

text \<open>
  The matching pipeline: the command protocol of \<open>matching/pipeline/protocol.go\<close>, the engine of one
  book in \<open>bookengine.go\<close>, the supervisor of \<open>supervisor.go\<close>, the routing of \<open>dispatcher.go\<close> and the
  sweep of \<open>matching/service/order_expiry.go\<close>. A channel is the list of the results sent to it; the
  clock, the epoch and the trade sequence that the books share are arguments.
\<close>

section \<open>The command protocol (protocol.go)\<close>

type_synonym flag = "8 word"

definition SideFlagFrom :: "OrderSide \<Rightarrow> flag" where
  "SideFlagFrom s = (if s = OrderSideSell then 1 else 0)"

definition SideFlag_ToModel :: "flag \<Rightarrow> OrderSide" where
  "SideFlag_ToModel f = (if f = 1 then OrderSideSell else OrderSideBuy)"

definition TypeFlagFrom :: "OrderType \<Rightarrow> flag" where
  "TypeFlagFrom t = (if t = OrderTypeMarket then 1 else 0)"

definition TypeFlag_ToModel :: "flag \<Rightarrow> OrderType" where
  "TypeFlag_ToModel f = (if f = 1 then OrderTypeMarket else OrderTypeLimit)"

definition TIFFlagFrom :: "TimeInForce \<Rightarrow> flag" where
  "TIFFlagFrom t = (if t = TimeInForceIOC then 1 else if t = TimeInForceFOK then 2 else if t = TimeInForcePostOnly then 3 else 0)"

definition TIFFlag_ToModel :: "flag \<Rightarrow> TimeInForce" where
  "TIFFlag_ToModel f = (if f = 1 then TimeInForceIOC else if f = 2 then TimeInForceFOK else if f = 3 then TimeInForcePostOnly else TimeInForceGTC)"

definition STPFlagFrom :: "STPStrategy \<Rightarrow> flag" where
  "STPFlagFrom s = (if s = STPCancelTaker then 1 else if s = STPCancelMaker then 2 else if s = STPCancelBoth then 3 else 0)"

definition STPFlag_ToModel :: "flag \<Rightarrow> STPStrategy" where
  "STPFlag_ToModel f = (if f = 1 then STPCancelTaker else if f = 2 then STPCancelMaker else if f = 3 then STPCancelBoth else STPNone)"

definition CancelReasonFlag_ToModel :: "flag \<Rightarrow> CancelReason" where
  "CancelReasonFlag_ToModel f = (if f = 1 then CancelReasonMarketClosed else CancelReasonNone)"

abbreviation ActionPlace :: flag where "ActionPlace \<equiv> 0"
abbreviation ActionCancel :: flag where "ActionCancel \<equiv> 1"

record MatchCommand =
  mc_UserID :: i64
  mc_MarketID :: i64
  mc_Price :: i64
  mc_Quantity :: i64
  mc_FreezeAmount :: i64
  mc_RequestedAtMillis :: i64
  mc_OrderID :: string
  mc_ClientOrderID :: string
  mc_Outcome :: string
  mc_BookKey :: string
  mc_CommandID :: string
  mc_TraceID :: string
  mc_FreezeID :: string
  mc_FreezeAsset :: string
  mc_CollateralAsset :: string
  mc_Action :: flag
  mc_Side :: flag
  mc_Type :: flag
  mc_TimeInForce :: flag
  mc_STP :: flag
  mc_CancelReason :: flag

definition zeroCommand :: MatchCommand where
  "zeroCommand =
     \<lparr>mc_UserID = 0, mc_MarketID = 0, mc_Price = 0, mc_Quantity = 0, mc_FreezeAmount = 0, mc_RequestedAtMillis = 0,
      mc_OrderID = '''', mc_ClientOrderID = '''', mc_Outcome = '''', mc_BookKey = '''', mc_CommandID = '''', mc_TraceID = '''',
      mc_FreezeID = '''', mc_FreezeAsset = '''', mc_CollateralAsset = '''', mc_Action = 0, mc_Side = 0, mc_Type = 0,
      mc_TimeInForce = 0, mc_STP = 0, mc_CancelReason = 0\<rparr>"

definition mc_ToOrder :: "i64 \<Rightarrow> MatchCommand \<Rightarrow> Order" where
  "mc_ToOrder nowMillis c =
     \<lparr>o_OrderID = mc_OrderID c, o_ClientOrderID = mc_ClientOrderID c, o_UserID = mc_UserID c, o_MarketID = mc_MarketID c,
      o_Outcome = mc_Outcome c, o_Side = SideFlag_ToModel (mc_Side c), o_Type = TypeFlag_ToModel (mc_Type c),
      o_TimeInForce = TIFFlag_ToModel (mc_TimeInForce c), o_STPStrategy = STPFlag_ToModel (mc_STP c), o_Price = mc_Price c,
      o_Quantity = mc_Quantity c, o_FilledQuantity = 0, o_Status = '''', o_CancelReason = '''',
      o_CreatedAtMillis = mc_RequestedAtMillis c, o_UpdatedAtMillis = nowMillis\<rparr>"

definition ToKafkaCommand :: "MatchCommand \<Rightarrow> OrderCommand" where
  "ToKafkaCommand c =
     \<lparr>oc_CommandID = mc_CommandID c, oc_TraceID = mc_TraceID c, oc_OrderID = mc_OrderID c, oc_ClientOrderID = mc_ClientOrderID c,
      oc_FreezeID = mc_FreezeID c, oc_FreezeAsset = mc_FreezeAsset c, oc_FreezeAmount = mc_FreezeAmount c,
      oc_CollateralAsset = mc_CollateralAsset c, oc_UserID = mc_UserID c, oc_MarketID = mc_MarketID c, oc_Outcome = mc_Outcome c,
      oc_BookKey = mc_BookKey c, oc_Side = SideFlag_ToModel (mc_Side c), oc_Type = TypeFlag_ToModel (mc_Type c),
      oc_TimeInForce = TIFFlag_ToModel (mc_TimeInForce c), oc_STPStrategy = STPFlag_ToModel (mc_STP c), oc_Price = mc_Price c,
      oc_Quantity = mc_Quantity c, oc_RequestedAtMillis = mc_RequestedAtMillis c\<rparr>"

definition CommandFromKafka :: "OrderCommand \<Rightarrow> MatchCommand" where
  "CommandFromKafka cmd =
     (let bookKey = (if oc_BookKey cmd = '''' then BuildBookKey (oc_MarketID cmd) (oc_Outcome cmd) else oc_BookKey cmd) in
      \<lparr>mc_UserID = oc_UserID cmd, mc_MarketID = oc_MarketID cmd, mc_Price = oc_Price cmd, mc_Quantity = oc_Quantity cmd,
       mc_FreezeAmount = oc_FreezeAmount cmd, mc_RequestedAtMillis = oc_RequestedAtMillis cmd, mc_OrderID = oc_OrderID cmd,
       mc_ClientOrderID = oc_ClientOrderID cmd, mc_Outcome = oc_Outcome cmd, mc_BookKey = bookKey, mc_CommandID = oc_CommandID cmd,
       mc_TraceID = oc_TraceID cmd, mc_FreezeID = oc_FreezeID cmd, mc_FreezeAsset = oc_FreezeAsset cmd,
       mc_CollateralAsset = oc_CollateralAsset cmd, mc_Action = ActionPlace, mc_Side = SideFlagFrom (oc_Side cmd),
       mc_Type = TypeFlagFrom (oc_Type cmd), mc_TimeInForce = TIFFlagFrom (oc_TimeInForce cmd),
       mc_STP = STPFlagFrom (oc_STPStrategy cmd), mc_CancelReason = 0\<rparr>)"

record MatchResult =
  mr_Command :: MatchCommand
  mr_Result :: Result
  mr_Rejected :: bool
  mr_EpochID :: u64

section \<open>One book (bookengine.go)\<close>

abbreviation bookRBSize :: int where "bookRBSize \<equiv> 1024"
abbreviation matchDrainBatch :: nat where "matchDrainBatch \<equiv> 64"

record BookEngine =
  be_bookKey :: string
  be_eng :: Engine
  be_inputRB :: "MatchCommand RingBuffer"
  be_matched :: u64
  be_batches :: u64

definition NewBookEngine :: "string \<Rightarrow> u64 \<Rightarrow> BookEngine" where
  "NewBookEngine bookKey sequence =
     \<lparr>be_bookKey = bookKey, be_eng = New\<lparr>e_sequence := sequence\<rparr>, be_inputRB = rb_New zeroCommand bookRBSize, be_matched = 0, be_batches = 0\<rparr>"

definition handlePlace ::
    "(u64 \<Rightarrow> i64) \<Rightarrow> u64 option \<Rightarrow> i64 \<Rightarrow> MatchCommand \<Rightarrow> BookEngine \<Rightarrow> (MatchResult list \<times> BookEngine) option" where
  "handlePlace clk epoch nowMillis cmd be =
     (case PlaceOrder clk (Some (mc_ToOrder nowMillis cmd)) (be_eng be) of
        None \<Rightarrow> None
      | Some (result, err, eng) \<Rightarrow>
          let epochID = (case epoch of None \<Rightarrow> 0 | Some e \<Rightarrow> e);
              result1 = result\<lparr>r_Trades := map (\<lambda>t. t\<lparr>t_EpochID := epochID\<rparr>) (r_Trades result)\<rparr>
          in Some ([\<lparr>mr_Command = cmd, mr_Result = result1, mr_Rejected = (err \<noteq> None), mr_EpochID = epochID\<rparr>],
                   be\<lparr>be_eng := eng, be_matched := be_matched be + 1\<rparr>))"

definition cancelTarget :: "MatchCommand \<Rightarrow> Order" where
  "cancelTarget cmd =
     \<lparr>o_OrderID = mc_OrderID cmd, o_ClientOrderID = '''', o_UserID = 0, o_MarketID = mc_MarketID cmd, o_Outcome = mc_Outcome cmd,
      o_Side = SideFlag_ToModel (mc_Side cmd), o_Type = '''', o_TimeInForce = '''', o_STPStrategy = '''', o_Price = mc_Price cmd,
      o_Quantity = 0, o_FilledQuantity = 0, o_Status = '''', o_CancelReason = '''', o_CreatedAtMillis = 0, o_UpdatedAtMillis = 0\<rparr>"

definition handleCancel :: "i64 \<Rightarrow> MatchCommand \<Rightarrow> BookEngine \<Rightarrow> (MatchResult list \<times> BookEngine) option" where
  "handleCancel cancelledAt cmd be =
     (case CancelOrders cancelledAt [Some (cancelTarget cmd)] (CancelReasonFlag_ToModel (mc_CancelReason cmd)) (be_eng be) of
        None \<Rightarrow> None
      | Some (cancelResult, _, eng) \<Rightarrow>
          Some (map (\<lambda>o'. \<lparr>mr_Command = cmd, mr_Result = (zeroResult (Some o'))\<lparr>r_Affected := [o']\<rparr>, mr_Rejected = False, mr_EpochID = 0\<rparr>)
                    (c_Orders cancelResult) @
                map (\<lambda>book. \<lparr>mr_Command = cmd, mr_Result = (zeroResult None)\<lparr>r_Book := book\<rparr>, mr_Rejected = False, mr_EpochID = 0\<rparr>)
                    (c_Books cancelResult),
                be\<lparr>be_eng := eng, be_matched := be_matched be + 1\<rparr>))"

text \<open>
  The body of the loop over a drained batch; an unknown action is ignored. \<open>cnow\<close> is the clock that
  \<open>CancelOrders\<close> reads for a command.
\<close>

definition handleCommand ::
    "(u64 \<Rightarrow> i64) \<Rightarrow> (MatchCommand \<Rightarrow> i64) \<Rightarrow> u64 option \<Rightarrow> i64 \<Rightarrow> MatchCommand \<Rightarrow> BookEngine \<Rightarrow>
     (MatchResult list \<times> BookEngine) option" where
  "handleCommand clk cnow epoch nowMillis cmd be =
     (if mc_Action cmd = ActionPlace then handlePlace clk epoch nowMillis cmd be
      else if mc_Action cmd = ActionCancel then handleCancel (cnow cmd) cmd be
      else Some ([], be))"

fun handleBatch ::
    "(u64 \<Rightarrow> i64) \<Rightarrow> (MatchCommand \<Rightarrow> i64) \<Rightarrow> u64 option \<Rightarrow> i64 \<Rightarrow> MatchCommand list \<Rightarrow> BookEngine \<Rightarrow> (MatchResult list \<times> BookEngine) option" where
  "handleBatch clk cnow epoch nowMillis [] be = Some ([], be)"
| "handleBatch clk cnow epoch nowMillis (cmd # cmds) be =
     (case handleCommand clk cnow epoch nowMillis cmd be of
        None \<Rightarrow> None
      | Some (out, be1) \<Rightarrow>
          (case handleBatch clk cnow epoch nowMillis cmds be1 of
             None \<Rightarrow> None
           | Some (out', be2) \<Rightarrow> Some (out @ out', be2)))"

text \<open>
  The loop of the book's goroutine, one iteration per element of the list of clock readings; the idle
  iteration leaves the engine as it is.
\<close>

definition runOnce ::
    "(u64 \<Rightarrow> i64) \<Rightarrow> (MatchCommand \<Rightarrow> i64) \<Rightarrow> u64 option \<Rightarrow> i64 \<Rightarrow> BookEngine \<Rightarrow> (MatchResult list \<times> BookEngine) option" where
  "runOnce clk cnow epoch nowMillis be =
     (let (n, buf, rb) = DrainTo (replicate matchDrainBatch zeroCommand) (int matchDrainBatch) (be_inputRB be);
          be1 = be\<lparr>be_inputRB := rb\<rparr>
      in if n = 0 then Some ([], be1)
         else handleBatch clk cnow epoch nowMillis (take (nat n) buf) (be1\<lparr>be_batches := be_batches be1 + 1\<rparr>))"

fun be_Run ::
    "(u64 \<Rightarrow> i64) \<Rightarrow> (MatchCommand \<Rightarrow> i64) \<Rightarrow> u64 option \<Rightarrow> i64 list \<Rightarrow> BookEngine \<Rightarrow> (MatchResult list \<times> BookEngine) option" where
  "be_Run clk cnow epoch [] be = Some ([], be)"
| "be_Run clk cnow epoch (now # nows) be =
     (case runOnce clk cnow epoch now be of
        None \<Rightarrow> None
      | Some (out, be1) \<Rightarrow>
          (case be_Run clk cnow epoch nows be1 of
             None \<Rightarrow> None
           | Some (out', be2) \<Rightarrow> Some (out @ out', be2)))"

definition be_TryPublish :: "MatchCommand \<Rightarrow> BookEngine \<Rightarrow> bool \<times> BookEngine" where
  "be_TryPublish cmd be = (let (ok, rb) = TryPublish cmd (be_inputRB be) in (ok, be\<lparr>be_inputRB := rb\<rparr>))"

definition be_RestoreOrder :: "Order \<Rightarrow> BookEngine \<Rightarrow> (engine_error option \<times> BookEngine) option" where
  "be_RestoreOrder order be =
     (case RestoreOrder (Some order) (be_eng be) of
        None \<Rightarrow> None
      | Some (err, eng) \<Rightarrow> Some (err, be\<lparr>be_eng := eng\<rparr>))"

definition ExportRestingOrders :: "BookEngine \<Rightarrow> Order list" where
  "ExportRestingOrders be = concat (map (\<lambda>(_, ob). RestingOrders ob) (ExportBooks (be_eng be)))"

section \<open>The supervisor (supervisor.go)\<close>

record BookSupervisor =
  sv_sequence :: u64
  sv_books :: "(string \<times> BookEngine) list"

definition NewBookSupervisor :: BookSupervisor where
  "NewBookSupervisor = \<lparr>sv_sequence = 0, sv_books = []\<rparr>"

text \<open>A book's engine points to the shared sequence: it sees the current value whenever it is used.\<close>

definition sv_getOrCreate :: "string \<Rightarrow> BookSupervisor \<Rightarrow> BookEngine \<times> BookSupervisor" where
  "sv_getOrCreate bookKey s =
     (case map_of (sv_books s) bookKey of
        Some be \<Rightarrow> (be\<lparr>be_eng := (be_eng be)\<lparr>e_sequence := sv_sequence s\<rparr>\<rparr>, s)
      | None \<Rightarrow>
          let be = NewBookEngine bookKey (sv_sequence s)
          in (be, s\<lparr>sv_books := AList.update bookKey be (sv_books s)\<rparr>))"

definition putBook :: "string \<Rightarrow> BookEngine \<Rightarrow> BookSupervisor \<Rightarrow> BookSupervisor" where
  "putBook bookKey be s = s\<lparr>sv_sequence := e_sequence (be_eng be), sv_books := AList.update bookKey be (sv_books s)\<rparr>"

definition Route :: "MatchCommand \<Rightarrow> BookSupervisor \<Rightarrow> bool \<times> BookSupervisor" where
  "Route cmd s =
     (let (be, s1) = sv_getOrCreate (mc_BookKey cmd) s; (ok, be1) = be_TryPublish cmd be
      in (ok, putBook (mc_BookKey cmd) be1 s1))"

definition SubmitCancel :: "MatchCommand \<Rightarrow> BookSupervisor \<Rightarrow> bool \<times> BookSupervisor" where
  "SubmitCancel cmd s = Route (cmd\<lparr>mc_Action := ActionCancel\<rparr>) s"

text \<open>
  Restoring groups the orders by book. The loop over the groups is over a map; it is modelled in the
  order in which the books first occur, and the groups do not influence each other.
\<close>

fun groupOrders :: "Order option list \<Rightarrow> (string \<times> Order list) list \<Rightarrow> (string \<times> Order list) list" where
  "groupOrders [] grouped = grouped"
| "groupOrders (None # orders) grouped = groupOrders orders grouped"
| "groupOrders (Some o' # orders) grouped =
     (let key = BookKey o'; old = (case map_of grouped key of None \<Rightarrow> [] | Some xs \<Rightarrow> xs)
      in groupOrders orders (AList.update key (old @ [o']) grouped))"

fun restoreBook :: "Order list \<Rightarrow> BookEngine \<Rightarrow> (engine_error option \<times> BookEngine) option" where
  "restoreBook [] be = Some (None, be)"
| "restoreBook (o' # os) be =
     (case be_RestoreOrder o' be of
        None \<Rightarrow> None
      | Some (Some err, be1) \<Rightarrow> Some (Some err, be1)
      | Some (None, be1) \<Rightarrow> restoreBook os be1)"

fun restoreGroups :: "(string \<times> Order list) list \<Rightarrow> BookSupervisor \<Rightarrow> (engine_error option \<times> BookSupervisor) option" where
  "restoreGroups [] s = Some (None, s)"
| "restoreGroups ((bookKey, os) # groups) s =
     (let (be, s1) = sv_getOrCreate bookKey s
      in case restoreBook os be of
           None \<Rightarrow> None
         | Some (Some err, be1) \<Rightarrow> Some (Some err, putBook bookKey be1 s1)
         | Some (None, be1) \<Rightarrow> restoreGroups groups (putBook bookKey be1 s1))"

definition sv_Restore :: "u64 \<Rightarrow> Order option list \<Rightarrow> BookSupervisor \<Rightarrow> (engine_error option \<times> BookSupervisor) option" where
  "sv_Restore sequence orders s = restoreGroups (groupOrders orders []) (s\<lparr>sv_sequence := sequence\<rparr>)"

record BookSnapshotData =
  bd_BookKey :: string
  bd_LocalSeq :: u64
  bd_Orders :: "Order list"

record FullSnapshot =
  fs_EpochID :: u64
  fs_GlobalSequence :: u64
  fs_Books :: "BookSnapshotData list"

definition TakeSnapshot :: "BookSupervisor \<Rightarrow> FullSnapshot" where
  "TakeSnapshot s =
     \<lparr>fs_EpochID = 0, fs_GlobalSequence = sv_sequence s,
      fs_Books = map (\<lambda>(key, be). \<lparr>bd_BookKey = key, bd_LocalSeq = LocalSeq (be_eng be), bd_Orders = ExportRestingOrders be\<rparr>) (sv_books s)\<rparr>"

text \<open>One goroutine of the supervisor runs one iteration of its loop and sends the results.\<close>

definition runBook ::
    "(u64 \<Rightarrow> i64) \<Rightarrow> (MatchCommand \<Rightarrow> i64) \<Rightarrow> u64 option \<Rightarrow> i64 \<Rightarrow> string \<Rightarrow> BookSupervisor \<Rightarrow>
     (MatchResult list \<times> BookSupervisor) option" where
  "runBook clk cnow epoch nowMillis bookKey s =
     (let (be, s1) = sv_getOrCreate bookKey s
      in case runOnce clk cnow epoch nowMillis be of
           None \<Rightarrow> None
         | Some (out, be1) \<Rightarrow> Some (out, putBook bookKey be1 s1))"

section \<open>Routing of results (dispatcher.go) and the expiry sweep (order\_expiry.go)\<close>

abbreviation dispatchWorkers :: int where "dispatchWorkers \<equiv> 4"

definition fnvHash :: "string \<Rightarrow> i64" where
  "fnvHash s = uint (fold (\<lambda>c h. (h XOR of_nat (of_char c)) * 16777619) s (2166136261 :: 32 word) AND 0x7fffffff)"

definition workerOf :: "MatchResult \<Rightarrow> i64" where
  "workerOf mr = fnvHash (mc_BookKey (mr_Command mr)) smod dispatchWorkers"

record ExpiredRestingOrder =
  ex_Command :: OrderCommand
  ex_Order :: "Order option"

definition expiryCommand :: "OrderCommand \<Rightarrow> Order \<Rightarrow> MatchCommand" where
  "expiryCommand command order =
     zeroCommand\<lparr>mc_Action := ActionCancel, mc_OrderID := o_OrderID order, mc_MarketID := o_MarketID order, mc_Outcome := o_Outcome order,
       mc_BookKey := BuildBookKey (o_MarketID order) (o_Outcome order), mc_Side := SideFlagFrom (o_Side order), mc_Price := o_Price order,
       mc_CommandID := oc_CommandID command, mc_TraceID := ''market_close_sweep'', mc_CollateralAsset := oc_CollateralAsset command,
       mc_FreezeID := oc_FreezeID command, mc_FreezeAsset := oc_FreezeAsset command, mc_FreezeAmount := oc_FreezeAmount command,
       mc_CancelReason := 1\<rparr>"

fun sweepItems :: "ExpiredRestingOrder list \<Rightarrow> BookSupervisor \<Rightarrow> nat \<times> BookSupervisor" where
  "sweepItems [] s = (0, s)"
| "sweepItems (item # items) s =
     (case ex_Order item of
        None \<Rightarrow> sweepItems items s
      | Some order \<Rightarrow>
          let (ok, s1) = SubmitCancel (expiryCommand (ex_Command item) order) s; (n, s2) = sweepItems items s1
          in (if ok then Suc n else n, s2))"

definition sweepOnce :: "(string + ExpiredRestingOrder list) \<Rightarrow> BookSupervisor \<Rightarrow> string option \<times> BookSupervisor" where
  "sweepOnce loaded s = (case loaded of Inl err \<Rightarrow> (Some err, s) | Inr items \<Rightarrow> (None, snd (sweepItems items s)))"

section \<open>Properties\<close>

text \<open>
  A command survives the compact protocol exactly when it is canonical: converting an order command
  to the ring buffer's format and back gives the same command if and only if its book key is set and
  its side, type, time in force and self-trade strategy are values the protocol knows.
\<close>

lemma command_roundtrip:
  "ToKafkaCommand (CommandFromKafka c) = c \<longleftrightarrow>
    oc_BookKey c \<noteq> '''' \<and> oc_Side c \<in> {OrderSideBuy, OrderSideSell} \<and> oc_Type c \<in> {OrderTypeLimit, OrderTypeMarket} \<and>
    oc_TimeInForce c \<in> {TimeInForceGTC, TimeInForceIOC, TimeInForceFOK, TimeInForcePostOnly} \<and>
    oc_STPStrategy c \<in> {STPNone, STPCancelTaker, STPCancelMaker, STPCancelBoth}"
proof -
  have "SideFlag_ToModel (SideFlagFrom x) = x \<longleftrightarrow> x \<in> {OrderSideBuy, OrderSideSell}" for x
    by (auto simp: SideFlag_ToModel_def SideFlagFrom_def)
  moreover have "TypeFlag_ToModel (TypeFlagFrom x) = x \<longleftrightarrow> x \<in> {OrderTypeLimit, OrderTypeMarket}" for x
    by (auto simp: TypeFlag_ToModel_def TypeFlagFrom_def)
  moreover have "TIFFlag_ToModel (TIFFlagFrom x) = x \<longleftrightarrow>
      x \<in> {TimeInForceGTC, TimeInForceIOC, TimeInForceFOK, TimeInForcePostOnly}" for x
    by (auto simp: TIFFlag_ToModel_def TIFFlagFrom_def)
  moreover have "STPFlag_ToModel (STPFlagFrom x) = x \<longleftrightarrow> x \<in> {STPNone, STPCancelTaker, STPCancelMaker, STPCancelBoth}" for x
    by (auto simp: STPFlag_ToModel_def STPFlagFrom_def)
  moreover have "BuildBookKey mid out \<noteq> ''''" for mid out by (simp add: BuildBookKey_def)
  ultimately show ?thesis
    by (cases c) (auto simp: ToKafkaCommand_def CommandFromKafka_def Let_def)
qed

text \<open>A command is handled, whatever the engine holds, and answered once when it places an order.\<close>

abbreviation placements :: "MatchCommand list \<Rightarrow> MatchCommand list" where
  "placements cs \<equiv> filter (\<lambda>c. mc_Action c = ActionPlace) cs"

lemma fresh_ToOrder: "mc_Quantity c \<le> MaxInt64 \<Longrightarrow> fresh (mc_ToOrder now c)"
  by (simp add: fresh_def mc_ToOrder_def)

lemma handleCommand_returns:
  assumes "reachable (be_eng be)" and "mc_Quantity cmd \<le> MaxInt64"
  shows "\<exists>out be'. handleCommand clk cnow epoch now cmd be = Some (out, be') \<and> reachable (be_eng be') \<and>
    be_inputRB be' = be_inputRB be \<and> placements (map mr_Command out) = placements [cmd]"
proof -
  obtain r err e' where p: "PlaceOrder clk (Some (mc_ToOrder now cmd)) (be_eng be) = Some (r, err, e')"
    using place_step [OF reachable_inv [OF assms(1)] fresh_ToOrder [OF assms(2)]] by blast
  have rp: "reachable e'" using r_place [OF assms(1) fresh_ToOrder [OF assms(2)] p] .
  obtain cr cerr e2 where c: "CancelOrders (cnow cmd) [Some (cancelTarget cmd)]
      (CancelReasonFlag_ToModel (mc_CancelReason cmd)) (be_eng be) = Some (cr, cerr, e2)"
    using cancel_step [OF reachable_inv [OF assms(1)]] by blast
  have rc: "reachable e2" using r_cancel [OF assms(1) c] .
  show ?thesis
    using p rp c rc assms(1) by (auto simp: handleCommand_def handlePlace_def handleCancel_def Let_def filter_empty_conv)
qed

lemma handleBatch_returns:
  assumes "reachable (be_eng be)" and "\<forall>c\<in>set cmds. mc_Quantity c \<le> MaxInt64"
  shows "\<exists>out be'. handleBatch clk cnow epoch now cmds be = Some (out, be') \<and> reachable (be_eng be') \<and>
    be_inputRB be' = be_inputRB be \<and> placements (map mr_Command out) = placements cmds"
  using assms
proof (induction cmds arbitrary: be)
  case (Cons cmd cmds)
  obtain out be1 where o1: "handleCommand clk cnow epoch now cmd be = Some (out, be1)" "reachable (be_eng be1)"
    "be_inputRB be1 = be_inputRB be" "placements (map mr_Command out) = placements [cmd]"
    using handleCommand_returns [OF Cons(2), of cmd clk cnow epoch now] Cons(3) by auto
  obtain out' be2 where "handleBatch clk cnow epoch now cmds be1 = Some (out', be2)" "reachable (be_eng be2)"
    "be_inputRB be2 = be_inputRB be1" "placements (map mr_Command out') = placements cmds"
    using Cons.IH [OF o1(2)] Cons(3) by auto
  then show ?case using o1 by auto
qed simp

lemma rb_len_zero [simp]: "rb_len rb = 0 \<longleftrightarrow> rb_queue rb = []"
  by (simp add: rb_queue_def)

lemma runOnce_batch:
  assumes "rb_ok (be_inputRB be)"
  shows "runOnce clk cnow epoch now be =
    (let (batch, rb) = drain_batch zeroCommand matchDrainBatch (be_inputRB be)
     in if rb_queue (be_inputRB be) = [] then Some ([], be)
        else handleBatch clk cnow epoch now batch (be\<lparr>be_inputRB := rb, be_batches := be_batches be + 1\<rparr>))"
proof -
  obtain n buf rb where d: "DrainTo (replicate matchDrainBatch zeroCommand) (int matchDrainBatch) (be_inputRB be) = (n, buf, rb)"
    by (metis prod_cases3)
  have z: "n = 0 \<longleftrightarrow> rb_queue (be_inputRB be) = []"
    using d avail_len [OF assms] rb_len_zero [of "be_inputRB be"]
    by (auto simp: DrainTo_def Let_def simp del: rb_len_zero split: if_splits)
  have "n = 0 \<Longrightarrow> rb = be_inputRB be" using d by (auto simp: DrainTo_def Let_def split: if_splits)
  then show ?thesis using d z by (auto simp: runOnce_def drain_batch_def Let_def)
qed

lemma be_Run_delivers:
  assumes "reachable (be_eng be)" and "rb_ok (be_inputRB be)" and "\<forall>c\<in>set (rb_queue (be_inputRB be)). mc_Quantity c \<le> MaxInt64"
    and "length (rb_queue (be_inputRB be)) \<le> length nows * matchDrainBatch"
  shows "\<exists>out be'. be_Run clk cnow epoch nows be = Some (out, be') \<and> reachable (be_eng be') \<and>
    rb_queue (be_inputRB be') = [] \<and> placements (map mr_Command out) = placements (rb_queue (be_inputRB be))"
  using assms
proof (induction nows arbitrary: be)
  case (Cons now nows)
  let ?q = "rb_queue (be_inputRB be)"
  obtain rb where rb: "drain_batch zeroCommand matchDrainBatch (be_inputRB be) = (take matchDrainBatch ?q, rb)" "rb_ok rb"
    "rb_queue rb = drop matchDrainBatch ?q" "length (rb_queue rb) \<le> length nows * matchDrainBatch"
    using ring.drain_progress [OF Cons(3), of "length nows" matchDrainBatch zeroCommand] Cons(5) by auto
  obtain out be1 where o1: "runOnce clk cnow epoch now be = Some (out, be1)" "reachable (be_eng be1)" "rb_ok (be_inputRB be1)"
    "rb_queue (be_inputRB be1) = drop matchDrainBatch ?q" "placements (map mr_Command out) = placements (take matchDrainBatch ?q)"
  proof (cases "?q = []")
    case True
    then show ?thesis using that [of "[]" be] rb Cons(2,3) by (simp add: runOnce_batch [OF Cons(3)])
  next
    case False
    let ?be = "be\<lparr>be_inputRB := rb, be_batches := be_batches be + 1\<rparr>"
    have "\<forall>c\<in>set (take matchDrainBatch ?q). mc_Quantity c \<le> MaxInt64" using Cons(4) by (auto dest: in_set_takeD)
    then obtain out be1 where "handleBatch clk cnow epoch now (take matchDrainBatch ?q) ?be = Some (out, be1)"
      "reachable (be_eng be1)" "be_inputRB be1 = rb" "placements (map mr_Command out) = placements (take matchDrainBatch ?q)"
      using handleBatch_returns [of ?be "take matchDrainBatch ?q" clk cnow epoch now] Cons(2) by auto
    then show ?thesis using that [of out be1] rb False by (simp add: runOnce_batch [OF Cons(3)])
  qed
  have "\<forall>c\<in>set (rb_queue (be_inputRB be1)). mc_Quantity c \<le> MaxInt64" using Cons(4) o1(4) by (auto dest: in_set_dropD)
  then obtain out' be2 where o2: "be_Run clk cnow epoch nows be1 = Some (out', be2)" "reachable (be_eng be2)"
    "rb_queue (be_inputRB be2) = []" "placements (map mr_Command out') = placements (rb_queue (be_inputRB be1))"
    using Cons.IH [OF o1(2,3)] o1(4) rb(3,4) by auto
  have "placements (take matchDrainBatch ?q) @ placements (drop matchDrainBatch ?q) = placements ?q"
    by (metis append_take_drop_id filter_append)
  then show ?case using o1 o2 by auto
qed simp


definition ex_commands :: "MatchCommand list" where
  "ex_commands =
     [zeroCommand\<lparr>mc_OrderID := ''a1'', mc_UserID := 1, mc_MarketID := 7, mc_Outcome := ''YES'', mc_BookKey := ''7:YES'', mc_Side := 1, mc_Price := 40, mc_Quantity := 10\<rparr>,
      zeroCommand\<lparr>mc_OrderID := ''b1'', mc_UserID := 2, mc_MarketID := 7, mc_Outcome := ''YES'', mc_BookKey := ''7:YES'', mc_Price := 45, mc_Quantity := 4\<rparr>]"

definition ex_queued :: BookEngine where
  "ex_queued = fold (\<lambda>c be. snd (be_TryPublish c be)) ex_commands (NewBookEngine ''7:YES'' 0)"

lemma be_TryPublish_queue:
  assumes "rb_ok (be_inputRB be)" and "length (rb_queue (be_inputRB be)) < length (rb_slots (be_inputRB be))"
  shows "rb_ok (be_inputRB (snd (be_TryPublish c be))) \<and>
    rb_queue (be_inputRB (snd (be_TryPublish c be))) = rb_queue (be_inputRB be) @ [c] \<and>
    length (rb_slots (be_inputRB (snd (be_TryPublish c be)))) = length (rb_slots (be_inputRB be)) \<and>
    be_eng (snd (be_TryPublish c be)) = be_eng be"
  using ring.publish_room [OF assms, of c] by (auto simp: be_TryPublish_def)

lemma ex_queued_facts: "rb_ok (be_inputRB ex_queued)" "rb_queue (be_inputRB ex_queued) = ex_commands" "be_eng ex_queued = New"
proof -
  let ?be = "NewBookEngine ''7:YES'' 0"
  obtain k where k: "length (rb_slots (rb_New zeroCommand bookRBSize)) = 2 ^ k" "16 \<le> (2 :: int) ^ k"
    using rb_New_ok [of bookRBSize zeroCommand] by auto
  have "int 16 \<le> int (2 ^ k)" using k(2) by simp
  then have "16 \<le> (2 :: nat) ^ k" by (simp only: of_nat_le_iff)
  then have n: "rb_ok (be_inputRB ?be)" "rb_queue (be_inputRB ?be) = []" "16 \<le> length (rb_slots (be_inputRB ?be))" "be_eng ?be = New"
    using rb_New_ok [of bookRBSize zeroCommand] k(1) by (simp_all add: NewBookEngine_def New_def)
  obtain c1 c2 where c: "ex_commands = [c1, c2]" by (simp add: ex_commands_def)
  define be1 where "be1 = snd (be_TryPublish c1 ?be)"
  define be2 where "be2 = snd (be_TryPublish c2 be1)"
  have b1: "rb_ok (be_inputRB be1)" "rb_queue (be_inputRB be1) = [c1]" "16 \<le> length (rb_slots (be_inputRB be1))" "be_eng be1 = New"
    using be_TryPublish_queue [OF n(1) less_le_trans [OF _ n(3)], of c1] n unfolding be1_def [symmetric] by simp_all
  have b2: "rb_ok (be_inputRB be2)" "rb_queue (be_inputRB be2) = [c1, c2]" "be_eng be2 = New"
    using be_TryPublish_queue [OF b1(1) less_le_trans [OF _ b1(3)], of c2] b1 unfolding be2_def [symmetric] by simp_all
  have "ex_queued = be2" unfolding ex_queued_def c be2_def be1_def by (simp only: fold_simps id_apply comp_apply)
  then show "rb_ok (be_inputRB ex_queued)" "rb_queue (be_inputRB ex_queued) = ex_commands" "be_eng ex_queued = New"
    using b2 c by simp_all
qed


end
