(* ===== verification/Match_Legacy.thy ===== *)
theory Match_Legacy
  imports Match_Props
begin

text \<open>
  The reference order book of \<open>matching/model/order_book.go\<close> and \<open>depth_level.go\<close>, sorted slices of
  price levels, and the contract of the interface \<open>Book\<close> of \<open>book_interface.go\<close>. Both the reference
  book and the optimised \<open>OrderBookDirect\<close> keep the contract, so they agree on every sequence of
  operations.
\<close>

section \<open>The book of sorted slices (order\_book.go, depth\_level.go, snapshot.go)\<close>

record DepthLevel =
  dl_Price :: i64
  dl_Orders :: "Order list"

record OrderBook =
  lb_Key :: string
  lb_Bids :: "DepthLevel list"
  lb_Asks :: "DepthLevel list"
  lb_OrderMap :: "(string \<times> Order) list"

definition dl_Append :: "Order \<Rightarrow> DepthLevel \<Rightarrow> DepthLevel" where
  "dl_Append order l = l\<lparr>dl_Orders := dl_Orders l @ [order]\<rparr>"

definition dl_IsEmpty :: "DepthLevel \<Rightarrow> bool" where
  "dl_IsEmpty l \<longleftrightarrow> length (dl_Orders l) = 0"

definition dl_TotalQuantity :: "DepthLevel \<Rightarrow> i64" where
  "dl_TotalQuantity l = fold (\<lambda>order total. wrap64 (total + RemainingQuantity order)) (dl_Orders l) 0"

definition NewOrderBook :: "string \<Rightarrow> OrderBook" where
  "NewOrderBook key = \<lparr>lb_Key = key, lb_Bids = [], lb_Asks = [], lb_OrderMap = []\<rparr>"

definition lb_HasOrder :: "OrderBook \<Rightarrow> string \<Rightarrow> bool" where
  "lb_HasOrder b orderID \<longleftrightarrow> map_of (lb_OrderMap b) orderID \<noteq> None"

text \<open>The slice of a side, \<open>True\<close> for the bids.\<close>

definition bookFor :: "bool \<Rightarrow> OrderBook \<Rightarrow> DepthLevel list" where
  "bookFor isBuy b = (if isBuy then lb_Bids b else lb_Asks b)"

definition setBookFor :: "bool \<Rightarrow> DepthLevel list \<Rightarrow> OrderBook \<Rightarrow> OrderBook" where
  "setBookFor isBuy levels b = (if isBuy then b\<lparr>lb_Bids := levels\<rparr> else b\<lparr>lb_Asks := levels\<rparr>)"

fun levelIndex :: "i64 \<Rightarrow> nat \<Rightarrow> DepthLevel list \<Rightarrow> nat option" where
  "levelIndex price i [] = None"
| "levelIndex price i (l # ls) = (if dl_Price l = price then Some i else levelIndex price (Suc i) ls)"

definition findLevelIndex :: "i64 \<Rightarrow> bool \<Rightarrow> OrderBook \<Rightarrow> nat option" where
  "findLevelIndex price isBuy b = levelIndex price 0 (bookFor isBuy b)"

text \<open>\<open>sort.Search\<close>: the binary search on the indices from \<open>i\<close> to \<open>j\<close>.\<close>

function sortSearch :: "(nat \<Rightarrow> bool) \<Rightarrow> nat \<Rightarrow> nat \<Rightarrow> nat" where
  "sortSearch f i j =
     (if i < j then
        let h = (i + j) div 2
        in if \<not> f h then sortSearch f (h + 1) j else sortSearch f i h
      else i)"
  by auto
termination
  by (relation "measure (\<lambda>(f, i, j). j - i)") auto

definition findOrInsertLevel :: "i64 \<Rightarrow> bool \<Rightarrow> OrderBook \<Rightarrow> nat \<times> OrderBook" where
  "findOrInsertLevel price isBuy b =
     (case findLevelIndex price isBuy b of
        Some idx \<Rightarrow> (idx, b)
      | None \<Rightarrow>
          let book = bookFor isBuy b;
              insertAt = sortSearch (\<lambda>i. if isBuy then dl_Price (book ! i) \<le> price else price \<le> dl_Price (book ! i)) 0 (length book);
              level = \<lparr>dl_Price = price, dl_Orders = []\<rparr>
          in (insertAt, setBookFor isBuy (take insertAt book @ level # drop insertAt book) b))"

definition lb_AddOrder :: "Order \<Rightarrow> OrderBook \<Rightarrow> OrderBook option" where
  "lb_AddOrder order b =
     (let (idx, b1) = findOrInsertLevel (o_Price order) (IsBuy order) b;
          book = bookFor (IsBuy order) b1;
          b2 = setBookFor (IsBuy order) (book[idx := dl_Append order (book ! idx)]) b1
      in if idx < length book then Some (b2\<lparr>lb_OrderMap := AList.update (o_OrderID order) order (lb_OrderMap b2)\<rparr>) else None)"

fun removeFromLevels :: "Order \<Rightarrow> DepthLevel list \<Rightarrow> DepthLevel list" where
  "removeFromLevels order [] = []"
| "removeFromLevels order (level # levels) =
     (if dl_Price level \<noteq> o_Price order then level # removeFromLevels order levels
      else let level1 = level\<lparr>dl_Orders := filter (\<lambda>candidate. o_OrderID candidate \<noteq> o_OrderID order) (dl_Orders level)\<rparr>
           in if dl_IsEmpty level1 then levels else level1 # levels)"

definition lb_RemoveOrder :: "Order \<Rightarrow> OrderBook \<Rightarrow> OrderBook option" where
  "lb_RemoveOrder order b =
     (let b1 = setBookFor (IsBuy order) (removeFromLevels order (bookFor (IsBuy order) b)) b
      in Some (b1\<lparr>lb_OrderMap := AList.delete (o_OrderID order) (lb_OrderMap b1)\<rparr>))"

definition lb_RemoveFromMap :: "string \<Rightarrow> OrderBook \<Rightarrow> OrderBook" where
  "lb_RemoveFromMap orderID b = b\<lparr>lb_OrderMap := AList.delete orderID (lb_OrderMap b)\<rparr>"

definition lb_BestBidPrice :: "OrderBook \<Rightarrow> i64 \<times> bool" where
  "lb_BestBidPrice b = (case lb_Bids b of [] \<Rightarrow> (0, False) | l # _ \<Rightarrow> (dl_Price l, True))"

definition lb_BestAskPrice :: "OrderBook \<Rightarrow> i64 \<times> bool" where
  "lb_BestAskPrice b = (case lb_Asks b of [] \<Rightarrow> (0, False) | l # _ \<Rightarrow> (dl_Price l, True))"

definition lb_IsCross :: "Order \<Rightarrow> OrderBook \<Rightarrow> bool" where
  "lb_IsCross order b =
     (if IsBuy order then let (bestAsk, ok) = lb_BestAskPrice b in ok \<and> bestAsk \<le> o_Price order
      else let (bestBid, ok) = lb_BestBidPrice b in ok \<and> o_Price order \<le> bestBid)"

definition lb_IsCrossWithPrice :: "Order \<Rightarrow> i64 \<Rightarrow> bool" where
  "lb_IsCrossWithPrice order price = (if IsBuy order then price \<le> o_Price order else o_Price order \<le> price)"

definition OppositeLevels :: "Order \<Rightarrow> OrderBook \<Rightarrow> DepthLevel list" where
  "OppositeLevels order b = (if IsBuy order then lb_Asks b else lb_Bids b)"

definition SetOppositeLevels :: "Order \<Rightarrow> DepthLevel list \<Rightarrow> OrderBook \<Rightarrow> OrderBook" where
  "SetOppositeLevels order levels b = (if IsBuy order then b\<lparr>lb_Asks := levels\<rparr> else b\<lparr>lb_Bids := levels\<rparr>)"

definition lb_OrderCount :: "OrderBook \<Rightarrow> nat" where
  "lb_OrderCount b = length (lb_OrderMap b)"

definition aggregateLevels :: "DepthLevel list \<Rightarrow> int \<Rightarrow> BookLevel list" where
  "aggregateLevels levels limit =
     (let n = (if int (length levels) < limit then length levels else nat limit)
      in map (\<lambda>l. \<lparr>l_Price = dl_Price l, l_Quantity = dl_TotalQuantity l\<rparr>)
           (filter (\<lambda>l. 0 < dl_TotalQuantity l) (take n levels)))"

definition lb_Snapshot :: "int \<Rightarrow> OrderBook \<Rightarrow> BookSnapshot" where
  "lb_Snapshot limit0 b =
     (let limit = (if limit0 \<le> 0 then 5 else limit0);
          (marketID, outcome) = (case parseBookKey (lb_Key b) of Some (m, x) \<Rightarrow> (m, x) | None \<Rightarrow> (0, ''''))
      in \<lparr>s_Key = lb_Key b, s_MarketID = marketID, s_Outcome = outcome, s_Bids = aggregateLevels (lb_Bids b) limit,
          s_Asks = aggregateLevels (lb_Asks b) limit, s_BestBid = fst (lb_BestBidPrice b), s_BestAsk = fst (lb_BestAskPrice b)\<rparr>)"

section \<open>The contract of the interface Book\<close>

datatype book_op = AddOp Order | RemoveOp Order

fun runOps :: "(Order \<Rightarrow> 'b \<Rightarrow> 'b option) \<Rightarrow> (Order \<Rightarrow> 'b \<Rightarrow> 'b option) \<Rightarrow> book_op list \<Rightarrow> 'b \<Rightarrow> 'b option" where
  "runOps add remove [] b = Some b"
| "runOps add remove (AddOp o' # ops) b = (case add o' b of None \<Rightarrow> None | Some b1 \<Rightarrow> runOps add remove ops b1)"
| "runOps add remove (RemoveOp o' # ops) b = (case remove o' b of None \<Rightarrow> None | Some b1 \<Rightarrow> runOps add remove ops b1)"

text \<open>The effect on the priority lists, and the sequences a book is used with: identifiers are not added twice, and a removal names a resting order with its side and price.\<close>

definition rests :: "Order \<Rightarrow> ptbook \<Rightarrow> bool" where
  "rests o' A \<longleftrightarrow> (\<exists>d\<in>set (A (IsBuy o')). d_OrderID d = o_OrderID o' \<and> d_Price d = o_Price o')"

fun pt_run :: "book_op list \<Rightarrow> ptbook \<Rightarrow> ptbook" where
  "pt_run [] A = A"
| "pt_run (AddOp o' # ops) A = pt_run ops (pt_add o' A)"
| "pt_run (RemoveOp o' # ops) A = pt_run ops (pt_remove (o_OrderID o') A)"

fun sound_ops :: "book_op list \<Rightarrow> ptbook \<Rightarrow> bool" where
  "sound_ops [] A = True"
| "sound_ops (AddOp o' # ops) A \<longleftrightarrow>
     1 \<le> o_Price o' \<and> o_Price o' < maxPrice \<and> o_OrderID o' \<notin> pt_ids A \<and> sound_ops ops (pt_add o' A)"
| "sound_ops (RemoveOp o' # ops) A \<longleftrightarrow> rests o' A \<and> sound_ops ops (pt_remove (o_OrderID o') A)"

definition front_price :: "DirectOrder list \<Rightarrow> i64 \<times> bool" where
  "front_price ds = (case ds of [] \<Rightarrow> (0, False) | d # _ \<Rightarrow> (d_Price d, True))"

locale price_time_book =
  fixes rep :: "'b \<Rightarrow> ptbook \<Rightarrow> bool"
    and has :: "'b \<Rightarrow> string \<Rightarrow> bool"
    and add :: "Order \<Rightarrow> 'b \<Rightarrow> 'b option"
    and remove :: "Order \<Rightarrow> 'b \<Rightarrow> 'b option"
    and best :: "bool \<Rightarrow> 'b \<Rightarrow> i64 \<times> bool"
    and cross :: "Order \<Rightarrow> 'b \<Rightarrow> bool"
  assumes has_rep: "rep b A \<Longrightarrow> has b i \<longleftrightarrow> i \<in> pt_ids A"
    and add_rep: "rep b A \<Longrightarrow> 1 \<le> o_Price o' \<Longrightarrow> o_Price o' < maxPrice \<Longrightarrow> o_OrderID o' \<notin> pt_ids A \<Longrightarrow>
      \<exists>b'. add o' b = Some b' \<and> rep b' (pt_add o' A)"
    and remove_rep: "rep b A \<Longrightarrow> rests o' A \<Longrightarrow> \<exists>b'. remove o' b = Some b' \<and> rep b' (pt_remove (o_OrderID o') A)"
    and best_rep: "rep b A \<Longrightarrow> best s b = front_price (A s)"
    and cross_best: "rep b A \<Longrightarrow> cross o' b \<longleftrightarrow>
      (case best (\<not> IsBuy o') b of (p, ok) \<Rightarrow> ok \<and> (if IsBuy o' then p \<le> o_Price o' else o_Price o' \<le> p))"
begin

lemma run_rep:
  "rep b A \<Longrightarrow> sound_ops ops A \<Longrightarrow> \<exists>b'. runOps add remove ops b = Some b' \<and> rep b' (pt_run ops A)"
proof (induction ops A arbitrary: b rule: pt_run.induct)
  case (2 o' ops A)
  then obtain b1 where "add o' b = Some b1" "rep b1 (pt_add o' A)" using add_rep [OF 2(2), of o'] by auto
  then show ?case using 2 by auto
next
  case (3 o' ops A)
  then obtain b1 where "remove o' b = Some b1" "rep b1 (pt_remove (o_OrderID o') A)" using remove_rep [OF 3(2), of o'] by auto
  then show ?case using 3 by auto
qed simp

lemma cross_front:
  "rep b A \<Longrightarrow> cross o' b \<longleftrightarrow>
    (case front_price (A (\<not> IsBuy o')) of (p, ok) \<Rightarrow> ok \<and> (if IsBuy o' then p \<le> o_Price o' else o_Price o' \<le> p))"
  by (simp add: cross_best best_rep)

end

section \<open>The optimised book keeps the contract\<close>

declare sortSearch.simps [simp del]

definition direct_best :: "bool \<Rightarrow> OrderBookDirect \<Rightarrow> i64 \<times> bool" where
  "direct_best s ob = (if s then BestBidPrice ob else BestAskPrice ob)"

lemma removeFromSide_data: "removeFromSide a ob = Some ob1 \<Longrightarrow> ob_data ob1 a = ob_data ob a"
  using Remove_data [of a "bidBuckets ob (d_Price (ob_data ob a))" "ob_mem ob"]
    Remove_data [of a "askBuckets ob (d_Price (ob_data ob a))" "ob_mem ob"]
  by (auto simp: removeFromSide_def Let_def split: if_splits prod.splits)

lemma RemoveOrder_direct:
  assumes "book_abs ob A" and "GetDirectOrder ob (o_OrderID o') = Some a"
  shows "RemoveOrder o' ob = RemoveDirectOrder a ob"
proof -
  have "d_OrderID (ob_data ob a) = o_OrderID o'" using book_abs_index(2) [OF assms] by blast
  then show ?thesis
    using assms(2) removeFromSide_data [of a ob]
    by (auto simp: RemoveOrder_def RemoveDirectOrder_def GetDirectOrder_def split: option.splits)
qed

lemma find_concat:
  "(case find (\<lambda>p. f p \<noteq> []) ps of
      None \<Rightarrow> concat (map f ps) = []
    | Some p \<Rightarrow> p \<in> set ps \<and> f p \<noteq> [] \<and> (\<exists>zs. concat (map f ps) = f p @ zs))"
  by (induction ps) (auto split: option.splits)

lemma direct_best_front:
  assumes "book_abs ob A"
  shows "direct_best s ob = front_price (A s)"
proof -
  obtain L where rep: "book_rep L ob" and A: "A = (\<lambda>s. map (ob_data ob) (addrs L s))"
    using assms by (auto simp: book_abs_def)
  have f: "First s ob = find (\<lambda>p. L s p \<noteq> []) (prices s)" by (rule First_find [OF rep])
  show ?thesis
  proof (cases "First s ob")
    case None
    then have "A s = []" using find_concat [of "L s" "prices s"] f by (simp add: A addrs_def)
    then show ?thesis using None
      by (auto simp: front_price_def direct_best_def First_def FirstBidBucket_def FirstAskBucket_def BestBidPrice_def
          BestAskPrice_def split: if_splits)
  next
    case (Some p)
    then obtain zs where z: "L s p \<noteq> []" "addrs L s = L s p @ zs"
      using find_concat [of "L s" "prices s"] f by (auto simp: addrs_def)
    then have "d_Price (ob_data ob (hd (L s p))) = p"
      using side_repD(5) [OF book_repD(1) [OF rep, of s]] by auto
    then have "front_price (A s) = (p, True)" using z by (cases "L s p") (auto simp: front_price_def A)
    then show ?thesis using Some
      by (auto simp: direct_best_def First_def FirstBidBucket_def FirstAskBucket_def BestBidPrice_def
          BestAskPrice_def split: if_splits)
  qed
qed

interpretation direct_book: price_time_book book_abs HasOrder AddOrder RemoveOrder direct_best IsCross
proof unfold_locales
  fix b A i o' s
  assume rep: "book_abs b A"
  show "HasOrder b i \<longleftrightarrow> i \<in> pt_ids A" using book_abs_index(1) [OF rep] .
  show "\<exists>b'. AddOrder o' b = Some b' \<and> book_abs b' (pt_add o' A)"
    if "1 \<le> o_Price o'" "o_Price o' < maxPrice" "o_OrderID o' \<notin> pt_ids A"
    using AddOrder_abs [OF rep that(1,2)] that(3) book_abs_index(1) [OF rep] by metis
  show "\<exists>b'. RemoveOrder o' b = Some b' \<and> book_abs b' (pt_remove (o_OrderID o') A)" if r: "rests o' A"
  proof -
    have "o_OrderID o' \<in> pt_ids A" using r by (cases "IsBuy o'") (auto simp: rests_def pt_ids_def intro: rev_image_eqI)
    then obtain a where a: "GetDirectOrder b (o_OrderID o') = Some a" using book_abs_index(3) [OF rep] by auto
    show ?thesis using RemoveDirectOrder_abs [OF rep a] RemoveOrder_direct [OF rep a] by metis
  qed
  show "direct_best s b = front_price (A s)" by (rule direct_best_front [OF rep])
  show "IsCross o' b \<longleftrightarrow>
      (case direct_best (\<not> IsBuy o') b of (p, ok) \<Rightarrow> ok \<and> (if IsBuy o' then p \<le> o_Price o' else o_Price o' \<le> p))"
    by (simp add: IsCross_def direct_best_def BestBidPrice_def BestAskPrice_def)
qed

section \<open>The reference book keeps the contract\<close>

definition levels_ok :: "bool \<Rightarrow> DepthLevel list \<Rightarrow> bool" where
  "levels_ok s ls \<longleftrightarrow> sorted_wrt (\<lambda>x y. better s (dl_Price x) (dl_Price y)) ls \<and>
     (\<forall>l\<in>set ls. dl_Orders l \<noteq> [] \<and> (\<forall>o'\<in>set (dl_Orders l). o_Price o' = dl_Price l))"

definition level_orders :: "DepthLevel list \<Rightarrow> DirectOrder list" where
  "level_orders ls = map FromOrder (concat (map dl_Orders ls))"

definition legacy_abs :: "OrderBook \<Rightarrow> ptbook \<Rightarrow> bool" where
  "legacy_abs b A \<longleftrightarrow> (\<forall>s. levels_ok s (bookFor s b)) \<and> A = (\<lambda>s. level_orders (bookFor s b)) \<and>
     (\<forall>i. lb_HasOrder b i \<longleftrightarrow> i \<in> pt_ids A) \<and> distinct (map d_OrderID (A True @ A False))"

definition legacy_best :: "bool \<Rightarrow> OrderBook \<Rightarrow> i64 \<times> bool" where
  "legacy_best s b = (if s then lb_BestBidPrice b else lb_BestAskPrice b)"

lemma better_facts: "\<not> better s p p" "better s p q \<Longrightarrow> better s q r \<Longrightarrow> better s p r" "p \<noteq> q \<Longrightarrow> \<not> better s p q \<Longrightarrow> better s q p"
  by (auto simp: better_def split: if_splits)

lemma level_orders_simps [simp]: "level_orders [] = []" "level_orders (l # ls) = map FromOrder (dl_Orders l) @ level_orders ls"
  "level_orders (xs @ ys) = level_orders xs @ level_orders ys"
  by (simp_all add: level_orders_def)

lemmas FromOrder_key [simp] = FromOrder_fields(1,6)

lemma levels_ok_append:
  "levels_ok s (xs @ ys) \<longleftrightarrow> levels_ok s xs \<and> levels_ok s ys \<and> (\<forall>x\<in>set xs. \<forall>y\<in>set ys. better s (dl_Price x) (dl_Price y))"
  by (auto simp: levels_ok_def sorted_wrt_append)

lemma levels_ok_Cons:
  "levels_ok s (l # ls) \<longleftrightarrow> levels_ok s ls \<and> (\<forall>y\<in>set ls. better s (dl_Price l) (dl_Price y)) \<and>
     dl_Orders l \<noteq> [] \<and> (\<forall>o'\<in>set (dl_Orders l). o_Price o' = dl_Price l)"
  by (auto simp: levels_ok_def)

lemma in_level_orders: "d \<in> set (level_orders ls) \<Longrightarrow> levels_ok s ls \<Longrightarrow> \<exists>l\<in>set ls. d_Price d = dl_Price l"
  by (fastforce simp: level_orders_def levels_ok_def)

lemma levelIndex_Some:
  "levelIndex p i ls = Some k \<Longrightarrow> \<exists>xs l ys. ls = xs @ l # ys \<and> k = i + length xs \<and> dl_Price l = p"
proof (induction ls arbitrary: i)
  case (Cons l ls)
  show ?case
  proof (cases "dl_Price l = p")
    case True
    then show ?thesis using Cons(2) by (intro exI [of _ "[]"]) auto
  next
    case False
    then obtain xs l' ys where "ls = xs @ l' # ys" "k = Suc i + length xs" "dl_Price l' = p" using Cons by force
    then show ?thesis by (intro exI [of _ "l # xs"]) auto
  qed
qed simp

lemma levelIndex_None: "levelIndex p i ls = None \<Longrightarrow> l \<in> set ls \<Longrightarrow> dl_Price l \<noteq> p"
  by (induction ls arbitrary: i) (auto split: if_splits)

lemma sortSearch_spec:
  assumes "i \<le> j" and "\<And>a b. i \<le> a \<Longrightarrow> a \<le> b \<Longrightarrow> b < j \<Longrightarrow> f a \<Longrightarrow> f b"
  shows "sortSearch f i j \<le> j \<and> (\<forall>k. i \<le> k \<and> k < sortSearch f i j \<longrightarrow> \<not> f k) \<and> (\<forall>k. sortSearch f i j \<le> k \<and> k < j \<longrightarrow> f k)"
  using assms
proof (induction f i j rule: sortSearch.induct)
  case (1 f i j)
  show ?case
  proof (cases "i < j")
    case False
    then have "sortSearch f i j = i" by (subst sortSearch.simps) simp
    then show ?thesis using False 1(3) by auto
  next
    case True
    define h where "h = (i + j) div 2"
    have h: "i \<le> h" "h < j" using True by (auto simp: h_def)
    show ?thesis
    proof (cases "f h")
      case True
      have s: "sortSearch f i j = sortSearch f i h" using \<open>i < j\<close> True by (simp add: sortSearch.simps [of f i j] h_def Let_def)
      have "sortSearch f i h \<le> h \<and> (\<forall>k. i \<le> k \<and> k < sortSearch f i h \<longrightarrow> \<not> f k) \<and> (\<forall>k. sortSearch f i h \<le> k \<and> k < h \<longrightarrow> f k)"
      proof (rule 1(2) [OF \<open>i < j\<close> h_def])
        show "f c" if "i \<le> a" "a \<le> c" "c < h" "f a" for a c
          by (rule 1(4) [OF that(1,2) less_trans [OF that(3) h(2)] that(4)])
      qed (use True h in simp_all)
      moreover have "f k" if "h \<le> k" "k < j" for k using 1(4) [OF h(1) that] True by blast
      ultimately show ?thesis using s h by (auto intro: leI)
    next
      case False
      have s: "sortSearch f i j = sortSearch f (h + 1) j" using \<open>i < j\<close> False by (simp add: sortSearch.simps [of f i j] h_def Let_def)
      have r: "sortSearch f (h + 1) j \<le> j \<and> (\<forall>k. h + 1 \<le> k \<and> k < sortSearch f (h + 1) j \<longrightarrow> \<not> f k) \<and>
          (\<forall>k. sortSearch f (h + 1) j \<le> k \<and> k < j \<longrightarrow> f k)"
      proof (rule 1(1) [OF \<open>i < j\<close> h_def])
        show "f c" if "h + 1 \<le> a" "a \<le> c" "c < j" "f a" for a c
          by (rule 1(4) [OF _ that(2,3,4)]) (use that(1) h(1) in simp)
      qed (use False h in simp_all)
      have "\<not> f k" if "i \<le> k" "k \<le> h" for k using 1(4) [OF that h(2)] False by blast
      then have "\<not> f k" if "i \<le> k" "k < sortSearch f (h + 1) j" for k using r that by (cases "k \<le> h") auto
      then show ?thesis using s r by auto
    qed
  qed
qed

text \<open>Finding or inserting a level splits the slice at the price; the order is then appended there.\<close>

lemma findOrInsert_split:
  assumes ok: "levels_ok s (bookFor s b)" and f: "findOrInsertLevel p s b = (idx, b1)"
  shows "\<exists>xs l ys. bookFor s b1 = xs @ l # ys \<and> idx = length xs \<and> dl_Price l = p \<and> level_orders (bookFor s b) = level_orders (xs @ l # ys) \<and>
    b1 = setBookFor s (xs @ l # ys) b \<and> levels_ok s xs \<and> levels_ok s ys \<and> (\<forall>o'\<in>set (dl_Orders l). o_Price o' = p) \<and>
    (\<forall>x\<in>set xs. better s (dl_Price x) p) \<and> (\<forall>y\<in>set ys. better s p (dl_Price y)) \<and> (\<forall>x\<in>set xs. \<forall>y\<in>set ys. better s (dl_Price x) (dl_Price y))"
proof (cases "findLevelIndex p s b")
  case (Some k)
  then obtain xs l ys where x: "bookFor s b = xs @ l # ys" "k = length xs" "dl_Price l = p"
    using levelIndex_Some [of p 0 "bookFor s b" k] by (auto simp: findLevelIndex_def)
  have b1: "b1 = b" "idx = k" using f Some by (simp_all add: findOrInsertLevel_def)
  have same: "setBookFor s (xs @ l # ys) b = b" using x(1) by (cases s) (simp_all add: bookFor_def setBookFor_def)
  have "levels_ok s xs \<and> levels_ok s ys \<and> (\<forall>o'\<in>set (dl_Orders l). o_Price o' = p) \<and>
    (\<forall>x\<in>set xs. better s (dl_Price x) p) \<and> (\<forall>y\<in>set ys. better s p (dl_Price y)) \<and> (\<forall>x\<in>set xs. \<forall>y\<in>set ys. better s (dl_Price x) (dl_Price y))"
    using ok x(1,3) by (auto simp: levels_ok_append levels_ok_Cons)
  then show ?thesis using x b1 same by metis
next
  case None
  define ls where "ls = bookFor s b"
  define g where "g = (\<lambda>i. if s then dl_Price (ls ! i) \<le> p else p \<le> dl_Price (ls ! i))"
  define k where "k = sortSearch g 0 (length ls)"
  have gb: "g i \<longleftrightarrow> \<not> better s (dl_Price (ls ! i)) p" for i by (auto simp: g_def better_def)
  have mono: "g a \<Longrightarrow> a \<le> c \<Longrightarrow> c < length ls \<Longrightarrow> g c" for a c
    using ok sorted_wrt_nth_less [of "\<lambda>x y. better s (dl_Price x) (dl_Price y)" ls a c]
      better_facts(2) [of s "dl_Price (ls ! a)" "dl_Price (ls ! c)" p]
    by (cases "a = c") (auto simp: gb levels_ok_def ls_def)
  have K: "k \<le> length ls" "\<And>i. i < k \<Longrightarrow> \<not> g i" "\<And>i. k \<le> i \<Longrightarrow> i < length ls \<Longrightarrow> g i"
    using sortSearch_spec [of 0 "length ls" g] mono by (auto simp: k_def)
  have ne: "dl_Price l \<noteq> p" if "l \<in> set ls" for l
    using levelIndex_None None that by (simp add: findLevelIndex_def ls_def)
  have b1: "idx = k" "b1 = setBookFor s (take k ls @ \<lparr>dl_Price = p, dl_Orders = []\<rparr> # drop k ls) b"
  proof -
    have "findOrInsertLevel p s b = (k, setBookFor s (take k ls @ \<lparr>dl_Price = p, dl_Orders = []\<rparr> # drop k ls) b)"
      by (simp only: findOrInsertLevel_def None option.case Let_def k_def g_def ls_def)
    then show "idx = k" "b1 = setBookFor s (take k ls @ \<lparr>dl_Price = p, dl_Orders = []\<rparr> # drop k ls) b" using f by simp_all
  qed
  have "better s (dl_Price x) p" if "x \<in> set (take k ls)" for x
    using that K(1,2) gb by (auto simp: in_set_conv_nth)
  moreover have "better s p (dl_Price y)" if y: "y \<in> set (drop k ls)" for y
  proof -
    obtain i where i: "i < length ls - k" "y = ls ! (k + i)" using y K(1) by (auto simp: in_set_conv_nth)
    then have "\<not> better s (dl_Price y) p" using K(3) [of "k + i"] gb by simp
    then show ?thesis using better_facts(3) ne [of y] i by auto
  qed
  moreover have "levels_ok s (take k ls @ drop k ls)" using ok by (simp add: ls_def)
  moreover have "level_orders ls = level_orders (take k ls @ drop k ls)" by (simp only: append_take_drop_id)
  moreover have "bookFor s (setBookFor s zs b) = zs" for zs by (simp add: bookFor_def setBookFor_def)
  ultimately show ?thesis using b1 K(1)
    by - (rule exI [of _ "take k ls"], rule exI [of _ "\<lparr>dl_Price = p, dl_Orders = []\<rparr>"], rule exI [of _ "drop k ls"],
      simp add: levels_ok_append ls_def [symmetric] del: append_take_drop_id)
qed

lemma bookFor_setBookFor [simp]: "bookFor s (setBookFor s' ls b) = (if s = s' then ls else bookFor s b)"
  "lb_OrderMap (setBookFor s ls b) = lb_OrderMap b" "bookFor s (lb_OrderMap_update g b) = bookFor s b"
  "setBookFor s ls (setBookFor s ls' b) = setBookFor s ls b"
  by (simp_all add: bookFor_def setBookFor_def)

lemma pt_add_ids: "pt_ids (pt_add o' A) = insert (o_OrderID o') (pt_ids A)"
  by (cases "IsBuy o'") (auto simp: pt_ids_def pt_add_def)

lemma pt_add_distinct:
  assumes "distinct (map d_OrderID (A True @ A False))" and "o_OrderID o' \<notin> pt_ids A"
  shows "distinct (map d_OrderID (pt_add o' A True @ pt_add o' A False))"
proof -
  have "distinct (map d_OrderID (pt_insert s d xs)) \<longleftrightarrow> distinct (map d_OrderID xs) \<and> d_OrderID d \<notin> d_OrderID ` set xs" for s d xs
  proof -
    let ?t = "takeWhile (\<lambda>x. \<not> better s (d_Price d) (d_Price x)) xs" and ?w = "dropWhile (\<lambda>x. \<not> better s (d_Price d) (d_Price x)) xs"
    have "distinct (map d_OrderID (?t @ d # ?w)) \<longleftrightarrow> distinct (map d_OrderID (?t @ ?w)) \<and> d_OrderID d \<notin> d_OrderID ` set (?t @ ?w)"
      by (simp del: takeWhile_dropWhile_id add: image_Un) blast
    then show ?thesis by (simp add: pt_insert_def)
  qed
  then show ?thesis using assms by (cases "IsBuy o'") (auto simp: pt_add_def pt_ids_def)
qed

lemma legacy_add:
  assumes rep: "legacy_abs b A" and new: "o_OrderID o' \<notin> pt_ids A"
  shows "\<exists>b'. lb_AddOrder o' b = Some b' \<and> legacy_abs b' (pt_add o' A)"
proof -
  let ?s = "IsBuy o'" and ?p = "o_Price o'"
  obtain idx b1 where f: "findOrInsertLevel ?p ?s b = (idx, b1)" by (cases "findOrInsertLevel ?p ?s b")
  have ok: "levels_ok s (bookFor s b)" for s using rep by (simp add: legacy_abs_def)
  obtain xs l ys where x: "bookFor ?s b1 = xs @ l # ys" "idx = length xs" "dl_Price l = ?p"
      "level_orders (bookFor ?s b) = level_orders (xs @ l # ys)" "b1 = setBookFor ?s (xs @ l # ys) b"
      "levels_ok ?s xs" "levels_ok ?s ys" "\<forall>o''\<in>set (dl_Orders l). o_Price o'' = ?p"
      "\<forall>x\<in>set xs. better ?s (dl_Price x) ?p" "\<forall>y\<in>set ys. better ?s ?p (dl_Price y)"
      "\<forall>x\<in>set xs. \<forall>y\<in>set ys. better ?s (dl_Price x) (dl_Price y)"
    using findOrInsert_split [OF ok f] by blast
  let ?ls = "xs @ dl_Append o' l # ys"
  let ?b = "setBookFor ?s ?ls b\<lparr>lb_OrderMap := AList.update (o_OrderID o') o' (lb_OrderMap b)\<rparr>"
  have run: "lb_AddOrder o' b = Some ?b" using f x(1,2) by (simp add: lb_AddOrder_def x(5))
  have lv: "levels_ok ?s ?ls"
    using x(3,6-11) by (auto simp: levels_ok_append levels_ok_Cons dl_Append_def)
  have "better ?s ?p (d_Price d)" if "d \<in> set (level_orders ys)" for d
    using in_level_orders [OF that x(7)] x(10) by auto
  moreover have "\<not> better ?s ?p (d_Price d)" if "d \<in> set (level_orders xs)" for d
    using in_level_orders [OF that x(6)] x(9) by (auto simp: better_def split: if_splits)
  moreover have "\<not> better ?s ?p (d_Price d)" if "d \<in> set (map FromOrder (dl_Orders l))" for d
    using that x(8) by (auto simp: better_def)
  ultimately have "pt_insert ?s (FromOrder o') ((level_orders xs @ map FromOrder (dl_Orders l)) @ level_orders ys) =
      (level_orders xs @ map FromOrder (dl_Orders l)) @ FromOrder o' # level_orders ys"
    by (intro pt_insert_split) auto
  then have A: "pt_add o' A = (\<lambda>s. level_orders (bookFor s ?b))"
    using rep x(4) by (auto simp: legacy_abs_def pt_add_def fun_eq_iff dl_Append_def)
  moreover have "levels_ok s (bookFor s ?b)" for s using lv ok by simp
  moreover have "lb_HasOrder ?b i \<longleftrightarrow> i \<in> pt_ids (pt_add o' A)" for i
    using rep by (auto simp: legacy_abs_def lb_HasOrder_def pt_add_ids update_conv')
  moreover have "distinct (map d_OrderID (pt_add o' A True @ pt_add o' A False))"
    using pt_add_distinct [OF _ new] rep unfolding legacy_abs_def by blast
  ultimately show ?thesis using run by (auto simp: legacy_abs_def)
qed

lemma images_apart: "f ` X \<inter> g ` Y = {} \<Longrightarrow> x \<in> X \<Longrightarrow> y \<in> Y \<Longrightarrow> f x \<noteq> g y"
  by blast

lemma removeFromLevels_filter:
  assumes "levels_ok s ls" and "distinct (map d_OrderID (level_orders ls))"
    and "d \<in> set (level_orders ls)" and "d_OrderID d = o_OrderID o'" and "d_Price d = o_Price o'"
  shows "levels_ok s (removeFromLevels o' ls) \<and> dl_Price ` set (removeFromLevels o' ls) \<subseteq> dl_Price ` set ls \<and>
    level_orders (removeFromLevels o' ls) = filter (\<lambda>d. d_OrderID d \<noteq> o_OrderID o') (level_orders ls)"
  using assms
proof (induction ls)
  case (Cons l ls)
  let ?keep = "\<lambda>d. d_OrderID d \<noteq> o_OrderID o'"
  have ok: "levels_ok s ls" "\<forall>y\<in>set ls. better s (dl_Price l) (dl_Price y)" "\<forall>o''\<in>set (dl_Orders l). o_Price o'' = dl_Price l"
    "dl_Orders l \<noteq> []" using Cons(2) by (simp_all add: levels_ok_Cons)
  show ?case
  proof (cases "dl_Price l = o_Price o'")
    case False
    then have d: "d \<in> set (level_orders ls)" using Cons(4,6) ok(3) by auto
    have "o_OrderID o'' \<noteq> o_OrderID o'" if "o'' \<in> set (dl_Orders l)" for o''
      using images_apart [of o_OrderID "set (dl_Orders l)" d_OrderID "set (level_orders ls)", OF _ that d] Cons(3,5) by (simp add: image_image)
    then have "filter ?keep (map FromOrder (dl_Orders l)) = map FromOrder (dl_Orders l)" by (simp add: filter_map o_def)
    moreover have ih: "levels_ok s (removeFromLevels o' ls)" "dl_Price ` set (removeFromLevels o' ls) \<subseteq> dl_Price ` set ls"
        "level_orders (removeFromLevels o' ls) = filter ?keep (level_orders ls)"
      using Cons(1) [OF ok(1) _ d Cons(5,6)] Cons(3) by simp_all
    moreover have "better s (dl_Price l) (dl_Price y)" if "y \<in> set (removeFromLevels o' ls)" for y
    proof -
      have "dl_Price y \<in> dl_Price ` set ls" using ih(2) that by blast
      then show ?thesis using ok(2) by auto
    qed
    ultimately show ?thesis using False ok(3,4) by (simp add: levels_ok_Cons) blast
  next
    case True
    have "d_Price d' \<noteq> o_Price o'" if d': "d' \<in> set (level_orders ls)" for d'
    proof -
      obtain y where "y \<in> set ls" "d_Price d' = dl_Price y" using in_level_orders [OF d' ok(1)] by blast
      then show ?thesis using ok(2) True better_facts(1) [of s "o_Price o'"] by metis
    qed
    then have "d \<in> set (map FromOrder (dl_Orders l))" using Cons(4,6) by auto
    then have "d_OrderID d'' \<noteq> o_OrderID o'" if "d'' \<in> set (level_orders ls)" for d''
      using images_apart [of d_OrderID _ d_OrderID, OF _ _ that, of "set (map FromOrder (dl_Orders l))" d] Cons(3,5)
      by (auto simp: image_image)
    then have "filter ?keep (level_orders ls) = level_orders ls" by (simp add: filter_id_conv)
    moreover have "filter ?keep (map FromOrder (dl_Orders l)) = map FromOrder (filter (\<lambda>c. o_OrderID c \<noteq> o_OrderID o') (dl_Orders l))"
      by (simp add: filter_map o_def)
    ultimately show ?thesis using True ok by (simp add: levels_ok_Cons dl_IsEmpty_def Let_def) blast
  qed
qed simp

lemma legacy_remove:
  assumes rep: "legacy_abs b A" and r: "rests o' A"
  shows "\<exists>b'. lb_RemoveOrder o' b = Some b' \<and> legacy_abs b' (pt_remove (o_OrderID o') A)"
proof -
  let ?s = "IsBuy o'"
  let ?b = "setBookFor ?s (removeFromLevels o' (bookFor ?s b)) b\<lparr>lb_OrderMap := AList.delete (o_OrderID o') (lb_OrderMap b)\<rparr>"
  have ok: "levels_ok s (bookFor s b)" and A: "A = (\<lambda>s. level_orders (bookFor s b))" and has: "lb_HasOrder b i \<longleftrightarrow> i \<in> pt_ids A"
    and dist: "distinct (map d_OrderID (A True @ A False))" for s i using rep unfolding legacy_abs_def by blast+
  obtain d where d: "d \<in> set (A ?s)" "d_OrderID d = o_OrderID o'" "d_Price d = o_Price o'" using r by (auto simp: rests_def)
  have "distinct (map d_OrderID (A ?s))" using dist by (cases ?s) simp_all
  then have rm: "levels_ok ?s (removeFromLevels o' (bookFor ?s b))"
      "level_orders (removeFromLevels o' (bookFor ?s b)) = filter (\<lambda>d. d_OrderID d \<noteq> o_OrderID o') (A ?s)"
    using removeFromLevels_filter [OF ok [of ?s], of d o'] d unfolding A by auto
  have "d_OrderID d' \<noteq> o_OrderID o'" if "d' \<in> set (A (\<not> ?s))" for d'   proof -
    have apart: "d_OrderID x \<noteq> d_OrderID y" if "x \<in> set (A True)" "y \<in> set (A False)" for x y
      using images_apart [of d_OrderID _ d_OrderID, OF _ that] dist by simp
    show ?thesis using apart [of d d'] apart [of d' d] d that by (cases ?s) auto
  qed
  then have other: "filter (\<lambda>d. d_OrderID d \<noteq> o_OrderID o') (A (\<not> ?s)) = A (\<not> ?s)" by (simp add: filter_id_conv)
  have "pt_remove (o_OrderID o') A s = level_orders (bookFor s ?b)" for s
    using rm(2) other by (cases "s = ?s") (auto simp: pt_remove_def A)
  moreover have "levels_ok s (bookFor s ?b)" for s using rm(1) ok by simp
  moreover have "lb_HasOrder ?b i \<longleftrightarrow> i \<in> pt_ids (pt_remove (o_OrderID o') A)" for i
    using has by (auto simp: lb_HasOrder_def pt_ids_def pt_remove_def delete_conv')
  moreover have "distinct (map d_OrderID (pt_remove (o_OrderID o') A True @ pt_remove (o_OrderID o') A False))"
    using dist by (auto simp: pt_remove_def distinct_map_filter)
  ultimately show ?thesis unfolding legacy_abs_def lb_RemoveOrder_def by (auto simp: fun_eq_iff)
qed

lemma legacy_best_front: "legacy_abs b A \<Longrightarrow> legacy_best s b = front_price (A s)"
proof -
  assume rep: "legacy_abs b A"
  then have "levels_ok s (bookFor s b)" "A s = level_orders (bookFor s b)" by (simp_all add: legacy_abs_def)
  then have "front_price (A s) = (case bookFor s b of [] \<Rightarrow> (0, False) | l # _ \<Rightarrow> (dl_Price l, True))"
    by (cases "bookFor s b"; cases "dl_Orders (hd (bookFor s b))") (simp_all add: front_price_def levels_ok_Cons)
  then show ?thesis by (simp add: legacy_best_def lb_BestBidPrice_def lb_BestAskPrice_def bookFor_def)
qed

interpretation legacy_book: price_time_book legacy_abs lb_HasOrder lb_AddOrder lb_RemoveOrder legacy_best lb_IsCross
proof unfold_locales
  fix b A i o' s
  assume rep: "legacy_abs b A"
  show "lb_HasOrder b i \<longleftrightarrow> i \<in> pt_ids A" using rep by (simp add: legacy_abs_def)
  show "\<exists>b'. lb_AddOrder o' b = Some b' \<and> legacy_abs b' (pt_add o' A)" if "o_OrderID o' \<notin> pt_ids A"
    by (rule legacy_add [OF rep that])
  show "\<exists>b'. lb_RemoveOrder o' b = Some b' \<and> legacy_abs b' (pt_remove (o_OrderID o') A)" if "rests o' A"
    by (rule legacy_remove [OF rep that])
  show "legacy_best s b = front_price (A s)" by (rule legacy_best_front [OF rep])
  show "lb_IsCross o' b \<longleftrightarrow>
      (case legacy_best (\<not> IsBuy o') b of (p, ok) \<Rightarrow> ok \<and> (if IsBuy o' then p \<le> o_Price o' else o_Price o' \<le> p))"
    by (simp add: lb_IsCross_def legacy_best_def)
qed

lemma legacy_abs_New: "legacy_abs (NewOrderBook key) pt_empty"
  by (simp add: legacy_abs_def NewOrderBook_def bookFor_def levels_ok_def fun_eq_iff pt_empty_def pt_ids_def lb_HasOrder_def level_orders_def)

section \<open>The two books agree\<close>


definition ex_resting :: "string \<Rightarrow> OrderSide \<Rightarrow> i64 \<Rightarrow> Order" where
  "ex_resting i s p =
     \<lparr>o_OrderID = i, o_ClientOrderID = '''', o_UserID = 1, o_MarketID = 7, o_Outcome = ''YES'', o_Side = s,
      o_Type = OrderTypeLimit, o_TimeInForce = TimeInForceGTC, o_STPStrategy = STPNone, o_Price = p, o_Quantity = 5,
      o_FilledQuantity = 0, o_Status = '''', o_CancelReason = '''', o_CreatedAtMillis = 0, o_UpdatedAtMillis = 0\<rparr>"

definition ex_ops :: "book_op list" where
  "ex_ops = [AddOp (ex_resting ''a'' OrderSideSell 60), AddOp (ex_resting ''b'' OrderSideSell 50),
     AddOp (ex_resting ''c'' OrderSideBuy 40), RemoveOp (ex_resting ''b'' OrderSideSell 50)]"

lemma ex_ops_sound: "sound_ops ex_ops pt_empty"
  by code_simp


end
