(* ===== verification/Rollup_Types.thy ===== *)
theory Rollup_Types
  imports Shared_Assets Go_Maps "HOL-Library.Char_ord" "HOL-Library.List_Lexorder"
begin

text \<open>
  The data of the rollup: journal entries and their payloads (\<open>rollup/types.go\<close>), the leaves of the
  shadow state (\<open>rollup/replay.go\<close>), the witnesses of \<open>shared/auth/session.go\<close> that payloads carry,
  and the hashing of \<open>rollup/hash.go\<close>. Bytes are the 256 characters. The JSON decoder and encoder,
  the hash functions SHA-256 and Keccak-256 and the address conversion of the Ethereum library are
  fields of the record \<open>Codec\<close>, a parameter of the definitions.
\<close>

section \<open>Witnesses of authorisations (session.go)\<close>

record TradingKeyAuthorizationWitness =
  tw_AuthVersion :: string
  tw_VerifierEligible :: bool
  tw_AuthorizationRef :: string
  tw_TradingKeyID :: string
  tw_AccountID :: i64
  tw_WalletAddress :: string
  tw_ChainID :: i64
  tw_VaultAddress :: string
  tw_TradingPublicKey :: string
  tw_TradingKeyScheme :: string
  tw_Scope :: string
  tw_KeyStatus :: string
  tw_Challenge :: string
  tw_ChallengeExpiresAtMillis :: i64
  tw_KeyExpiresAtMillis :: i64
  tw_AuthorizedAtMillis :: i64
  tw_WalletSignatureStandard :: string
  tw_WalletTypedDataHash :: string
  tw_WalletSignature :: string

record OrderIntentWitness =
  iw_SessionID :: string
  iw_WalletAddress :: string
  iw_UserID :: i64
  iw_MarketID :: i64
  iw_Outcome :: string
  iw_Side :: string
  iw_OrderType :: string
  iw_TimeInForce :: string
  iw_Price :: i64
  iw_Quantity :: i64
  iw_ClientOrderID :: string
  iw_Nonce :: u64
  iw_RequestedAtMillis :: i64
  iw_Message :: string
  iw_MessageHash :: string
  iw_Signature :: string

record OrderAuthorizationWitness =
  ow_AuthVersion :: string
  ow_VerifierEligible :: bool
  ow_IneligibleReason :: string
  ow_AuthorizationRef :: string
  ow_TradingKeyID :: string
  ow_AccountID :: i64
  ow_WalletAddress :: string
  ow_ChainID :: i64
  ow_VaultAddress :: string
  ow_TradingPublicKey :: string
  ow_TradingKeyScheme :: string
  ow_Scope :: string
  ow_KeyStatus :: string
  ow_KeyExpiresAtMillis :: i64
  ow_Intent :: OrderIntentWitness

section \<open>Payloads of journal entries (types.go)\<close>

record OrderAcceptedPayload =
  oa_OrderID :: string
  oa_CommandID :: string
  oa_ClientOrderID :: string
  oa_AccountID :: i64
  oa_MarketID :: i64
  oa_Outcome :: string
  oa_Side :: string
  oa_OrderType :: string
  oa_TimeInForce :: string
  oa_CollateralAsset :: string
  oa_ReserveAsset :: string
  oa_ReserveAmount :: i64
  oa_Price :: i64
  oa_Quantity :: i64
  oa_RequestedAtMillis :: i64

record NonceAdvancedPayload =
  na_AccountID :: i64
  na_AuthKeyID :: string
  na_Scope :: string
  na_KeyStatus :: string
  na_AcceptedNonce :: u64
  na_NextNonce :: u64
  na_OccurredAtMillis :: i64
  na_OrderAuthorization :: "OrderAuthorizationWitness option"

record TradingKeyAuthorizedPayload =
  tk_AuthorizationWitness :: TradingKeyAuthorizationWitness

record OrderCancelledPayload =
  ca_OrderID :: string
  ca_AccountID :: i64
  ca_MarketID :: i64
  ca_Outcome :: string
  ca_Side :: string
  ca_ReserveAsset :: string
  ca_Price :: i64
  ca_RemainingQuantity :: i64
  ca_CancelReason :: string

record TradeMatchedPayload =
  tp_TradeID :: string
  tp_Sequence :: u64
  tp_CollateralAsset :: string
  tp_MarketID :: i64
  tp_Outcome :: string
  tp_Price :: i64
  tp_Quantity :: i64
  tp_TakerOrderID :: string
  tp_MakerOrderID :: string
  tp_TakerAccountID :: i64
  tp_MakerAccountID :: i64
  tp_TakerSide :: string
  tp_MakerSide :: string
  tp_OccurredAtMillis :: i64

record DepositCreditedPayload =
  dp_DepositID :: string
  dp_AccountID :: i64
  dp_WalletAddress :: string
  dp_VaultAddress :: string
  dp_Asset :: string
  dp_Amount :: i64
  dp_ChainName :: string
  dp_NetworkName :: string
  dp_TxHash :: string
  dp_LogIndex :: i64
  dp_BlockNumber :: i64
  dp_OccurredAtMillis :: i64

record WithdrawalRequestedPayload =
  wp_WithdrawalID :: string
  wp_AccountID :: i64
  wp_WalletAddress :: string
  wp_RecipientAddress :: string
  wp_VaultAddress :: string
  wp_Asset :: string
  wp_Amount :: i64
  wp_Lane :: string
  wp_ChainName :: string
  wp_NetworkName :: string
  wp_TxHash :: string
  wp_LogIndex :: i64
  wp_BlockNumber :: i64
  wp_OccurredAtMillis :: i64

record OracleAttestationWitness =
  at_Version :: i64
  at_AssetPair :: string
  at_Price :: string
  at_Timestamp :: i64
  at_Provider :: string
  at_Signature :: string
  at_SignerAddress :: string

record MarketResolvedPayload =
  mp_MarketID :: i64
  mp_ResolvedOutcome :: string
  mp_ResolverType :: string
  mp_ResolverRef :: string
  mp_EvidenceHash :: string
  mp_OccurredAtMillis :: i64
  mp_OracleAttestation :: "OracleAttestationWitness option"

record SettlementPayoutPayload =
  sp_EventID :: string
  sp_MarketID :: i64
  sp_AccountID :: i64
  sp_WinningOutcome :: string
  sp_PositionAsset :: string
  sp_SettledQuantity :: i64
  sp_PayoutAsset :: string
  sp_PayoutAmount :: i64
  sp_OccurredAtMillis :: i64

section \<open>Journal entries and batches (types.go)\<close>

abbreviation EntryTypeTradingKeyAuthorized :: string where "EntryTypeTradingKeyAuthorized \<equiv> ''TRADING_KEY_AUTHORIZED''"
abbreviation EntryTypeNonceAdvanced :: string where "EntryTypeNonceAdvanced \<equiv> ''NONCE_ADVANCED''"
abbreviation EntryTypeOrderAccepted :: string where "EntryTypeOrderAccepted \<equiv> ''ORDER_ACCEPTED''"
abbreviation EntryTypeOrderCancelled :: string where "EntryTypeOrderCancelled \<equiv> ''ORDER_CANCELLED''"
abbreviation EntryTypeTradeMatched :: string where "EntryTypeTradeMatched \<equiv> ''TRADE_MATCHED''"
abbreviation EntryTypeDepositCredited :: string where "EntryTypeDepositCredited \<equiv> ''DEPOSIT_CREDITED''"
abbreviation EntryTypeWithdrawalRequested :: string where "EntryTypeWithdrawalRequested \<equiv> ''WITHDRAWAL_REQUESTED''"
abbreviation EntryTypeMarketResolved :: string where "EntryTypeMarketResolved \<equiv> ''MARKET_RESOLVED''"
abbreviation EntryTypeSettlementPayout :: string where "EntryTypeSettlementPayout \<equiv> ''SETTLEMENT_PAYOUT''"
abbreviation BatchEncodingVersion :: string where "BatchEncodingVersion \<equiv> ''shadow-batch-v1''"

record JournalEntry =
  je_Sequence :: i64
  je_EntryID :: string
  je_EntryType :: string
  je_SourceType :: string
  je_SourceRef :: string
  je_OccurredAtMillis :: i64
  je_Payload :: string

record BatchInput =
  bi_EncodingVersion :: string
  bi_Entries :: "JournalEntry list"

record StoredBatch =
  sb_BatchID :: i64
  sb_EncodingVersion :: string
  sb_FirstSequence :: i64
  sb_LastSequence :: i64
  sb_EntryCount :: i64
  sb_InputData :: string
  sb_InputHash :: string
  sb_PrevStateRoot :: string
  sb_BalancesRoot :: string
  sb_OrdersRoot :: string
  sb_PositionsFundingRoot :: string
  sb_WithdrawalsRoot :: string
  sb_StateRoot :: string
  sb_CreatedAt :: i64

record RootSet =
  rt_BalancesRoot :: string
  rt_OrdersRoot :: string
  rt_PositionsFundingRoot :: string
  rt_WithdrawalsRoot :: string
  rt_StateRoot :: string

section \<open>The leaves of the shadow state (replay.go)\<close>

record balanceLeaf =
  bl_AccountID :: i64
  bl_AssetID :: string
  bl_FreeBalance :: i64
  bl_LockedBalance :: i64
  bl_LastAppliedSequence :: i64

record nonceLeaf =
  nl_AccountID :: i64
  nl_AuthKeyID :: string
  nl_NextNonce :: u64
  nl_KeyStatus :: string
  nl_Scope :: string
  nl_LastAppliedSequence :: i64

record orderLeaf =
  ol_OrderID :: string
  ol_AccountID :: i64
  ol_MarketID :: i64
  ol_Outcome :: string
  ol_Side :: string
  ol_Price :: i64
  ol_OriginalQuantity :: i64
  ol_FilledQuantity :: i64
  ol_RemainingQuantity :: i64
  ol_ReserveAsset :: string
  ol_ReservedCollateral :: i64
  ol_Status :: string
  ol_LastAppliedSequence :: i64

record positionLeaf =
  pl_AccountID :: i64
  pl_MarketID :: i64
  pl_Outcome :: string
  pl_Quantity :: i64
  pl_CostBasis :: i64
  pl_RealizedPnL :: i64
  pl_FundingSnapshot :: i64
  pl_SettlementStatus :: string
  pl_LastAppliedSequence :: i64

record marketFundingLeaf =
  fl_MarketID :: i64
  fl_CumulativeFundingIndex :: i64
  fl_LastOracleRef :: string
  fl_MarketSettlementState :: string
  fl_ResolvedOutcome :: string
  fl_LastAppliedSequence :: i64

record withdrawalLeaf =
  wl_WithdrawalID :: string
  wl_AccountID :: i64
  wl_AssetID :: string
  wl_Amount :: i64
  wl_Recipient :: string
  wl_Lane :: string
  wl_Status :: string
  wl_Beneficiary :: string
  wl_RequestSequence :: i64
  wl_ClaimNullifier :: string

record shadowState =
  ss_balances :: "(string \<times> balanceLeaf) list"
  ss_nonces :: "(string \<times> nonceLeaf) list"
  ss_openOrders :: "(string \<times> orderLeaf) list"
  ss_positions :: "(string \<times> positionLeaf) list"
  ss_marketFunding :: "(string \<times> marketFundingLeaf) list"
  ss_withdrawals :: "(string \<times> withdrawalLeaf) list"

definition emptyState :: shadowState where
  "emptyState = \<lparr>ss_balances = [], ss_nonces = [], ss_openOrders = [], ss_positions = [], ss_marketFunding = [], ss_withdrawals = []\<rparr>"

datatype leaf =
  BalanceLeaf balanceLeaf
| NonceLeaf nonceLeaf
| OrderLeaf orderLeaf
| PositionLeaf positionLeaf
| MarketFundingLeaf marketFundingLeaf
| WithdrawalLeaf withdrawalLeaf

section \<open>Encodings and hashes (hash.go)\<close>

record Codec =
  dec_Batch :: "string \<Rightarrow> string + BatchInput"
  dec_NonceAdvanced :: "string \<Rightarrow> string + NonceAdvancedPayload"
  dec_TradingKeyAuthorized :: "string \<Rightarrow> string + TradingKeyAuthorizedPayload"
  dec_OrderAccepted :: "string \<Rightarrow> string + OrderAcceptedPayload"
  dec_OrderCancelled :: "string \<Rightarrow> string + OrderCancelledPayload"
  dec_TradeMatched :: "string \<Rightarrow> string + TradeMatchedPayload"
  dec_DepositCredited :: "string \<Rightarrow> string + DepositCreditedPayload"
  dec_WithdrawalRequested :: "string \<Rightarrow> string + WithdrawalRequestedPayload"
  dec_MarketResolved :: "string \<Rightarrow> string + MarketResolvedPayload"
  dec_SettlementPayout :: "string \<Rightarrow> string + SettlementPayoutPayload"
  enc_Leaf :: "leaf \<Rightarrow> string + string"
  enc_Batch :: "BatchInput \<Rightarrow> string + string"
  sha256 :: "string \<Rightarrow> string"
  keccak256 :: "string \<Rightarrow> string"
  hexToAddress :: "string \<Rightarrow> string"

text \<open>\<open>binary.BigEndian.PutUint64\<close> and \<open>hex.EncodeToString\<close>.\<close>

definition be64 :: "int \<Rightarrow> string" where
  "be64 v = map (\<lambda>i. char_of (nat (v div 2 ^ (8 * i) mod 256))) (rev [0..<8])"

definition hexDigit :: "nat \<Rightarrow> char" where
  "hexDigit d = (if d < 10 then char_of (48 + d) else char_of (87 + d))"

definition hexEncode :: "string \<Rightarrow> string" where
  "hexEncode bs = concat (map (\<lambda>c. [hexDigit (of_char c div 16), hexDigit (of_char c mod 16)]) bs)"

definition hashPreimage :: "string list \<Rightarrow> string" where
  "hashPreimage parts = concat (map (\<lambda>part. be64 (int (length part)) @ part) parts)"

definition hashStrings :: "Codec \<Rightarrow> string list \<Rightarrow> string" where
  "hashStrings cd parts = hexEncode (sha256 cd (hashPreimage parts))"

definition hashStruct :: "Codec \<Rightarrow> string \<Rightarrow> string \<Rightarrow> leaf \<Rightarrow> string + string" where
  "hashStruct cd namespace key value =
     (case enc_Leaf cd value of Inl err \<Rightarrow> Inl err | Inr encoded \<Rightarrow> Inr (hashStrings cd [namespace, key, encoded]))"

text \<open>The length prefixes make the preimage unambiguous: different lists of parts are hashed differently as long as the hash function does not collide.\<close>

lemma be64_length [simp]: "length (be64 v) = 8"
  by (simp add: be64_def)

lemma be64_nonempty [simp]: "be64 v \<noteq> []"
  using be64_length [of v] by (metis length_0_conv numeral_neq_zero)

lemma digits_inject:
  assumes "v div 256 ^ n = w div 256 ^ n" and "\<And>i. i < n \<Longrightarrow> v div 256 ^ i mod 256 = w div 256 ^ i mod 256"
  shows "v = (w :: int)"
  using assms
proof (induction n)
  case (Suc n)
  have d: "x div 256 ^ n = 256 * (x div 256 ^ Suc n) + x div 256 ^ n mod 256" for x :: int
    using mult_div_mod_eq [of 256 "x div 256 ^ n"] by (simp add: zdiv_zmult2_eq mult.commute [of 256])
  have "v div 256 ^ n = w div 256 ^ n" using d [of v] d [of w] Suc(2) Suc(3) [OF lessI] by linarith
  then show ?case using Suc(1) Suc(3) by simp
qed simp

lemma be64_inject:
  assumes "be64 v = be64 w" and "0 \<le> v" "v < 2 ^ 64" "0 \<le> w" "w < 2 ^ 64"
  shows "v = w"
proof (rule digits_inject [of _ 8])
  show "v div 256 ^ 8 = w div 256 ^ 8" using assms(2-5) by simp
  show "v div 256 ^ i mod 256 = w div 256 ^ i mod 256" if "i < 8" for i
  proof -
    have "nat (v div 2 ^ (8 * i) mod 256) = nat (w div 2 ^ (8 * i) mod 256)" using assms(1) that by (simp add: be64_def)
    then show ?thesis by (simp add: power_mult)
  qed
qed

definition short :: "string \<Rightarrow> bool" where
  "short p \<longleftrightarrow> int (length p) < 2 ^ 64"

lemma hashPreimage_simps [simp]: "hashPreimage [] = []" "hashPreimage (p # ps) = be64 (int (length p)) @ p @ hashPreimage ps"
  by (simp_all add: hashPreimage_def)

lemma hashPreimage_inject:
  assumes "list_all short ps" and "list_all short qs" and "hashPreimage ps = hashPreimage qs"
  shows "ps = qs"
  using assms
proof (induction ps arbitrary: qs)
  case Nil
  then show ?case by (cases qs) simp_all
next
  case (Cons p ps)
  then obtain q qs' where qs: "qs = q # qs'" by (cases qs) simp_all
  have e: "be64 (int (length p)) @ p @ hashPreimage ps = be64 (int (length q)) @ q @ hashPreimage qs'"
    using Cons(4) by (simp add: qs)
  then have "be64 (int (length p)) = be64 (int (length q))"
    by (metis append_eq_append_conv be64_length)
  then have "int (length p) = int (length q)"
    by (rule be64_inject) (use Cons(2,3) in \<open>simp_all add: qs short_def\<close>)
  then have "p = q" "hashPreimage ps = hashPreimage qs'" using e by simp_all
  then show ?case using Cons(1) [of qs'] Cons(2,3) by (simp add: qs)
qed

end
