(* ===== verification/Rollup_Merkle.thy ===== *)
theory Rollup_Merkle
  imports Rollup_Types
begin

text \<open>
  The Merkle trees of accepted withdrawals (\<open>rollup/withdrawal_tree.go\<close>) and of escape claims
  (\<open>rollup/escape_collateral.go\<close>): their leaves, the construction of the root and of the proofs, and
  the verification of a proof. Byte strings are strings, and the hash function is a parameter.
\<close>

section \<open>Records (types.go, withdrawal\_tree.go)\<close>

record AcceptedWithdrawalRecord =
  aw_WithdrawalID :: string
  aw_BatchID :: i64
  aw_AccountID :: i64
  aw_WalletAddress :: string
  aw_RecipientAddress :: string
  aw_VaultAddress :: string
  aw_Asset :: string
  aw_Amount :: i64
  aw_Lane :: string
  aw_ChainName :: string
  aw_NetworkName :: string
  aw_RequestSequence :: i64
  aw_ClaimID :: string
  aw_ClaimStatus :: string
  aw_ClaimTxHash :: string
  aw_ClaimSubmittedAt :: i64
  aw_ClaimedAt :: i64
  aw_LastError :: string
  aw_LastErrorAt :: i64
  aw_CreatedAt :: i64
  aw_UpdatedAt :: i64

record AcceptedWithdrawalRootRecord =
  wr_BatchID :: i64
  wr_MerkleRoot :: string
  wr_LeafCount :: i64
  wr_CreatedAt :: i64
  wr_UpdatedAt :: i64

record AcceptedWithdrawalLeafRecord =
  wf_BatchID :: i64
  wf_WithdrawalID :: string
  wf_AccountID :: i64
  wf_WalletAddress :: string
  wf_RecipientAddress :: string
  wf_Amount :: i64
  wf_LeafIndex :: i64
  wf_LeafHash :: string
  wf_ProofHashes :: "string list"
  wf_ClaimID :: string
  wf_ClaimStatus :: string
  wf_ClaimTxHash :: string
  wf_ClaimSubmittedAt :: i64
  wf_ClaimedAt :: i64
  wf_LastError :: string
  wf_LastErrorAt :: i64
  wf_CreatedAt :: i64
  wf_UpdatedAt :: i64

record AcceptedBalanceRecord =
  ab_BatchID :: i64
  ab_AccountID :: i64
  ab_Asset :: string
  ab_Available :: i64
  ab_Frozen :: i64
  ab_SequenceNo :: i64
  ab_CreatedAt :: i64
  ab_UpdatedAt :: i64

record AcceptedEscapeCollateralRootRecord =
  er_BatchID :: i64
  er_StateRoot :: string
  er_CollateralAsset :: string
  er_MerkleRoot :: string
  er_LeafCount :: i64
  er_TotalAmount :: i64
  er_AnchorStatus :: string
  er_AnchorTxHash :: string
  er_AnchorSubmittedAt :: i64
  er_AnchoredAt :: i64
  er_LastError :: string
  er_LastErrorAt :: i64
  er_CreatedAt :: i64
  er_UpdatedAt :: i64

record AcceptedEscapeCollateralLeafRecord =
  ef_BatchID :: i64
  ef_AccountID :: i64
  ef_WalletAddress :: string
  ef_CollateralAsset :: string
  ef_ClaimAmount :: i64
  ef_LeafIndex :: i64
  ef_LeafHash :: string
  ef_ProofHashes :: "string list"
  ef_ClaimID :: string
  ef_ClaimStatus :: string
  ef_ClaimTxHash :: string
  ef_ClaimSubmittedAt :: i64
  ef_ClaimedAt :: i64
  ef_LastError :: string
  ef_LastErrorAt :: i64
  ef_CreatedAt :: i64
  ef_UpdatedAt :: i64

record acceptedEscapeLeafInput =
  ei_AccountID :: i64
  ei_WalletAddress :: string
  ei_CollateralAsset :: string
  ei_ClaimAmount :: i64

section \<open>Hexadecimal strings\<close>

definition NormalizeHex :: "string \<Rightarrow> string" where
  "NormalizeHex v = (if TrimSpace v = '''' then '''' else ToLower (TrimSpace v))"

definition normalizeHex32 :: "string \<Rightarrow> string" where
  "normalizeHex32 v =
     (let trimmed = TrimSpace (ToLower v)
      in if trimmed = '''' then '''' else if take 2 trimmed = ''0x'' then trimmed else ''0x'' @ trimmed)"

definition hexValue :: "char \<Rightarrow> nat option" where
  "hexValue c =
     (let n = of_char c :: nat
      in if 48 \<le> n \<and> n \<le> 57 then Some (n - 48)
         else if 97 \<le> n \<and> n \<le> 102 then Some (n - 87)
         else if 65 \<le> n \<and> n \<le> 70 then Some (n - 55)
         else None)"

fun hexDecode :: "string \<Rightarrow> string option" where
  "hexDecode [] = Some []"
| "hexDecode [_] = None"
| "hexDecode (a # b # cs) =
     (case (hexValue a, hexValue b, hexDecode cs) of
        (Some x, Some y, Some bs) \<Rightarrow> Some (char_of (16 * x + y) # bs)
      | _ \<Rightarrow> None)"

definition TrimPrefix0x :: "string \<Rightarrow> string" where
  "TrimPrefix0x s = (if take 2 s = ''0x'' then drop 2 s else s)"

definition decodeHex0x :: "string \<Rightarrow> string option" where
  "decodeHex0x s = hexDecode (TrimPrefix0x (TrimSpace s))"

definition int64ToBytes :: "i64 \<Rightarrow> string" where
  "int64ToBytes v = replicate 24 (CHR 0x00) @ be64 v"

fun DecodeEscapeProofHex :: "string list \<Rightarrow> string list option" where
  "DecodeEscapeProofHex [] = Some []"
| "DecodeEscapeProofHex (item # items) =
     (case (decodeHex0x item, DecodeEscapeProofHex items) of (Some d, Some ds) \<Rightarrow> Some (d # ds) | _ \<Rightarrow> None)"

section \<open>The tree\<close>

text \<open>A level of the tree: the hashes, each with the least index of a leaf below it. The code keeps the two in two slices of equal length.\<close>

type_synonym level = "(string \<times> nat) list"

definition appendProof :: "nat \<Rightarrow> string \<Rightarrow> string list list \<Rightarrow> string list list" where
  "appendProof i h proofs = proofs[i := proofs ! i @ [''0x'' @ hexEncode h]]"

fun pairLevel :: "Codec \<Rightarrow> level \<Rightarrow> string list list \<Rightarrow> level \<times> string list list" where
  "pairLevel cd ((left, leftIndex) # (right, rightIndex) # rest) proofs =
     (let proofs1 = (if leftIndex < length proofs then appendProof leftIndex right proofs else proofs);
          proofs2 = (if rightIndex < length proofs1 \<and> rightIndex \<noteq> leftIndex then appendProof rightIndex left proofs1 else proofs1);
          (nextLevel, proofs3) = pairLevel cd rest proofs2
      in ((keccak256 cd (left @ right), min leftIndex rightIndex) # nextLevel, proofs3))"
| "pairLevel cd _ proofs = ([], proofs)"

definition padLevel :: "level \<Rightarrow> level" where
  "padLevel level = (if length level mod 2 = 1 then level @ [last level] else level)"

lemma pairLevel_length: "length (fst (pairLevel cd level proofs)) = length level div 2"
  by (induction cd level proofs rule: pairLevel.induct) (auto simp: Let_def split: prod.splits)

function merkleLoop :: "Codec \<Rightarrow> level \<Rightarrow> string list list \<Rightarrow> string \<times> string list list" where
  "merkleLoop cd level proofs =
     (if 1 < length level
      then let (nextLevel, proofs1) = pairLevel cd (padLevel level) proofs in merkleLoop cd nextLevel proofs1
      else (fst (hd level), proofs))"
  by auto
termination
proof (relation "measure (\<lambda>(cd, level, proofs). length level)")
  fix cd level proofs x nextLevel proofs1
  assume "1 < length level" and "x = pairLevel cd (padLevel level) proofs" and "(nextLevel, proofs1) = x"
  then have "length nextLevel = length (padLevel level) div 2" by (metis fst_conv pairLevel_length)
  then show "((cd, nextLevel, proofs1), (cd, level, proofs)) \<in> measure (\<lambda>(cd, level, proofs). length level)"
    using \<open>1 < length level\<close> by (auto simp: padLevel_def)
qed simp

declare merkleLoop.simps [simp del]

definition merkleTree :: "Codec \<Rightarrow> string \<Rightarrow> string list \<Rightarrow> string \<times> string list list" where
  "merkleTree cd emptyLabel leaves =
     (if leaves = [] then (keccak256 cd emptyLabel, [])
      else merkleLoop cd (zip leaves [0..<length leaves]) (replicate (length leaves) []))"

definition buildWithdrawalMerkleTree :: "Codec \<Rightarrow> string list \<Rightarrow> string \<times> string list list" where
  "buildWithdrawalMerkleTree cd = merkleTree cd ''funny-rollup-empty-withdrawal-root''"

definition buildAcceptedEscapeMerkleTree :: "Codec \<Rightarrow> string list \<Rightarrow> string \<times> string list list" where
  "buildAcceptedEscapeMerkleTree cd = merkleTree cd ''funny-rollup-empty-escape-collateral-root''"

fun climb :: "Codec \<Rightarrow> string \<Rightarrow> i64 \<Rightarrow> string list \<Rightarrow> string" where
  "climb cd current index [] = current"
| "climb cd current index (sibling # proof) =
     climb cd (if index smod 2 = 0 then keccak256 cd (current @ sibling) else keccak256 cd (sibling @ current)) (index sdiv 2) proof"

definition VerifyAcceptedWithdrawalProof :: "Codec \<Rightarrow> string \<Rightarrow> string \<Rightarrow> string list \<Rightarrow> i64 \<Rightarrow> bool" where
  "VerifyAcceptedWithdrawalProof cd rootHex leafHex proof leafIndex =
     (case (decodeHex0x rootHex, decodeHex0x leafHex, DecodeEscapeProofHex proof) of
        (Some root, Some current, Some decodedProof) \<Rightarrow> climb cd current leafIndex decodedProof = root
      | _ \<Rightarrow> False)"

definition VerifyAcceptedEscapeCollateralProof :: "Codec \<Rightarrow> string \<Rightarrow> string \<Rightarrow> string list \<Rightarrow> i64 \<Rightarrow> bool" where
  "VerifyAcceptedEscapeCollateralProof cd rootHex leafHex proof leafIndex =
     (case (decodeHex0x rootHex, decodeHex0x leafHex, DecodeEscapeProofHex proof) of
        (Some root, Some current, Some decodedProof) \<Rightarrow> climb cd current leafIndex decodedProof = root
      | _ \<Rightarrow> False)"

section \<open>Withdrawal leaves\<close>

definition hashWithdrawalLeaf :: "Codec \<Rightarrow> i64 \<Rightarrow> i64 \<Rightarrow> string \<Rightarrow> string \<Rightarrow> i64 \<Rightarrow> string \<Rightarrow> string" where
  "hashWithdrawalLeaf cd batchID leafIndex withdrawalID walletAddress amount recipientAddress =
     keccak256 cd (''funny-rollup-withdrawal-leaf-v1'' @ be64 batchID @ be64 leafIndex @ keccak256 cd withdrawalID @
       NormalizeHex walletAddress @ int64ToBytes amount @ NormalizeHex recipientAddress)"

definition buildWithdrawalClaimID :: "Codec \<Rightarrow> i64 \<Rightarrow> i64 \<Rightarrow> string \<Rightarrow> string \<Rightarrow> string" where
  "buildWithdrawalClaimID cd batchID leafIndex withdrawalID walletAddress =
     ''0x'' @ hexEncode (keccak256 cd (''funny-rollup-withdrawal-claim-v1'' @ be64 batchID @ be64 leafIndex @ keccak256 cd withdrawalID @
       NormalizeHex walletAddress))"

definition withdrawalLeafRecord :: "Codec \<Rightarrow> i64 \<Rightarrow> i64 \<Rightarrow> AcceptedWithdrawalRecord \<Rightarrow> i64 \<Rightarrow> string \<Rightarrow> AcceptedWithdrawalLeafRecord" where
  "withdrawalLeafRecord cd batchID index w chainAmount leafHash =
     \<lparr>wf_BatchID = batchID, wf_WithdrawalID = aw_WithdrawalID w, wf_AccountID = aw_AccountID w,
      wf_WalletAddress = NormalizeHex (aw_WalletAddress w), wf_RecipientAddress = NormalizeHex (aw_RecipientAddress w), wf_Amount = chainAmount,
      wf_LeafIndex = index, wf_LeafHash = ''0x'' @ hexEncode leafHash, wf_ProofHashes = [],
      wf_ClaimID = buildWithdrawalClaimID cd batchID index (aw_WithdrawalID w) (NormalizeHex (aw_WalletAddress w)),
      wf_ClaimStatus = ''CLAIMABLE'', wf_ClaimTxHash = '''', wf_ClaimSubmittedAt = 0, wf_ClaimedAt = 0, wf_LastError = '''', wf_LastErrorAt = 0,
      wf_CreatedAt = 0, wf_UpdatedAt = 0\<rparr>"

fun withdrawalLeaves :: "Codec \<Rightarrow> i64 \<Rightarrow> i64 \<Rightarrow> AcceptedWithdrawalRecord list \<Rightarrow> asset_error + (string \<times> AcceptedWithdrawalLeafRecord) list" where
  "withdrawalLeaves cd batchID index [] = Inr []"
| "withdrawalLeaves cd batchID index (w # ws) =
     (case AccountingToAssetChainAmount (NormalizeAsset (aw_Asset w)) (aw_Amount w) of
        Inl err \<Rightarrow> Inl err
      | Inr chainAmount \<Rightarrow>
          (case withdrawalLeaves cd batchID (index + 1) ws of
             Inl err \<Rightarrow> Inl err
           | Inr rest \<Rightarrow>
               let leafHash = hashWithdrawalLeaf cd batchID index (aw_WithdrawalID w) (NormalizeHex (aw_WalletAddress w)) chainAmount
                                (NormalizeHex (aw_RecipientAddress w))
               in Inr ((leafHash, withdrawalLeafRecord cd batchID index w chainAmount leafHash) # rest)))"

text \<open>\<open>sort.Slice\<close> orders the withdrawals by their request sequence; the sequences of distinct withdrawals differ, so that the order is determined.\<close>

definition BuildAcceptedWithdrawalMerkleTree ::
    "Codec \<Rightarrow> i64 \<Rightarrow> AcceptedWithdrawalRecord list \<Rightarrow> asset_error + (AcceptedWithdrawalRootRecord \<times> AcceptedWithdrawalLeafRecord list)" where
  "BuildAcceptedWithdrawalMerkleTree cd batchID withdrawals =
     (case withdrawalLeaves cd batchID 0 (sort_key aw_RequestSequence withdrawals) of
        Inl err \<Rightarrow> Inl err
      | Inr items \<Rightarrow>
          let (rootBytes, proofs) = buildWithdrawalMerkleTree cd (map fst items)
          in Inr (\<lparr>wr_BatchID = batchID, wr_MerkleRoot = ''0x'' @ hexEncode rootBytes, wr_LeafCount = int (length items), wr_CreatedAt = 0, wr_UpdatedAt = 0\<rparr>,
                  map2 (\<lambda>leaf proof. leaf\<lparr>wf_ProofHashes := proof\<rparr>) (map snd items) proofs))"

section \<open>Escape claims\<close>

definition hashAcceptedEscapeCollateralLeaf :: "Codec \<Rightarrow> i64 \<Rightarrow> i64 \<Rightarrow> acceptedEscapeLeafInput \<Rightarrow> string" where
  "hashAcceptedEscapeCollateralLeaf cd batchID leafIndex input =
     keccak256 cd (''funny-rollup-escape-collateral-v1'' @ be64 batchID @ be64 leafIndex @
       hexToAddress cd (NormalizeHex (ei_WalletAddress input)) @ int64ToBytes (ei_ClaimAmount input))"

definition buildEscapeCollateralClaimID :: "Codec \<Rightarrow> i64 \<Rightarrow> i64 \<Rightarrow> string \<Rightarrow> i64 \<Rightarrow> string" where
  "buildEscapeCollateralClaimID cd batchID leafIndex walletAddress amount =
     ''0x'' @ hexEncode (keccak256 cd (''funny-rollup-escape-claim-v1'' @ be64 batchID @ be64 leafIndex @
       hexToAddress cd (NormalizeHex walletAddress) @ int64ToBytes amount))"

fun escapeInputs :: "(i64 \<times> string) list \<Rightarrow> AcceptedBalanceRecord list \<Rightarrow> asset_error + acceptedEscapeLeafInput list" where
  "escapeInputs wallets [] = Inr []"
| "escapeInputs wallets (b # bs) =
     (let accountingTotal = wrap64 (ab_Available b + ab_Frozen b);
          walletAddress = NormalizeHex (case map_of wallets (ab_AccountID b) of None \<Rightarrow> '''' | Some w \<Rightarrow> w)
      in if NormalizeAsset (ab_Asset b) \<noteq> DefaultCollateralAsset then escapeInputs wallets bs
         else if accountingTotal \<le> 0 then escapeInputs wallets bs
         else case AccountingToAssetChainAmount DefaultCollateralAsset accountingTotal of
                Inl err \<Rightarrow> Inl err
              | Inr claimAmount \<Rightarrow>
                  if claimAmount \<le> 0 then escapeInputs wallets bs
                  else if walletAddress = '''' then escapeInputs wallets bs
                  else (case escapeInputs wallets bs of
                          Inl err \<Rightarrow> Inl err
                        | Inr rest \<Rightarrow>
                            Inr (\<lparr>ei_AccountID = ab_AccountID b, ei_WalletAddress = walletAddress, ei_CollateralAsset = DefaultCollateralAsset,
                                  ei_ClaimAmount = claimAmount\<rparr> # rest)))"

definition escapeLeafRecord :: "Codec \<Rightarrow> i64 \<Rightarrow> nat \<times> acceptedEscapeLeafInput \<Rightarrow> AcceptedEscapeCollateralLeafRecord" where
  "escapeLeafRecord cd batchID = (\<lambda>(index, input).
     \<lparr>ef_BatchID = batchID, ef_AccountID = ei_AccountID input, ef_WalletAddress = ei_WalletAddress input,
      ef_CollateralAsset = ei_CollateralAsset input, ef_ClaimAmount = ei_ClaimAmount input, ef_LeafIndex = int index,
      ef_LeafHash = ''0x'' @ hexEncode (hashAcceptedEscapeCollateralLeaf cd batchID (int index) input), ef_ProofHashes = [],
      ef_ClaimID = buildEscapeCollateralClaimID cd batchID (int index) (ei_WalletAddress input) (ei_ClaimAmount input),
      ef_ClaimStatus = ''CLAIMABLE'', ef_ClaimTxHash = '''', ef_ClaimSubmittedAt = 0, ef_ClaimedAt = 0, ef_LastError = '''', ef_LastErrorAt = 0,
      ef_CreatedAt = 0, ef_UpdatedAt = 0\<rparr>)"

definition BuildAcceptedEscapeCollateralSnapshot ::
    "Codec \<Rightarrow> i64 \<Rightarrow> string \<Rightarrow> AcceptedBalanceRecord list \<Rightarrow> (i64 \<times> string) list \<Rightarrow>
     asset_error + (AcceptedEscapeCollateralRootRecord \<times> AcceptedEscapeCollateralLeafRecord list)" where
  "BuildAcceptedEscapeCollateralSnapshot cd batchID stateRoot balances walletByAccount =
     (case escapeInputs walletByAccount balances of
        Inl err \<Rightarrow> Inl err
      | Inr unsorted \<Rightarrow>
          let inputs = sort_key ei_AccountID (sort_key ei_WalletAddress unsorted);
              items = zip [0..<length inputs] inputs;
              leafHashes = map (\<lambda>(index, input). hashAcceptedEscapeCollateralLeaf cd batchID (int index) input) items;
              (rootBytes, proofs) = buildAcceptedEscapeMerkleTree cd leafHashes
          in Inr (\<lparr>er_BatchID = batchID, er_StateRoot = normalizeHex32 stateRoot, er_CollateralAsset = DefaultCollateralAsset,
                   er_MerkleRoot = ''0x'' @ hexEncode rootBytes, er_LeafCount = int (length items),
                   er_TotalAmount = fold (\<lambda>input total. wrap64 (total + ei_ClaimAmount input)) inputs 0,
                   er_AnchorStatus = ''READY'', er_AnchorTxHash = '''', er_AnchorSubmittedAt = 0, er_AnchoredAt = 0, er_LastError = '''',
                   er_LastErrorAt = 0, er_CreatedAt = 0, er_UpdatedAt = 0\<rparr>,
                  map2 (\<lambda>leaf proof. leaf\<lparr>ef_ProofHashes := proof\<rparr>) (map (escapeLeafRecord cd batchID) items) proofs))"

section \<open>Hexadecimal round trips\<close>

lemma hexDigit_value [simp]: "d < 16 \<Longrightarrow> hexValue (hexDigit d) = Some d"
  by (auto simp: hexValue_def hexDigit_def Let_def)

lemma of_char_div [simp]: "(of_char c :: nat) div 16 < 16"
  by (rule less_mult_imp_div_less) simp

lemma hexDecode_encode [simp]: "hexDecode (hexEncode bs) = Some bs"
  by (induction bs) (simp_all add: hexEncode_def)

lemma hexDigit_visible: "d < 16 \<Longrightarrow> \<not> is_space (hexDigit d)"
  by (auto simp: is_space_def hexDigit_def)

lemma hexEncode_visible: "c \<in> set (hexEncode bs) \<Longrightarrow> \<not> is_space c"
  using hexDigit_visible by (auto simp: hexEncode_def)

lemma TrimSpace_visible:
  assumes "\<And>c. c \<in> set s \<Longrightarrow> \<not> is_space c"
  shows "TrimSpace s = s"
proof -
  have "dropWhile is_space s = s" "dropWhile is_space (rev s) = rev s"
    using assms by (auto simp: dropWhile_eq_self_iff hd_rev)
  then show ?thesis by (simp add: TrimSpace_def)
qed

lemma decodeHex0x_encode [simp]: "decodeHex0x (CHR ''0'' # CHR ''x'' # hexEncode bs) = Some bs"
proof -
  have "\<not> is_space (CHR ''0'')" "\<not> is_space (CHR ''x'')" by code_simp+
  then have "TrimSpace (CHR ''0'' # CHR ''x'' # hexEncode bs) = CHR ''0'' # CHR ''x'' # hexEncode bs"
    by (intro TrimSpace_visible) (auto dest: hexEncode_visible)
  then show ?thesis by (simp add: decodeHex0x_def TrimPrefix0x_def)
qed

lemma DecodeEscapeProofHex_encode [simp]: "DecodeEscapeProofHex (map (\<lambda>h. CHR ''0'' # CHR ''x'' # hexEncode h) hs) = Some hs"
  by (induction hs) simp_all

section \<open>Which leaves get a complete proof\<close>

abbreviation hash0x :: "string \<Rightarrow> string" where "hash0x h \<equiv> CHR ''0'' # CHR ''x'' # hexEncode h"

lemma appendProof_nth: "i < length proofs \<Longrightarrow> appendProof i h proofs ! k = (if k = i then proofs ! i @ [hash0x h] else proofs ! k)"
  and appendProof_length [simp]: "length (appendProof i h proofs) = length proofs"
  by (simp_all add: appendProof_def)

lemma pairLevel_proofs_length [simp]: "length (snd (pairLevel cd level proofs)) = length proofs"
  by (induction cd level proofs rule: pairLevel.induct) (auto simp: Let_def split: prod.splits)

lemma pairLevel_indexes: "snd ` set (fst (pairLevel cd level proofs)) \<subseteq> snd ` set level"
proof (induction cd level proofs rule: pairLevel.induct)
  case (1 cd l li r ri rest proofs)
  let ?p1 = "if li < length proofs then appendProof li r proofs else proofs"
  let ?p2 = "if ri < length ?p1 \<and> ri \<noteq> li then appendProof ri l ?p1 else ?p1"
  define X where "X = fst (pairLevel cd rest ?p2)"
  have X: "snd ` set X \<subseteq> snd ` set rest" unfolding X_def by (rule 1 [OF refl refl])
  have "fst (pairLevel cd ((l, li) # (r, ri) # rest) proofs) = (keccak256 cd (l @ r), min li ri) # X"
    by (simp only: pairLevel.simps Let_def split_beta fst_conv X_def)
  then show ?case using X by (auto simp: min_def simp del: pairLevel.simps)
qed simp_all

lemma pairLevel_other: "k \<notin> snd ` set level \<Longrightarrow> snd (pairLevel cd level proofs) ! k = proofs ! k"
  by (induction cd level proofs rule: pairLevel.induct) (auto simp: Let_def appendProof_nth split: prod.splits)

lemma set_padLevel: "level \<noteq> [] \<Longrightarrow> set (padLevel level) = set level"
  by (auto simp: padLevel_def)

lemma merkleLoop_proofs_length [simp]: "length (snd (merkleLoop cd level proofs)) = length proofs"
proof (induction cd level proofs rule: merkleLoop.induct)
  case (1 cd level proofs)
  let ?r = "pairLevel cd (padLevel level) proofs"
  show ?case
  proof (cases "1 < length level")
    case True
    have "length (snd (merkleLoop cd (fst ?r) (snd ?r))) = length (snd ?r)" by (rule 1 [OF True refl]) simp
    then show ?thesis using True by (subst merkleLoop.simps) (simp add: split_beta)
  qed (subst merkleLoop.simps, simp)
qed

lemma merkleLoop_other: "k \<notin> snd ` set level \<Longrightarrow> snd (merkleLoop cd level proofs) ! k = proofs ! k"
proof (induction cd level proofs rule: merkleLoop.induct)
  case (1 cd level proofs)
  show ?case
  proof (cases "1 < length level")
    case True
    let ?r = "pairLevel cd (padLevel level) proofs"
    have "level \<noteq> []" using True by auto
    then have "k \<notin> snd ` set (padLevel level)" using 1(2) by (simp add: set_padLevel)
    then have "k \<notin> snd ` set (fst ?r)" "snd ?r ! k = proofs ! k" using pairLevel_indexes [of cd "padLevel level" proofs] pairLevel_other by auto
    moreover have "snd (merkleLoop cd (fst ?r) (snd ?r)) ! k = snd ?r ! k" by (rule 1(1) [OF True refl]) (use calculation in simp_all)
    ultimately show ?thesis using True by (subst merkleLoop.simps) (simp add: split_beta)
  qed (subst merkleLoop.simps, simp)
qed

lemma merkleLoop_first:
  "(\<forall>p\<in>set rest. 0 < snd p) \<Longrightarrow> 0 < length proofs \<Longrightarrow>
    \<exists>hs. snd (merkleLoop cd ((h, 0) # rest) proofs) ! 0 = proofs ! 0 @ map hash0x hs \<and> climb cd h 0 hs = fst (merkleLoop cd ((h, 0) # rest) proofs)"
proof (induction "length rest" arbitrary: h rest proofs rule: less_induct)
  case less
  show ?case
  proof (cases rest)
    case Nil
    then show ?thesis by (intro exI [of _ "[]"]) (simp add: merkleLoop.simps)
  next
    case (Cons p rest1)
    obtain r ri where p: "p = (r, ri)" by (cases p)
    define rest2 where "rest2 = (if length rest mod 2 = 0 then rest1 @ [last rest] else rest1)"
    have pad: "padLevel ((h, 0) # rest) = (h, 0) # (r, ri) # rest2" by (simp add: padLevel_def rest2_def Cons p) presburger
    have ri: "0 < ri" "\<forall>q\<in>set rest2. 0 < snd q" using less(2) by (auto simp: Cons p rest2_def split: if_splits)
    let ?p1 = "appendProof 0 r proofs"
    let ?p2 = "if ri < length ?p1 \<and> ri \<noteq> 0 then appendProof ri h ?p1 else ?p1"
    let ?next = "pairLevel cd rest2 ?p2"
    have pl: "pairLevel cd (padLevel ((h, 0) # rest)) proofs = ((keccak256 cd (h @ r), 0) # fst ?next, snd ?next)"
      using less(3) by (simp add: pad Let_def split_beta)
    have "length (fst ?next) < length rest"
      using pairLevel_length [of cd rest2 ?p2] by (simp add: rest2_def Cons split: if_splits)
    moreover have "\<forall>q\<in>set (fst ?next). 0 < snd q" using pairLevel_indexes [of cd rest2 ?p2] ri(2) by fastforce
    moreover have "0 < length (snd ?next)" using less(3) by (simp del: length_greater_0_conv)
    ultimately obtain hs where hs: "snd (merkleLoop cd ((keccak256 cd (h @ r), 0) # fst ?next) (snd ?next)) ! 0 = snd ?next ! 0 @ map hash0x hs"
        "climb cd (keccak256 cd (h @ r)) 0 hs = fst (merkleLoop cd ((keccak256 cd (h @ r), 0) # fst ?next) (snd ?next))"
      using less(1) by blast
    have "0 \<notin> snd ` set rest2" using ri(2) by force
    then have "snd ?next ! 0 = ?p2 ! 0" by (rule pairLevel_other)
    also have "\<dots> = proofs ! 0 @ [hash0x r]" using less(3) ri(1) by (simp add: appendProof_nth)
    finally have "snd ?next ! 0 = proofs ! 0 @ [hash0x r]" .
    moreover have "merkleLoop cd ((h, 0) # rest) proofs = merkleLoop cd ((keccak256 cd (h @ r), 0) # fst ?next) (snd ?next)"
    proof -
      have "1 < length ((h, 0 :: nat) # rest)" by (simp add: Cons)
      then show ?thesis by (subst merkleLoop.simps) (simp only: if_True pl Let_def prod.case)
    qed
    ultimately show ?thesis using hs by (intro exI [of _ "r # hs"]) simp
  qed
qed

text \<open>
  C40. The Merkle proofs of accepted withdrawals are incomplete. The construction extends a proof only for
  the first leaf of a subtree, so the proof of leaf 0 always verifies, but from three leaves on the
  proof of leaf 1 stops after its sibling: it verifies only if the hash of the first pair happens to
  be the root of the whole tree.
\<close>

theorem withdrawal_proofs_truncated:
  assumes "buildWithdrawalMerkleTree cd leaves = (root, proofs)" and "3 \<le> length leaves"
  shows "VerifyAcceptedWithdrawalProof cd (hash0x root) (hash0x (leaves ! 0)) (proofs ! 0) 0 \<and>
    proofs ! 1 = [hash0x (leaves ! 0)] \<and>
    (VerifyAcceptedWithdrawalProof cd (hash0x root) (hash0x (leaves ! 1)) (proofs ! 1) 1 \<longleftrightarrow> keccak256 cd (leaves ! 0 @ leaves ! 1) = root)"
proof -
  obtain a b c ls where l: "leaves = a # b # c # ls"
    using assms(2) by (metis (no_types) One_nat_def Suc_le_length_iff numeral_3_eq_3)
  let ?n = "length leaves"
  define rest where "rest = zip (c # ls) [2..<?n]"
  have "[0..<?n] = 0 # 1 # [2..<?n]" by (simp add: upt_conv_Cons l numeral_2_eq_2 del: upt_Suc)
  then have lv: "zip leaves [0..<?n] = (a, 0) # (b, 1) # rest" by (simp add: l rest_def del: upt_Suc)
  have idx: "2 \<le> snd p" if "p \<in> set rest" for p
  proof -
    have "snd p \<in> set [2..<?n]" using that unfolding rest_def by (metis prod.collapse set_zip_rightD)
    then show ?thesis by simp
  qed
  have tree: "merkleLoop cd ((a, 0) # (b, 1) # rest) (replicate ?n []) = (root, proofs)"
  proof -
    have "leaves \<noteq> []" by (simp add: l)
    then show ?thesis using assms(1) by (simp only: buildWithdrawalMerkleTree_def merkleTree_def lv if_False)
  qed
  have first: "VerifyAcceptedWithdrawalProof cd (hash0x root) (hash0x (leaves ! 0)) (proofs ! 0) 0"
  proof -
    have "\<forall>p\<in>set ((b, 1) # rest). 0 < snd p" using idx by fastforce
    from merkleLoop_first [OF this, of "replicate ?n []" cd a] tree show ?thesis
      by (auto simp: VerifyAcceptedWithdrawalProof_def l)
  qed
  define rest2 where "rest2 = (if length rest mod 2 = 1 then rest @ [last rest] else rest)"
  have ne: "rest \<noteq> []" by (simp add: rest_def l)
  have "set rest2 = set rest" using ne by (auto simp: rest2_def)
  then have idx2: "2 \<le> snd p" if "p \<in> set rest2" for p using that by (intro idx) simp
  have pad: "padLevel ((a, 0) # (b, 1) # rest) = (a, 0) # (b, 1) # rest2" using ne by (simp add: padLevel_def rest2_def)
  let ?p2 = "appendProof 1 a (appendProof 0 b (replicate ?n []))"
  let ?next = "pairLevel cd rest2 ?p2"
  have "merkleLoop cd ((keccak256 cd (a @ b), 0) # fst ?next) (snd ?next) = (root, proofs)"
    using tree by (subst (asm) merkleLoop.simps) (simp add: pad [unfolded One_nat_def] Let_def split_beta l)
  moreover have out: "1 \<notin> snd ` set rest2" using idx2 by force
  moreover have "1 \<notin> snd ` set ((keccak256 cd (a @ b), 0 :: nat) # fst ?next)" using out pairLevel_indexes [of cd rest2 ?p2] by auto
  ultimately have "proofs ! 1 = ?p2 ! 1" by (metis merkleLoop_other pairLevel_other snd_conv)
  also have "\<dots> = [hash0x a]" by (simp add: appendProof_nth l)
  finally have p1: "proofs ! 1 = [hash0x a]" .
  moreover have "(1 :: int) smod 2 = 1" by code_simp
  ultimately have "VerifyAcceptedWithdrawalProof cd (hash0x root) (hash0x (leaves ! 1)) (proofs ! 1) 1 \<longleftrightarrow> keccak256 cd (a @ b) = root"
    by (simp add: VerifyAcceptedWithdrawalProof_def l)
  then show ?thesis using first p1 by (simp add: l)
qed

text \<open>A tree of three leaves, with an injective function in the place of the hash.\<close>

definition tree_codec :: Codec where
  "tree_codec = \<lparr>dec_Batch = (\<lambda>_. Inl ''''), dec_NonceAdvanced = (\<lambda>_. Inl ''''), dec_TradingKeyAuthorized = (\<lambda>_. Inl ''''),
     dec_OrderAccepted = (\<lambda>_. Inl ''''), dec_OrderCancelled = (\<lambda>_. Inl ''''), dec_TradeMatched = (\<lambda>_. Inl ''''), dec_DepositCredited = (\<lambda>_. Inl ''''),
     dec_WithdrawalRequested = (\<lambda>_. Inl ''''), dec_MarketResolved = (\<lambda>_. Inl ''''), dec_SettlementPayout = (\<lambda>_. Inl ''''),
     enc_Leaf = (\<lambda>_. Inl ''''), enc_Batch = (\<lambda>_. Inl ''''), sha256 = (\<lambda>s. s), keccak256 = (\<lambda>s. CHR ''n'' # s), hexToAddress = (\<lambda>s. s)\<rparr>"

theorem withdrawal_proofs_truncated_witness:
  "\<exists>root proofs. buildWithdrawalMerkleTree tree_codec [''a'', ''b'', ''c''] = (root, proofs) \<and>
    VerifyAcceptedWithdrawalProof tree_codec (hash0x root) (hash0x ''a'') (proofs ! 0) 0 \<and>
    \<not> VerifyAcceptedWithdrawalProof tree_codec (hash0x root) (hash0x ''b'') (proofs ! 1) 1"
proof -
  obtain root proofs where t: "buildWithdrawalMerkleTree tree_codec [''a'', ''b'', ''c''] = (root, proofs)"
    by (cases "buildWithdrawalMerkleTree tree_codec [''a'', ''b'', ''c'']")
  have "fst (buildWithdrawalMerkleTree tree_codec [''a'', ''b'', ''c'']) \<noteq> keccak256 tree_codec (''a'' @ ''b'')" by code_simp
  then have "keccak256 tree_codec (''a'' @ ''b'') \<noteq> root" using t by auto
  then show ?thesis using withdrawal_proofs_truncated [OF t] t by auto
qed

end
