(* ===== verification/Rollup_Replay.thy ===== *)
theory Rollup_Replay
  imports Rollup_Types
begin

text \<open>
  The shadow state of the rollup and its replay from stored batches (\<open>rollup/replay.go\<close>): one
  definition per entry type, the roots of the state, and the two replay loops. An operation returns
  its error, if any, with the state it leaves, because the code changes the maps in place.
\<close>

section \<open>Keys and normalisation\<close>

definition rs_balanceKey :: "i64 \<Rightarrow> string \<Rightarrow> string" where
  "rs_balanceKey accountID asset = itoa accountID @ '':'' @ normU asset"

definition nonceKey :: "i64 \<Rightarrow> string \<Rightarrow> string" where
  "nonceKey accountID authKeyID = itoa accountID @ '':'' @ TrimSpace authKeyID"

definition rs_positionKey :: "i64 \<Rightarrow> i64 \<Rightarrow> string \<Rightarrow> string" where
  "rs_positionKey accountID marketID outcome = itoa accountID @ '':'' @ itoa marketID @ '':'' @ normU outcome"

definition marketFundingKey :: "i64 \<Rightarrow> string" where
  "marketFundingKey marketID = itoa marketID"

definition normalizeScope :: "string \<Rightarrow> string" where
  "normalizeScope scope = (if normU scope = '''' then ''TRADE'' else normU scope)"

definition normalizeStatus :: "string \<Rightarrow> string" where
  "normalizeStatus status = (if normU status = '''' then ''ACTIVE'' else normU status)"

definition reserveAsset :: "OrderAcceptedPayload \<Rightarrow> string" where
  "reserveAsset payload = (if normU (oa_ReserveAsset payload) \<noteq> '''' then normU (oa_ReserveAsset payload) else normU (oa_CollateralAsset payload))"

definition reserveAssetFromCancellation :: "OrderCancelledPayload \<Rightarrow> string" where
  "reserveAssetFromCancellation payload =
     (if normU (ca_ReserveAsset payload) \<noteq> '''' then normU (ca_ReserveAsset payload)
      else if normU (ca_Side payload) = ''SELL'' then PositionAsset (ca_MarketID payload) (ca_Outcome payload)
      else DefaultCollateralAsset)"

definition buyerSellerAccounts :: "TradeMatchedPayload \<Rightarrow> i64 \<times> i64" where
  "buyerSellerAccounts payload =
     (if normU (tp_TakerSide payload) = ''BUY'' then (tp_TakerAccountID payload, tp_MakerAccountID payload)
      else (tp_MakerAccountID payload, tp_TakerAccountID payload))"

definition resolutionRef :: "MarketResolvedPayload \<Rightarrow> string" where
  "resolutionRef payload =
     (let ref = TrimSpace (mp_ResolverRef payload)
      in if ref \<noteq> '''' \<and> TrimSpace (mp_ResolverType payload) \<noteq> '''' then ToUpper (TrimSpace (mp_ResolverType payload)) @ '':'' @ ref
         else if ref \<noteq> '''' then ref
         else ToUpper (TrimSpace (mp_ResolverType payload)))"

datatype rollup_error =
  DecodeError string
| NonceError string
| NonceRegressed i64 string
| WitnessFieldRequired string
| NegativeMultiply
| MultiplyOverflow
| UnknownOrder string
| FillNotPositive
| FillExceedsRemaining string
| NegativeReserveRelease string
| UnsupportedSide string
| ResolutionError string
| PayoutError string
| UnknownPosition string
| PositionExceeded string
| UnsupportedEntryType string
| UnsupportedEncoding string
| InputHashMismatch i64
| PrevStateRootMismatch string string

definition multiply :: "i64 \<Rightarrow> i64 \<Rightarrow> rollup_error + i64" where
  "multiply left right =
     (if left < 0 \<or> right < 0 then Inl NegativeMultiply
      else if left = 0 \<or> right = 0 then Inr 0
      else if MaxInt64 sdiv right < left then Inl MultiplyOverflow
      else Inr (wrap64 (left * right)))"

definition expectedReserveAmount :: "string \<Rightarrow> i64 \<Rightarrow> i64 \<Rightarrow> i64" where
  "expectedReserveAmount side price quantity =
     (if quantity \<le> 0 then 0
      else if normU side = ''SELL'' then quantity
      else case multiply price quantity of Inl _ \<Rightarrow> 0 | Inr value \<Rightarrow> value)"

section \<open>Balances and positions\<close>

definition ss_balanceLeaf :: "i64 \<Rightarrow> string \<Rightarrow> shadowState \<Rightarrow> balanceLeaf" where
  "ss_balanceLeaf accountID asset s =
     (case map_of (ss_balances s) (rs_balanceKey accountID asset) of
        Some l \<Rightarrow> l
      | None \<Rightarrow> \<lparr>bl_AccountID = 0, bl_AssetID = '''', bl_FreeBalance = 0, bl_LockedBalance = 0, bl_LastAppliedSequence = 0\<rparr>)"

definition adjustBalance :: "i64 \<Rightarrow> string \<Rightarrow> i64 \<Rightarrow> i64 \<Rightarrow> i64 \<Rightarrow> shadowState \<Rightarrow> shadowState" where
  "adjustBalance accountID asset freeDelta lockedDelta sequence s =
     (if accountID \<le> 0 then s
      else
        let key = rs_balanceKey accountID asset;
            leaf = ss_balanceLeaf accountID asset s;
            leaf = \<lparr>bl_AccountID = accountID, bl_AssetID = normU asset,
                    bl_FreeBalance = wrap64 (bl_FreeBalance leaf + freeDelta),
                    bl_LockedBalance = wrap64 (bl_LockedBalance leaf + lockedDelta),
                    bl_LastAppliedSequence = sequence\<rparr>
        in if bl_FreeBalance leaf = 0 \<and> bl_LockedBalance leaf = 0 then s\<lparr>ss_balances := AList.delete key (ss_balances s)\<rparr>
           else s\<lparr>ss_balances := AList.update key leaf (ss_balances s)\<rparr>)"

definition adjustPosition :: "i64 \<Rightarrow> i64 \<Rightarrow> string \<Rightarrow> i64 \<Rightarrow> i64 \<Rightarrow> shadowState \<Rightarrow> shadowState" where
  "adjustPosition accountID marketID outcome delta sequence s =
     (if accountID \<le> 0 \<or> delta = 0 then s
      else
        let key = rs_positionKey accountID marketID outcome;
            old = (case map_of (ss_positions s) key of Some l \<Rightarrow> pl_Quantity l | None \<Rightarrow> 0);
            leaf = \<lparr>pl_AccountID = accountID, pl_MarketID = marketID, pl_Outcome = normU outcome, pl_Quantity = wrap64 (old + delta),
                    pl_CostBasis = 0, pl_RealizedPnL = 0, pl_FundingSnapshot = 0, pl_SettlementStatus = ''OPEN'',
                    pl_LastAppliedSequence = sequence\<rparr>
        in if pl_Quantity leaf = 0 then s\<lparr>ss_positions := AList.delete key (ss_positions s)\<rparr>
           else s\<lparr>ss_positions := AList.update key leaf (ss_positions s)\<rparr>)"

section \<open>The entries\<close>

type_synonym replayed = "rollup_error option \<times> shadowState"

definition rs_then :: "replayed \<Rightarrow> (shadowState \<Rightarrow> replayed) \<Rightarrow> replayed" where
  "rs_then r f = (case fst r of Some err \<Rightarrow> r | None \<Rightarrow> f (snd r))"

definition applyNonceAdvanced :: "i64 \<Rightarrow> NonceAdvancedPayload \<Rightarrow> shadowState \<Rightarrow> replayed" where
  "applyNonceAdvanced sequence payload s =
     (let authKeyID = TrimSpace (na_AuthKeyID payload);
          key = nonceKey (na_AccountID payload) authKeyID
      in if na_AccountID payload \<le> 0 then (Some (NonceError ''account_id''), s)
         else if authKeyID = '''' then (Some (NonceError ''auth_key_id''), s)
         else if na_AcceptedNonce payload = 0 then (Some (NonceError ''accepted_nonce''), s)
         else if na_NextNonce payload = 0 \<or> na_NextNonce payload \<noteq> na_AcceptedNonce payload + 1 then (Some (NonceError ''next_nonce''), s)
         else if (case map_of (ss_nonces s) key of None \<Rightarrow> False | Some current \<Rightarrow> na_AcceptedNonce payload < nl_NextNonce current)
         then (Some (NonceRegressed (na_AccountID payload) authKeyID), s)
         else (None, s\<lparr>ss_nonces := AList.update key
                 \<lparr>nl_AccountID = na_AccountID payload, nl_AuthKeyID = authKeyID, nl_NextNonce = na_NextNonce payload,
                  nl_KeyStatus = normalizeStatus (na_KeyStatus payload), nl_Scope = normalizeScope (na_Scope payload),
                  nl_LastAppliedSequence = sequence\<rparr> (ss_nonces s)\<rparr>))"

definition validateTradingKeyAuthorizedPayload :: "TradingKeyAuthorizedPayload \<Rightarrow> rollup_error option" where
  "validateTradingKeyAuthorizedPayload payload =
     (let witness = tk_AuthorizationWitness payload
      in if TrimSpace (tw_TradingKeyID witness) = '''' then Some (WitnessFieldRequired ''trading_key_id'')
         else if TrimSpace (tw_AuthorizationRef witness) = '''' then Some (WitnessFieldRequired ''authorization_ref'')
         else if tw_AccountID witness \<le> 0 then Some (WitnessFieldRequired ''account_id'')
         else if TrimSpace (tw_WalletAddress witness) = '''' then Some (WitnessFieldRequired ''wallet_address'')
         else if tw_ChainID witness \<le> 0 then Some (WitnessFieldRequired ''chain_id'')
         else if TrimSpace (tw_VaultAddress witness) = '''' then Some (WitnessFieldRequired ''vault_address'')
         else if TrimSpace (tw_TradingPublicKey witness) = '''' then Some (WitnessFieldRequired ''trading_public_key'')
         else if TrimSpace (tw_WalletSignature witness) = '''' then Some (WitnessFieldRequired ''wallet_signature'')
         else None)"

definition applyOrderAccepted :: "i64 \<Rightarrow> OrderAcceptedPayload \<Rightarrow> shadowState \<Rightarrow> replayed" where
  "applyOrderAccepted sequence payload s =
     (let asset = reserveAsset payload;
          s1 = adjustBalance (oa_AccountID payload) asset (wrap64 (- oa_ReserveAmount payload)) (oa_ReserveAmount payload) sequence s
      in (None, s1\<lparr>ss_openOrders := AList.update (oa_OrderID payload)
            \<lparr>ol_OrderID = oa_OrderID payload, ol_AccountID = oa_AccountID payload, ol_MarketID = oa_MarketID payload,
             ol_Outcome = normU (oa_Outcome payload), ol_Side = normU (oa_Side payload), ol_Price = oa_Price payload,
             ol_OriginalQuantity = oa_Quantity payload, ol_FilledQuantity = 0, ol_RemainingQuantity = oa_Quantity payload,
             ol_ReserveAsset = asset, ol_ReservedCollateral = oa_ReserveAmount payload, ol_Status = ''OPEN'',
             ol_LastAppliedSequence = sequence\<rparr> (ss_openOrders s1)\<rparr>))"

definition cancelledLeaf :: "OrderCancelledPayload \<Rightarrow> shadowState \<Rightarrow> orderLeaf" where
  "cancelledLeaf payload s =
     (case map_of (ss_openOrders s) (ca_OrderID payload) of
        Some order \<Rightarrow> order
      | None \<Rightarrow>
          let remaining = (if ca_RemainingQuantity payload < 0 then 0 else ca_RemainingQuantity payload)
          in \<lparr>ol_OrderID = ca_OrderID payload, ol_AccountID = ca_AccountID payload, ol_MarketID = ca_MarketID payload,
              ol_Outcome = normU (ca_Outcome payload), ol_Side = normU (ca_Side payload), ol_Price = ca_Price payload,
              ol_OriginalQuantity = 0, ol_FilledQuantity = 0, ol_RemainingQuantity = remaining,
              ol_ReserveAsset = reserveAssetFromCancellation payload,
              ol_ReservedCollateral = expectedReserveAmount (ca_Side payload) (ca_Price payload) remaining,
              ol_Status = '''', ol_LastAppliedSequence = 0\<rparr>)"

definition applyOrderCancelled :: "i64 \<Rightarrow> OrderCancelledPayload \<Rightarrow> shadowState \<Rightarrow> replayed" where
  "applyOrderCancelled sequence payload s =
     (let order = cancelledLeaf payload s;
          s1 = (if 0 < ol_ReservedCollateral order
                then adjustBalance (ol_AccountID order) (ol_ReserveAsset order) (ol_ReservedCollateral order) (- ol_ReservedCollateral order) sequence s
                else s)
      in (None, s1\<lparr>ss_openOrders := AList.delete (ca_OrderID payload) (ss_openOrders s1)\<rparr>))"

text \<open>What a fill takes out of the locked balance of an order: the notional for a purchase, the quantity for a sale.\<close>

definition fillAmount :: "string \<Rightarrow> i64 \<Rightarrow> i64 \<Rightarrow> rollup_error + i64" where
  "fillAmount side executionPrice fillQuantity =
     (if side = ''BUY'' then multiply executionPrice fillQuantity
      else if side = ''SELL'' then Inr fillQuantity
      else Inl (UnsupportedSide side))"

text \<open>After the fill has been taken out, the reserve is cut to what the rest of the order needs and the difference becomes free.\<close>

definition releaseReserve :: "i64 \<Rightarrow> string \<Rightarrow> i64 \<Rightarrow> orderLeaf \<Rightarrow> shadowState \<Rightarrow> replayed" where
  "releaseReserve sequence orderID fillQuantity order s =
     (let expectedReserve = expectedReserveAmount (ol_Side order) (ol_Price order) (wrap64 (ol_RemainingQuantity order - fillQuantity));
          releasedFree = wrap64 (ol_ReservedCollateral order - expectedReserve)
      in if releasedFree < 0 then (Some (NegativeReserveRelease (ol_OrderID order)), s)
         else
           let s1 = (if 0 < releasedFree
                     then adjustBalance (ol_AccountID order) (ol_ReserveAsset order) releasedFree (- releasedFree) sequence s
                     else s);
               order1 = order\<lparr>ol_ReservedCollateral := expectedReserve,
                              ol_FilledQuantity := wrap64 (ol_FilledQuantity order + fillQuantity),
                              ol_RemainingQuantity := wrap64 (ol_RemainingQuantity order - fillQuantity),
                              ol_LastAppliedSequence := sequence\<rparr>
           in if ol_RemainingQuantity order1 = 0
              then (None, s1\<lparr>ss_openOrders := AList.delete orderID (ss_openOrders s1)\<rparr>)
              else (None, s1\<lparr>ss_openOrders := AList.update orderID (order1\<lparr>ol_Status := ''OPEN''\<rparr>) (ss_openOrders s1)\<rparr>))"

definition fillOrder :: "i64 \<Rightarrow> string \<Rightarrow> i64 \<Rightarrow> i64 \<Rightarrow> shadowState \<Rightarrow> replayed" where
  "fillOrder sequence orderID fillQuantity executionPrice s =
     (case map_of (ss_openOrders s) orderID of
        None \<Rightarrow> (Some (UnknownOrder orderID), s)
      | Some order \<Rightarrow>
          if fillQuantity \<le> 0 then (Some FillNotPositive, s)
          else if ol_RemainingQuantity order < fillQuantity then (Some (FillExceedsRemaining orderID), s)
          else
            (case fillAmount (ol_Side order) executionPrice fillQuantity of
               Inl err \<Rightarrow> (Some err, s)
             | Inr amount \<Rightarrow>
                 releaseReserve sequence orderID fillQuantity (order\<lparr>ol_ReservedCollateral := wrap64 (ol_ReservedCollateral order - amount)\<rparr>)
                   (adjustBalance (ol_AccountID order) (ol_ReserveAsset order) 0 (- amount) sequence s)))"

definition creditBuyer :: "i64 \<Rightarrow> TradeMatchedPayload \<Rightarrow> i64 \<Rightarrow> shadowState \<Rightarrow> shadowState" where
  "creditBuyer sequence payload buyer s =
     (if 0 < buyer
      then adjustPosition buyer (tp_MarketID payload) (tp_Outcome payload) (tp_Quantity payload) sequence
             (adjustBalance buyer (PositionAsset (tp_MarketID payload) (tp_Outcome payload)) (tp_Quantity payload) 0 sequence s)
      else s)"

definition creditSeller :: "i64 \<Rightarrow> TradeMatchedPayload \<Rightarrow> i64 \<Rightarrow> i64 \<Rightarrow> shadowState \<Rightarrow> shadowState" where
  "creditSeller sequence payload notional seller s =
     (if 0 < seller
      then adjustPosition seller (tp_MarketID payload) (tp_Outcome payload) (wrap64 (- tp_Quantity payload)) sequence
             (adjustBalance seller (tp_CollateralAsset payload) notional 0 sequence s)
      else s)"

definition creditParties :: "i64 \<Rightarrow> TradeMatchedPayload \<Rightarrow> i64 \<Rightarrow> shadowState \<Rightarrow> replayed" where
  "creditParties sequence payload notional s =
     (None, creditSeller sequence payload notional (snd (buyerSellerAccounts payload))
              (creditBuyer sequence payload (fst (buyerSellerAccounts payload)) s))"

definition fillMaker :: "i64 \<Rightarrow> TradeMatchedPayload \<Rightarrow> i64 \<Rightarrow> shadowState \<Rightarrow> replayed" where
  "fillMaker sequence payload notional s =
     rs_then (fillOrder sequence (tp_MakerOrderID payload) (tp_Quantity payload) (tp_Price payload) s) (creditParties sequence payload notional)"

definition applyTradeMatched :: "i64 \<Rightarrow> TradeMatchedPayload \<Rightarrow> shadowState \<Rightarrow> replayed" where
  "applyTradeMatched sequence payload s =
     (case multiply (tp_Price payload) (tp_Quantity payload) of
        Inl err \<Rightarrow> (Some err, s)
      | Inr notional \<Rightarrow>
          rs_then (fillOrder sequence (tp_TakerOrderID payload) (tp_Quantity payload) (tp_Price payload) s) (fillMaker sequence payload notional))"

definition applyDepositCredited :: "i64 \<Rightarrow> DepositCreditedPayload \<Rightarrow> shadowState \<Rightarrow> replayed" where
  "applyDepositCredited sequence payload s = (None, adjustBalance (dp_AccountID payload) (dp_Asset payload) (dp_Amount payload) 0 sequence s)"

definition applyWithdrawalRequested :: "i64 \<Rightarrow> WithdrawalRequestedPayload \<Rightarrow> shadowState \<Rightarrow> replayed" where
  "applyWithdrawalRequested sequence payload s =
     (let s1 = adjustBalance (wp_AccountID payload) (wp_Asset payload) (wrap64 (- wp_Amount payload)) 0 sequence s
      in (None, s1\<lparr>ss_withdrawals := AList.update (wp_WithdrawalID payload)
            \<lparr>wl_WithdrawalID = wp_WithdrawalID payload, wl_AccountID = wp_AccountID payload, wl_AssetID = normU (wp_Asset payload),
             wl_Amount = wp_Amount payload, wl_Recipient = TrimSpace (wp_RecipientAddress payload), wl_Lane = TrimSpace (wp_Lane payload),
             wl_Status = ''REQUESTED'', wl_Beneficiary = ''USER'', wl_RequestSequence = sequence, wl_ClaimNullifier = ''''\<rparr>
            (ss_withdrawals s1)\<rparr>))"

definition applyMarketResolved :: "i64 \<Rightarrow> MarketResolvedPayload \<Rightarrow> shadowState \<Rightarrow> replayed" where
  "applyMarketResolved sequence payload s =
     (if mp_MarketID payload \<le> 0 then (Some (ResolutionError ''market_id''), s)
      else if normU (mp_ResolvedOutcome payload) = '''' then (Some (ResolutionError ''resolved_outcome''), s)
      else (None, s\<lparr>ss_marketFunding := AList.update (marketFundingKey (mp_MarketID payload))
              \<lparr>fl_MarketID = mp_MarketID payload, fl_CumulativeFundingIndex = 0, fl_LastOracleRef = resolutionRef payload,
               fl_MarketSettlementState = ''RESOLVED'', fl_ResolvedOutcome = normU (mp_ResolvedOutcome payload),
               fl_LastAppliedSequence = sequence\<rparr> (ss_marketFunding s)\<rparr>))"

definition settlePosition :: "i64 \<Rightarrow> i64 \<Rightarrow> i64 \<Rightarrow> string \<Rightarrow> i64 \<Rightarrow> shadowState \<Rightarrow> replayed" where
  "settlePosition sequence accountID marketID outcome settledQuantity s =
     (let key = rs_positionKey accountID marketID outcome
      in case map_of (ss_positions s) key of
           None \<Rightarrow> (Some (UnknownPosition key), s)
         | Some leaf \<Rightarrow>
             if pl_Quantity leaf < settledQuantity then (Some (PositionExceeded key), s)
             else
               let left = wrap64 (pl_Quantity leaf - settledQuantity)
               in if left = 0 then (None, s\<lparr>ss_positions := AList.delete key (ss_positions s)\<rparr>)
                  else if 0 < left
                  then (None, s\<lparr>ss_positions := AList.update key
                          (leaf\<lparr>pl_Quantity := left, pl_LastAppliedSequence := sequence, pl_SettlementStatus := ''PARTIALLY_SETTLED''\<rparr>)
                          (ss_positions s)\<rparr>)
                  else (Some (PositionExceeded key), s))"

definition payoutPosition :: "SettlementPayoutPayload \<Rightarrow> string" where
  "payoutPosition p = (if normU (sp_PositionAsset p) = '''' then PositionAsset (sp_MarketID p) (sp_WinningOutcome p) else normU (sp_PositionAsset p))"

definition payoutAsset :: "SettlementPayoutPayload \<Rightarrow> string" where
  "payoutAsset p = (if normU (sp_PayoutAsset p) = '''' then DefaultCollateralAsset else normU (sp_PayoutAsset p))"

definition payOut :: "i64 \<Rightarrow> SettlementPayoutPayload \<Rightarrow> shadowState \<Rightarrow> replayed" where
  "payOut sequence payload s =
     (None, if 0 < sp_PayoutAmount payload then adjustBalance (sp_AccountID payload) (payoutAsset payload) (sp_PayoutAmount payload) 0 sequence s else s)"

definition applySettlementPayout :: "i64 \<Rightarrow> SettlementPayoutPayload \<Rightarrow> shadowState \<Rightarrow> replayed" where
  "applySettlementPayout sequence payload s =
     (if sp_AccountID payload \<le> 0 then (Some (PayoutError ''account_id''), s)
      else if sp_MarketID payload \<le> 0 then (Some (PayoutError ''market_id''), s)
      else if sp_SettledQuantity payload \<le> 0 then (Some (PayoutError ''settled_quantity''), s)
      else if sp_PayoutAmount payload < 0 then (Some (PayoutError ''payout_amount''), s)
      else if bl_FreeBalance (ss_balanceLeaf (sp_AccountID payload) (payoutPosition payload) s) < sp_SettledQuantity payload
      then (Some (PayoutError ''balance''), s)
      else rs_then
             (settlePosition sequence (sp_AccountID payload) (sp_MarketID payload) (sp_WinningOutcome payload) (sp_SettledQuantity payload)
                (adjustBalance (sp_AccountID payload) (payoutPosition payload) (- sp_SettledQuantity payload) 0 sequence s))
             (payOut sequence payload))"

definition decoded :: "string + 'p \<Rightarrow> ('p \<Rightarrow> shadowState \<Rightarrow> replayed) \<Rightarrow> shadowState \<Rightarrow> replayed" where
  "decoded payload f s = (case payload of Inl err \<Rightarrow> (Some (DecodeError err), s) | Inr p \<Rightarrow> f p s)"

definition ss_apply :: "Codec \<Rightarrow> JournalEntry \<Rightarrow> shadowState \<Rightarrow> replayed" where
  "ss_apply cd ent s =
     (let raw = je_Payload ent; sequence = je_Sequence ent
      in if je_EntryType ent = EntryTypeNonceAdvanced then decoded (dec_NonceAdvanced cd raw) (applyNonceAdvanced sequence) s
         else if je_EntryType ent = EntryTypeTradingKeyAuthorized
         then decoded (dec_TradingKeyAuthorized cd raw) (\<lambda>p s. (validateTradingKeyAuthorizedPayload p, s)) s
         else if je_EntryType ent = EntryTypeOrderAccepted then decoded (dec_OrderAccepted cd raw) (applyOrderAccepted sequence) s
         else if je_EntryType ent = EntryTypeOrderCancelled then decoded (dec_OrderCancelled cd raw) (applyOrderCancelled sequence) s
         else if je_EntryType ent = EntryTypeTradeMatched then decoded (dec_TradeMatched cd raw) (applyTradeMatched sequence) s
         else if je_EntryType ent = EntryTypeDepositCredited then decoded (dec_DepositCredited cd raw) (applyDepositCredited sequence) s
         else if je_EntryType ent = EntryTypeWithdrawalRequested then decoded (dec_WithdrawalRequested cd raw) (applyWithdrawalRequested sequence) s
         else if je_EntryType ent = EntryTypeMarketResolved then decoded (dec_MarketResolved cd raw) (applyMarketResolved sequence) s
         else if je_EntryType ent = EntryTypeSettlementPayout then decoded (dec_SettlementPayout cd raw) (applySettlementPayout sequence) s
         else (Some (UnsupportedEntryType (je_EntryType ent)), s))"

section \<open>Roots\<close>

definition ZeroBalancesRoot :: "Codec \<Rightarrow> string" where
  "ZeroBalancesRoot cd = hashStrings cd [''shadow'', ''balances'', ''empty'']"

definition ZeroNonceRoot :: "Codec \<Rightarrow> string" where
  "ZeroNonceRoot cd = hashStrings cd [''shadow'', ''orders'', ''nonce'', ''empty'']"

definition ZeroOpenOrdersRoot :: "Codec \<Rightarrow> string" where
  "ZeroOpenOrdersRoot cd = hashStrings cd [''shadow'', ''orders'', ''open'', ''empty'']"

definition ZeroMarketFundingRoot :: "Codec \<Rightarrow> string" where
  "ZeroMarketFundingRoot cd = hashStrings cd [''shadow'', ''positions'', ''funding'', ''empty'']"

definition ZeroInsuranceRoot :: "Codec \<Rightarrow> string" where
  "ZeroInsuranceRoot cd = hashStrings cd [''shadow'', ''positions'', ''insurance'', ''empty'']"

definition ZeroWithdrawalsRoot :: "Codec \<Rightarrow> string" where
  "ZeroWithdrawalsRoot cd = hashStrings cd [''shadow'', ''withdrawals'', ''empty'']"

definition ZeroStateRoot :: "Codec \<Rightarrow> string" where
  "ZeroStateRoot cd =
     hashStrings cd [''shadow'', ''state'', ''v1'', ZeroBalancesRoot cd,
       hashStrings cd [''shadow'', ''orders'', ZeroNonceRoot cd, ZeroOpenOrdersRoot cd],
       hashStrings cd [''shadow'', ''positions_funding'', hashStrings cd [''shadow'', ''positions'', ''leafs'', ''empty''],
         ZeroMarketFundingRoot cd, ZeroInsuranceRoot cd],
       ZeroWithdrawalsRoot cd]"

text \<open>The hashes of the leaves in the order of the sorted keys, or the key whose leaf could not be encoded.\<close>

fun leafHashes :: "Codec \<Rightarrow> string \<Rightarrow> (string \<times> leaf) list \<Rightarrow> string list \<Rightarrow> string + string list" where
  "leafHashes cd namespace leaves [] = Inr []"
| "leafHashes cd namespace leaves (key # keys) =
     (case map_of leaves key of
        None \<Rightarrow> Inl key
      | Some value \<Rightarrow>
          (case hashStruct cd namespace key value of
             Inl _ \<Rightarrow> Inl key
           | Inr h \<Rightarrow> (case leafHashes cd namespace leaves keys of Inl k \<Rightarrow> Inl k | Inr hs \<Rightarrow> Inr (h # hs))))"

definition leafRoot :: "Codec \<Rightarrow> string \<Rightarrow> (string \<times> leaf) list \<Rightarrow> string \<Rightarrow> string" where
  "leafRoot cd namespace leaves zero =
     (if leaves = [] then zero
      else case leafHashes cd namespace leaves (sort (map fst leaves)) of
             Inl key \<Rightarrow> hashStrings cd [namespace, ''encode_error'', key]
           | Inr hashes \<Rightarrow> hashStrings cd ([''shadow'', namespace] @ hashes))"

definition nonceLeafRoot :: "Codec \<Rightarrow> (string \<times> leaf) list \<Rightarrow> string" where
  "nonceLeafRoot cd leaves =
     (if leaves = [] then ZeroNonceRoot cd
      else case leafHashes cd ''orders_nonce'' leaves (sort (map fst leaves)) of
             Inl key \<Rightarrow> hashStrings cd [''shadow'', ''orders'', ''nonce'', ''encode_error'', key]
           | Inr hashes \<Rightarrow> hashStrings cd ([''shadow'', ''orders'', ''nonce''] @ hashes))"

definition ss_roots :: "Codec \<Rightarrow> shadowState \<Rightarrow> RootSet" where
  "ss_roots cd s =
     (let balancesRoot = leafRoot cd ''balances'' (map (apsnd BalanceLeaf) (ss_balances s)) (ZeroBalancesRoot cd);
          nonceRoot = nonceLeafRoot cd (map (apsnd NonceLeaf) (ss_nonces s));
          openOrdersRoot = leafRoot cd ''open_orders'' (map (apsnd OrderLeaf) (ss_openOrders s)) (ZeroOpenOrdersRoot cd);
          positionRoot = leafRoot cd ''positions'' (map (apsnd PositionLeaf) (ss_positions s)) (hashStrings cd [''shadow'', ''positions'', ''leafs'', ''empty'']);
          marketFundingRoot = leafRoot cd ''market_funding'' (map (apsnd MarketFundingLeaf) (ss_marketFunding s)) (ZeroMarketFundingRoot cd);
          withdrawalsRoot = leafRoot cd ''withdrawals'' (map (apsnd WithdrawalLeaf) (ss_withdrawals s)) (ZeroWithdrawalsRoot cd);
          ordersRoot = hashStrings cd [''shadow'', ''orders'', nonceRoot, openOrdersRoot];
          positionsFundingRoot = hashStrings cd [''shadow'', ''positions_funding'', positionRoot, marketFundingRoot, ZeroInsuranceRoot cd]
      in \<lparr>rt_BalancesRoot = balancesRoot, rt_OrdersRoot = ordersRoot, rt_PositionsFundingRoot = positionsFundingRoot,
          rt_WithdrawalsRoot = withdrawalsRoot,
          rt_StateRoot = hashStrings cd [''shadow'', ''state'', ''v1'', balancesRoot, ordersRoot, positionsFundingRoot, withdrawalsRoot]\<rparr>)"

section \<open>Batches\<close>

definition EncodeBatchInput :: "Codec \<Rightarrow> JournalEntry list \<Rightarrow> string + (string \<times> string)" where
  "EncodeBatchInput cd entries =
     (case enc_Batch cd \<lparr>bi_EncodingVersion = BatchEncodingVersion, bi_Entries = entries\<rparr> of
        Inl err \<Rightarrow> Inl err
      | Inr inputData \<Rightarrow> Inr (inputData, hashStrings cd [''shadow'', ''batch_input'', inputData]))"

definition DecodeBatchInput :: "Codec \<Rightarrow> string \<Rightarrow> rollup_error + BatchInput" where
  "DecodeBatchInput cd input =
     (case dec_Batch cd input of
        Inl err \<Rightarrow> Inl (DecodeError err)
      | Inr batchInput \<Rightarrow>
          if TrimSpace (bi_EncodingVersion batchInput) \<noteq> BatchEncodingVersion then Inl (UnsupportedEncoding (bi_EncodingVersion batchInput))
          else Inr batchInput)"

fun applyAll :: "Codec \<Rightarrow> JournalEntry list \<Rightarrow> shadowState \<Rightarrow> replayed" where
  "applyAll cd [] s = (None, s)"
| "applyAll cd (e # es) s = rs_then (ss_apply cd e s) (applyAll cd es)"

definition ReplayBatchOnState :: "Codec \<Rightarrow> StoredBatch \<Rightarrow> shadowState \<Rightarrow> (rollup_error + RootSet) \<times> shadowState" where
  "ReplayBatchOnState cd batch s =
     (let currentRoot = rt_StateRoot (ss_roots cd s);
          expectedPrev = (if TrimSpace (sb_PrevStateRoot batch) = '''' then ZeroStateRoot cd else TrimSpace (sb_PrevStateRoot batch))
      in if sb_InputHash batch \<noteq> '''' \<and> hashStrings cd [''shadow'', ''batch_input'', sb_InputData batch] \<noteq> sb_InputHash batch
         then (Inl (InputHashMismatch (sb_BatchID batch)), s)
         else if currentRoot \<noteq> expectedPrev then (Inl (PrevStateRootMismatch currentRoot expectedPrev), s)
         else case DecodeBatchInput cd (sb_InputData batch) of
                Inl err \<Rightarrow> (Inl err, s)
              | Inr input \<Rightarrow>
                  (case applyAll cd (bi_Entries input) s of
                     (Some err, s1) \<Rightarrow> (Inl err, s1)
                   | (None, s1) \<Rightarrow> (Inr (ss_roots cd s1), s1)))"

text \<open>The loop of the replay from the empty state carries the state and the roots computed last.\<close>

fun replayLoop :: "Codec \<Rightarrow> StoredBatch list \<Rightarrow> RootSet \<Rightarrow> shadowState \<Rightarrow> (rollup_error + RootSet) \<times> shadowState" where
  "replayLoop cd [] roots s = (Inr roots, s)"
| "replayLoop cd (batch # batches) roots s =
     (let expectedPrev = (if TrimSpace (sb_PrevStateRoot batch) = '''' then ZeroStateRoot cd else TrimSpace (sb_PrevStateRoot batch))
      in if sb_InputHash batch \<noteq> '''' \<and> hashStrings cd [''shadow'', ''batch_input'', sb_InputData batch] \<noteq> sb_InputHash batch
         then (Inl (InputHashMismatch (sb_BatchID batch)), s)
         else if rt_StateRoot roots \<noteq> expectedPrev then (Inl (PrevStateRootMismatch (rt_StateRoot roots) expectedPrev), s)
         else case DecodeBatchInput cd (sb_InputData batch) of
                Inl err \<Rightarrow> (Inl err, s)
              | Inr input \<Rightarrow>
                  (case applyAll cd (bi_Entries input) s of
                     (Some err, s1) \<Rightarrow> (Inl err, s1)
                   | (None, s1) \<Rightarrow> replayLoop cd batches (ss_roots cd s1) s1))"

definition ReplayStoredBatches :: "Codec \<Rightarrow> StoredBatch list \<Rightarrow> rollup_error + RootSet" where
  "ReplayStoredBatches cd batches = fst (replayLoop cd batches (ss_roots cd emptyState) emptyState)"

end
