(* ===== verification/Rollup_Props.thy ===== *)
theory Rollup_Props
  imports Rollup_Replay
begin

text \<open>
  What the replay of the rollup journal guarantees: it neither creates nor destroys value, it never
  accepts a nonce twice, and replaying batch by batch is the same as replaying from the start.
\<close>

section \<open>Totals of the shadow balances\<close>

definition rs_total :: "string \<Rightarrow> shadowState \<Rightarrow> int" where
  "rs_total a s = entry_sum (\<lambda>_ l. if bl_AssetID l = a then bl_FreeBalance l + bl_LockedBalance l else 0) (ss_balances s)"

definition balances_ok :: "shadowState \<Rightarrow> bool" where
  "balances_ok s \<longleftrightarrow> distinct (map fst (ss_balances s)) \<and>
     (\<forall>u a l. map_of (ss_balances s) (rs_balanceKey u a) = Some l \<longrightarrow> bl_AssetID l = normU a)"

definition adj_flow :: "i64 \<Rightarrow> string \<Rightarrow> int \<Rightarrow> string \<Rightarrow> int" where
  "adj_flow u asset d a = (if 0 < u \<and> a = normU asset then d else 0)"

lemma adj_flow_zero [simp]: "adj_flow u asset 0 = (\<lambda>_. 0)"
  by (simp add: adj_flow_def fun_eq_iff)

text \<open>The totals change by the flow \<open>d\<close>, in the arithmetic of 64-bit integers.\<close>

definition flows :: "shadowState \<Rightarrow> shadowState \<Rightarrow> (string \<Rightarrow> int) \<Rightarrow> bool" where
  "flows s s' d \<longleftrightarrow> balances_ok s' \<and> (\<forall>a. wrap64 (rs_total a s') = wrap64 (rs_total a s + d a))"

lemma rs_balanceKey_inject: "rs_balanceKey u a = rs_balanceKey v b \<longleftrightarrow> u = v \<and> normU a = normU b"
  using itoa_key_inject by (simp add: rs_balanceKey_def)

lemma balances_ok_empty: "balances_ok emptyState"
  by (simp add: balances_ok_def emptyState_def)

lemma rs_total_empty: "rs_total a emptyState = 0"
  by (simp add: rs_total_def emptyState_def)

lemma flows_refl: "balances_ok s \<Longrightarrow> (\<And>a. d a = 0) \<Longrightarrow> flows s s d"
  by (simp add: flows_def)

lemma flows_trans:
  assumes "flows s s1 d" and "flows s1 s2 d'" and "\<And>a. d'' a = d a + d' a"
  shows "flows s s2 d''"
proof -
  have "wrap64 (rs_total a s2) = wrap64 (rs_total a s + d'' a)" for a
  proof -
    have "wrap64 (rs_total a s2) = wrap64 (wrap64 (rs_total a s1) + d' a)" using assms(2) by (simp add: flows_def)
    also have "\<dots> = wrap64 (wrap64 (rs_total a s + d a) + d' a)" using assms(1) by (simp add: flows_def)
    finally show ?thesis by (simp add: assms(3) add.assoc)
  qed
  then show ?thesis using assms(2) by (simp add: flows_def)
qed

lemma flows_frame: "flows s s' d \<Longrightarrow> ss_balances s'' = ss_balances s' \<Longrightarrow> flows s s'' d"
  by (simp add: flows_def balances_ok_def rs_total_def)

lemma adjustBalance_flow:
  assumes "balances_ok s"
  shows "flows s (adjustBalance u asset f l q s) (adj_flow u asset (f + l))"
proof (cases "0 < u")
  case False
  then show ?thesis using assms by (simp add: adjustBalance_def adj_flow_def flows_refl)
next
  case True
  let ?k = "rs_balanceKey u asset" and ?old = "ss_balanceLeaf u asset s"
  let ?g = "\<lambda>a _ l. if bl_AssetID l = a then bl_FreeBalance l + bl_LockedBalance l else 0 :: int"
  define new where "new = \<lparr>bl_AccountID = u, bl_AssetID = normU asset, bl_FreeBalance = wrap64 (bl_FreeBalance ?old + f),
      bl_LockedBalance = wrap64 (bl_LockedBalance ?old + l), bl_LastAppliedSequence = q\<rparr>"
  let ?b = "if bl_FreeBalance new = 0 \<and> bl_LockedBalance new = 0 then AList.delete ?k (ss_balances s)
      else AList.update ?k new (ss_balances s)"
  have dist: "distinct (map fst (ss_balances s))"
    and asset: "\<And>u a l. map_of (ss_balances s) (rs_balanceKey u a) = Some l \<Longrightarrow> bl_AssetID l = normU a"
    using assms by (simp_all add: balances_ok_def)
  have adj: "adjustBalance u asset f l q s = s\<lparr>ss_balances := ?b\<rparr>"
    using True by (simp add: adjustBalance_def new_def Let_def)
  have old: "entry (?g a) ?k (map_of (ss_balances s) ?k) = (if a = normU asset then bl_FreeBalance ?old + bl_LockedBalance ?old else 0)" for a
    using asset [of u asset] by (auto simp: ss_balanceLeaf_def split: option.splits)
  have "entry_sum (?g a) ?b = entry_sum (?g a) (ss_balances s) - entry (?g a) ?k (map_of (ss_balances s) ?k) +
      (if a = normU asset then bl_FreeBalance new + bl_LockedBalance new else 0)" for a
    using dist by (auto simp: map_simps new_def)
  then have "rs_total a (s\<lparr>ss_balances := ?b\<rparr>) = rs_total a s +
      (if a = normU asset then bl_FreeBalance new + bl_LockedBalance new - (bl_FreeBalance ?old + bl_LockedBalance ?old) else 0)" for a
    unfolding rs_total_def old by simp
  moreover have "wrap64 (t + (bl_FreeBalance new + bl_LockedBalance new - (bl_FreeBalance ?old + bl_LockedBalance ?old))) = wrap64 (t + (f + l))" for t
  proof -
    have "t + (bl_FreeBalance new + bl_LockedBalance new - (bl_FreeBalance ?old + bl_LockedBalance ?old)) =
        wrap64 (bl_FreeBalance ?old + f) + (wrap64 (bl_LockedBalance ?old + l) + (t - (bl_FreeBalance ?old + bl_LockedBalance ?old)))"
      by (simp add: new_def)
    also have "wrap64 \<dots> = wrap64 (wrap64 (bl_LockedBalance ?old + l) + (bl_FreeBalance ?old + f + (t - (bl_FreeBalance ?old + bl_LockedBalance ?old))))"
      by (simp add: add.left_commute)
    also have "\<dots> = wrap64 (t + (f + l))" by (simp only: wrap64_wrap64_add) (simp add: algebra_simps)
    finally show ?thesis .
  qed
  moreover have "balances_ok (s\<lparr>ss_balances := ?b\<rparr>)"
    using dist asset by (auto simp: balances_ok_def map_simps new_def rs_balanceKey_inject simp del: map_of_eq_Some_iff split: if_splits)
  ultimately show ?thesis using True by (simp add: adj flows_def adj_flow_def)
qed

lemma adjustBalance_frame [simp]:
  "ss_openOrders (adjustBalance u a f l q s) = ss_openOrders s" "ss_nonces (adjustBalance u a f l q s) = ss_nonces s"
  "ss_positions (adjustBalance u a f l q s) = ss_positions s"
  by (simp_all add: adjustBalance_def Let_def)

lemma adjustPosition_frame [simp]:
  "ss_balances (adjustPosition u m x d q s) = ss_balances s" "ss_nonces (adjustPosition u m x d q s) = ss_nonces s"
  "ss_openOrders (adjustPosition u m x d q s) = ss_openOrders s"
  by (simp_all add: adjustPosition_def Let_def)

lemma rs_then_None: "rs_then r f = (None, s') \<longleftrightarrow> fst r = None \<and> f (snd r) = (None, s')"
  by (cases r; cases "fst r") (auto simp: rs_then_def)

section \<open>The flow of each entry\<close>

lemma releaseReserve_flow:
  assumes ok: "balances_ok s" and run: "releaseReserve q i n order s = (None, s')"
  shows "flows s s' (\<lambda>_. 0) \<and> (\<forall>j. j \<noteq> i \<longrightarrow> map_of (ss_openOrders s') j = map_of (ss_openOrders s) j)"
proof -
  let ?u = "ol_AccountID order" and ?a = "ol_ReserveAsset order"
  define r where "r = wrap64 (ol_ReservedCollateral order -
      expectedReserveAmount (ol_Side order) (ol_Price order) (wrap64 (ol_RemainingQuantity order - n)))"
  let ?s1 = "if 0 < r then adjustBalance ?u ?a r (- r) q s else s"
  have f: "flows s ?s1 (\<lambda>_. 0)" using adjustBalance_flow [OF ok, of ?u ?a r "- r" q] ok by (simp add: flows_refl)
  have "ss_balances s' = ss_balances ?s1 \<and> (\<forall>j. j \<noteq> i \<longrightarrow> map_of (ss_openOrders s') j = map_of (ss_openOrders s) j)"
    using run unfolding releaseReserve_def Let_def r_def [symmetric] by (auto simp: map_simps split: if_splits)
  then show ?thesis using flows_frame [OF f] by blast
qed

lemma fillOrder_flow:
  assumes ok: "balances_ok s" and run: "fillOrder q i n p s = (None, s')"
  obtains order amount where "map_of (ss_openOrders s) i = Some order" and "fillAmount (ol_Side order) p n = Inr amount"
    and "flows s s' (adj_flow (ol_AccountID order) (ol_ReserveAsset order) (- amount))"
    and "\<And>j. j \<noteq> i \<Longrightarrow> map_of (ss_openOrders s') j = map_of (ss_openOrders s) j"
proof -
  obtain order where order: "map_of (ss_openOrders s) i = Some order"
    using run by (auto simp: fillOrder_def split: option.splits if_splits)
  obtain amount where amount: "fillAmount (ol_Side order) p n = Inr amount"
    using run order by (auto simp: fillOrder_def split: if_splits sum.splits)
  let ?u = "ol_AccountID order" and ?a = "ol_ReserveAsset order"
  let ?s1 = "adjustBalance ?u ?a 0 (- amount) q s"
  have 1: "flows s ?s1 (adj_flow ?u ?a (- amount))" using adjustBalance_flow [OF ok, of ?u ?a 0 "- amount" q] by simp
  then have ok1: "balances_ok ?s1" by (simp add: flows_def)
  have "releaseReserve q i n (order\<lparr>ol_ReservedCollateral := wrap64 (ol_ReservedCollateral order - amount)\<rparr>) ?s1 = (None, s')"
    using run order amount by (auto simp: fillOrder_def split: if_splits)
  note 2 = releaseReserve_flow [OF ok1 this]
  have "flows s s' (adj_flow ?u ?a (- amount))" by (rule flows_trans [OF 1]) (use 2 in auto)
  then show ?thesis using that [OF order amount] 2 by simp
qed

lemma credit_flow:
  assumes "balances_ok s"
  shows "flows s (creditBuyer q p u s) (adj_flow u (PositionAsset (tp_MarketID p) (tp_Outcome p)) (tp_Quantity p))"
    and "flows s (creditSeller q p n u s) (adj_flow u (tp_CollateralAsset p) n)"
  using adjustBalance_flow [OF assms, of u "PositionAsset (tp_MarketID p) (tp_Outcome p)" "tp_Quantity p" 0 q]
    adjustBalance_flow [OF assms, of u "tp_CollateralAsset p" n 0 q] assms
  by (auto simp: creditBuyer_def creditSeller_def flows_frame flows_refl adj_flow_def)

definition trade_agrees :: "TradeMatchedPayload \<Rightarrow> shadowState \<Rightarrow> bool" where
  "trade_agrees p s \<longleftrightarrow>
     (case (map_of (ss_openOrders s) (tp_TakerOrderID p), map_of (ss_openOrders s) (tp_MakerOrderID p)) of
        (Some taker, Some maker) \<Rightarrow>
          let (b, sl) = (if normU (tp_TakerSide p) = ''BUY'' then (taker, maker) else (maker, taker))
          in tp_TakerOrderID p \<noteq> tp_MakerOrderID p \<and> ol_Side b = ''BUY'' \<and> ol_Side sl = ''SELL'' \<and>
             normU (ol_ReserveAsset b) = normU (tp_CollateralAsset p) \<and>
             normU (ol_ReserveAsset sl) = normU (PositionAsset (tp_MarketID p) (tp_Outcome p)) \<and>
             0 < ol_AccountID b \<and> 0 < ol_AccountID sl \<and> 0 < tp_TakerAccountID p \<and> 0 < tp_MakerAccountID p
      | _ \<Rightarrow> False)"

lemma applyTradeMatched_flow:
  assumes ok: "balances_ok s" and run: "applyTradeMatched q p s = (None, s')" and agree: "trade_agrees p s"
  shows "flows s s' (\<lambda>_. 0)"
proof -
  let ?buyer = "fst (buyerSellerAccounts p)" and ?seller = "snd (buyerSellerAccounts p)" and ?pa = "PositionAsset (tp_MarketID p) (tp_Outcome p)"
  obtain notional where mult: "multiply (tp_Price p) (tp_Quantity p) = Inr notional"
    using run by (auto simp: applyTradeMatched_def split: sum.splits)
  obtain s1 s2 where t: "fillOrder q (tp_TakerOrderID p) (tp_Quantity p) (tp_Price p) s = (None, s1)"
      and m: "fillOrder q (tp_MakerOrderID p) (tp_Quantity p) (tp_Price p) s1 = (None, s2)"
      and s': "s' = creditSeller q p notional ?seller (creditBuyer q p ?buyer s2)"
  proof -
    let ?t = "fillOrder q (tp_TakerOrderID p) (tp_Quantity p) (tp_Price p) s"
    let ?m = "fillOrder q (tp_MakerOrderID p) (tp_Quantity p) (tp_Price p) (snd ?t)"
    have "fst ?t = None" "fst ?m = None" "s' = creditSeller q p notional ?seller (creditBuyer q p ?buyer (snd ?m))"
      using run mult by (simp_all add: applyTradeMatched_def fillMaker_def creditParties_def rs_then_None)
    then show ?thesis using that [of "snd ?t" "snd ?m"] by (simp add: prod_eq_iff)
  qed
  obtain taker x where T: "map_of (ss_openOrders s) (tp_TakerOrderID p) = Some taker" "fillAmount (ol_Side taker) (tp_Price p) (tp_Quantity p) = Inr x"
      "flows s s1 (adj_flow (ol_AccountID taker) (ol_ReserveAsset taker) (- x))"
      "\<And>j. j \<noteq> tp_TakerOrderID p \<Longrightarrow> map_of (ss_openOrders s1) j = map_of (ss_openOrders s) j"
    by (rule fillOrder_flow [OF ok t]) blast
  have ok1: "balances_ok s1" using T(3) by (simp add: flows_def)
  obtain maker y where M: "map_of (ss_openOrders s1) (tp_MakerOrderID p) = Some maker" "fillAmount (ol_Side maker) (tp_Price p) (tp_Quantity p) = Inr y"
      "flows s1 s2 (adj_flow (ol_AccountID maker) (ol_ReserveAsset maker) (- y))"
    by (rule fillOrder_flow [OF ok1 m]) blast
  have acc: "0 < ?buyer" "0 < ?seller" "tp_TakerOrderID p \<noteq> tp_MakerOrderID p"
    using agree T(1) by (auto simp: trade_agrees_def buyerSellerAccounts_def split: if_splits option.splits)
  have maker: "map_of (ss_openOrders s) (tp_MakerOrderID p) = Some maker" using M(1) T(4) acc(3) by metis
  have f2: "flows s s2 (\<lambda>a. adj_flow (ol_AccountID taker) (ol_ReserveAsset taker) (- x) a + adj_flow (ol_AccountID maker) (ol_ReserveAsset maker) (- y) a)"
    by (rule flows_trans [OF T(3) M(3)]) simp
  then have f3: "flows s2 (creditBuyer q p ?buyer s2) (adj_flow ?buyer ?pa (tp_Quantity p))" by (intro credit_flow) (simp add: flows_def)
  then have f4: "flows (creditBuyer q p ?buyer s2) s' (adj_flow ?seller (tp_CollateralAsset p) notional)"
    unfolding s' by (intro credit_flow) (simp add: flows_def)
  have sides: "(ol_Side taker = ''BUY'' \<and> x = notional \<and> ol_Side maker = ''SELL'' \<and> y = tp_Quantity p) \<or>
      (ol_Side taker = ''SELL'' \<and> x = tp_Quantity p \<and> ol_Side maker = ''BUY'' \<and> y = notional)"
    using agree T(1,2) M(2) maker mult by (auto simp: trade_agrees_def fillAmount_def split: if_splits)
  have zero: "adj_flow (ol_AccountID taker) (ol_ReserveAsset taker) (- x) a + adj_flow (ol_AccountID maker) (ol_ReserveAsset maker) (- y) a +
      adj_flow ?buyer ?pa (tp_Quantity p) a + adj_flow ?seller (tp_CollateralAsset p) notional a = 0" for a
    using sides agree T(1) maker acc by (auto simp: trade_agrees_def adj_flow_def split: if_splits)
  show ?thesis by (rule flows_trans [OF flows_trans [OF f2 f3 refl] f4]) (simp add: zero)
qed

lemma applyOrder_flow:
  assumes "balances_ok s"
  shows "flows s (snd (applyOrderAccepted q p s)) (\<lambda>_. 0) \<and> ss_nonces (snd (applyOrderAccepted q p s)) = ss_nonces s"
    and "flows s (snd (applyOrderCancelled q c s)) (\<lambda>_. 0) \<and> ss_nonces (snd (applyOrderCancelled q c s)) = ss_nonces s"
proof -
  let ?r = "oa_ReserveAmount p"
  let ?s1 = "adjustBalance (oa_AccountID p) (reserveAsset p) (wrap64 (- ?r)) ?r q s"
  have f: "flows s ?s1 (adj_flow (oa_AccountID p) (reserveAsset p) (wrap64 (- ?r) + ?r))" by (rule adjustBalance_flow [OF assms])
  have "wrap64 (t + (wrap64 (- ?r) + ?r)) = wrap64 t" for t
    using wrap64_add_wrap64 [of "t + ?r" "- ?r"] by (simp add: algebra_simps)
  then have "flows s ?s1 (\<lambda>_. 0)" using f by (auto simp: flows_def adj_flow_def)
  then show "flows s (snd (applyOrderAccepted q p s)) (\<lambda>_. 0) \<and> ss_nonces (snd (applyOrderAccepted q p s)) = ss_nonces s"
    by (simp add: applyOrderAccepted_def Let_def flows_frame)
  let ?o = "cancelledLeaf c s"
  have "flows s (adjustBalance (ol_AccountID ?o) (ol_ReserveAsset ?o) (ol_ReservedCollateral ?o) (- ol_ReservedCollateral ?o) q s) (\<lambda>_. 0)"
    using adjustBalance_flow [OF assms, of "ol_AccountID ?o" "ol_ReserveAsset ?o" "ol_ReservedCollateral ?o" "- ol_ReservedCollateral ?o" q] by simp
  then show "flows s (snd (applyOrderCancelled q c s)) (\<lambda>_. 0) \<and> ss_nonces (snd (applyOrderCancelled q c s)) = ss_nonces s"
    using flows_frame [OF flows_refl [OF assms, of "\<lambda>_. 0"]] by (simp add: applyOrderCancelled_def Let_def flows_frame)
qed

lemma settlePosition_frame:
  "ss_balances (snd (settlePosition q u m x n s)) = ss_balances s" "ss_nonces (snd (settlePosition q u m x n s)) = ss_nonces s"
  by (simp_all add: settlePosition_def Let_def split: option.splits)

lemma applySettlementPayout_flow:
  assumes ok: "balances_ok s" and run: "applySettlementPayout q p s = (None, s')"
  shows "flows s s' (\<lambda>a. adj_flow (sp_AccountID p) (payoutPosition p) (- sp_SettledQuantity p) a +
    adj_flow (sp_AccountID p) (payoutAsset p) (sp_PayoutAmount p) a) \<and> ss_nonces s' = ss_nonces s"
proof -
  let ?u = "sp_AccountID p"
  let ?s1 = "adjustBalance ?u (payoutPosition p) (- sp_SettledQuantity p) 0 q s"
  let ?r = "settlePosition q ?u (sp_MarketID p) (sp_WinningOutcome p) (sp_SettledQuantity p) ?s1"
  let ?s3 = "if 0 < sp_PayoutAmount p then adjustBalance ?u (payoutAsset p) (sp_PayoutAmount p) 0 q (snd ?r) else snd ?r"
  have s': "s' = ?s3" "0 \<le> sp_PayoutAmount p"
    using run by (auto simp: applySettlementPayout_def rs_then_def payOut_def split: if_splits option.splits)
  have 1: "flows s ?s1 (adj_flow ?u (payoutPosition p) (- sp_SettledQuantity p))"
    using adjustBalance_flow [OF ok, of ?u "payoutPosition p" "- sp_SettledQuantity p" 0 q] by simp
  then have 2: "flows s (snd ?r) (adj_flow ?u (payoutPosition p) (- sp_SettledQuantity p))"
    by (rule flows_frame) (simp add: settlePosition_frame)
  then have "balances_ok (snd ?r)" by (simp add: flows_def)
  then have 3: "flows (snd ?r) ?s3 (adj_flow ?u (payoutAsset p) (sp_PayoutAmount p))"
    using adjustBalance_flow [of "snd ?r" ?u "payoutAsset p" "sp_PayoutAmount p" 0 q] s'(2) by (auto simp: flows_refl adj_flow_def)
  have "flows s ?s3 (\<lambda>a. adj_flow ?u (payoutPosition p) (- sp_SettledQuantity p) a + adj_flow ?u (payoutAsset p) (sp_PayoutAmount p) a)"
    by (rule flows_trans [OF 2 3 refl])
  then show ?thesis using s'(1) by (simp add: settlePosition_frame)
qed

section \<open>The flow of a journal\<close>

text \<open>What enters and leaves through an entry: deposits, withdrawals, and payouts against settled positions.\<close>

definition entryFlow :: "Codec \<Rightarrow> JournalEntry \<Rightarrow> string \<Rightarrow> int" where
  "entryFlow cd e a =
     (if je_EntryType e = EntryTypeDepositCredited
      then (case dec_DepositCredited cd (je_Payload e) of Inr p \<Rightarrow> adj_flow (dp_AccountID p) (dp_Asset p) (dp_Amount p) a | Inl _ \<Rightarrow> 0)
      else if je_EntryType e = EntryTypeWithdrawalRequested
      then (case dec_WithdrawalRequested cd (je_Payload e) of Inr p \<Rightarrow> adj_flow (wp_AccountID p) (wp_Asset p) (- wp_Amount p) a | Inl _ \<Rightarrow> 0)
      else if je_EntryType e = EntryTypeSettlementPayout
      then (case dec_SettlementPayout cd (je_Payload e) of
              Inr p \<Rightarrow> adj_flow (sp_AccountID p) (payoutAsset p) (sp_PayoutAmount p) a -
                       adj_flow (sp_AccountID p) (payoutPosition p) (sp_SettledQuantity p) a
            | Inl _ \<Rightarrow> 0)
      else 0)"

definition entry_agrees :: "Codec \<Rightarrow> JournalEntry \<Rightarrow> shadowState \<Rightarrow> bool" where
  "entry_agrees cd e s \<longleftrightarrow>
     (if je_EntryType e = EntryTypeTradeMatched
      then (case dec_TradeMatched cd (je_Payload e) of Inr p \<Rightarrow> trade_agrees p s | Inl _ \<Rightarrow> False) else True)"

fun trades_agree :: "Codec \<Rightarrow> JournalEntry list \<Rightarrow> shadowState \<Rightarrow> bool" where
  "trades_agree cd [] s = True"
| "trades_agree cd (e # es) s \<longleftrightarrow> entry_agrees cd e s \<and> trades_agree cd es (snd (ss_apply cd e s))"

lemma ss_apply_flow:
  assumes ok: "balances_ok s" and run: "ss_apply cd e s = (None, s')" and agree: "entry_agrees cd e s"
  shows "flows s s' (entryFlow cd e)"
proof -
  consider "je_EntryType e = EntryTypeNonceAdvanced" | "je_EntryType e = EntryTypeTradingKeyAuthorized"
    | "je_EntryType e = EntryTypeOrderAccepted" | "je_EntryType e = EntryTypeOrderCancelled" | "je_EntryType e = EntryTypeTradeMatched"
    | "je_EntryType e = EntryTypeDepositCredited" | "je_EntryType e = EntryTypeWithdrawalRequested"
    | "je_EntryType e = EntryTypeMarketResolved" | "je_EntryType e = EntryTypeSettlementPayout"
    using run by (auto simp: ss_apply_def Let_def split: if_splits)
  then show ?thesis
  proof cases
    case 1
    then have "ss_balances s' = ss_balances s" "entryFlow cd e = (\<lambda>_. 0)"
      using run by (auto simp: ss_apply_def decoded_def applyNonceAdvanced_def Let_def entryFlow_def fun_eq_iff split: sum.splits if_splits)
    then show ?thesis using flows_frame [OF flows_refl [OF ok, of "\<lambda>_. 0"]] by simp
  next
    case 2
    then have "s' = s" "entryFlow cd e = (\<lambda>_. 0)"
      using run by (auto simp: ss_apply_def decoded_def entryFlow_def fun_eq_iff split: sum.splits)
    then show ?thesis using flows_refl [OF ok] by simp
  next
    case 3
    then obtain p where p: "applyOrderAccepted (je_Sequence e) p s = (None, s')" "entryFlow cd e = (\<lambda>_. 0)"
      using run by (auto simp: ss_apply_def decoded_def entryFlow_def fun_eq_iff split: sum.splits)
    then show ?thesis using applyOrder_flow(1) [OF ok, of "je_Sequence e" p] by simp
  next
    case 4
    then obtain p where p: "applyOrderCancelled (je_Sequence e) p s = (None, s')" "entryFlow cd e = (\<lambda>_. 0)"
      using run by (auto simp: ss_apply_def decoded_def entryFlow_def fun_eq_iff split: sum.splits)
    then show ?thesis using applyOrder_flow(2) [OF ok, of "je_Sequence e" p] by simp
  next
    case 5
    then obtain p where "applyTradeMatched (je_Sequence e) p s = (None, s')" "trade_agrees p s" "entryFlow cd e = (\<lambda>_. 0)"
      using run agree by (auto simp: ss_apply_def decoded_def entryFlow_def entry_agrees_def fun_eq_iff split: sum.splits)
    then show ?thesis using applyTradeMatched_flow [OF ok] by simp
  next
    case 6
    then obtain p where d: "dec_DepositCredited cd (je_Payload e) = Inr p"
      using run by (auto simp: ss_apply_def decoded_def split: sum.splits)
    have p: "s' = adjustBalance (dp_AccountID p) (dp_Asset p) (dp_Amount p) 0 (je_Sequence e) s"
        "entryFlow cd e = adj_flow (dp_AccountID p) (dp_Asset p) (dp_Amount p)"
      using run 6 d by (simp_all add: ss_apply_def decoded_def applyDepositCredited_def entryFlow_def fun_eq_iff)
    show ?thesis using adjustBalance_flow [OF ok, of "dp_AccountID p" "dp_Asset p" "dp_Amount p" 0 "je_Sequence e"] by (simp add: p)
  next
    case 7
    then obtain p where d: "dec_WithdrawalRequested cd (je_Payload e) = Inr p"
      using run by (auto simp: ss_apply_def decoded_def split: sum.splits)
    have p: "ss_balances s' = ss_balances (adjustBalance (wp_AccountID p) (wp_Asset p) (wrap64 (- wp_Amount p)) 0 (je_Sequence e) s)"
        "entryFlow cd e = adj_flow (wp_AccountID p) (wp_Asset p) (- wp_Amount p)"
      using run 7 d by (auto simp: ss_apply_def decoded_def applyWithdrawalRequested_def Let_def entryFlow_def fun_eq_iff)
    have "flows s (adjustBalance (wp_AccountID p) (wp_Asset p) (wrap64 (- wp_Amount p)) 0 (je_Sequence e) s)
        (adj_flow (wp_AccountID p) (wp_Asset p) (- wp_Amount p))"
      using adjustBalance_flow [OF ok, of "wp_AccountID p" "wp_Asset p" "wrap64 (- wp_Amount p)" 0 "je_Sequence e"]
      by (auto simp: flows_def adj_flow_def)
    then show ?thesis using flows_frame p by metis
  next
    case 8
    then have "ss_balances s' = ss_balances s" "entryFlow cd e = (\<lambda>_. 0)"
      using run by (auto simp: ss_apply_def decoded_def applyMarketResolved_def entryFlow_def fun_eq_iff split: sum.splits if_splits)
    then show ?thesis using flows_frame [OF flows_refl [OF ok, of "\<lambda>_. 0"]] by simp
  next
    case 9
    then obtain p where p: "applySettlementPayout (je_Sequence e) p s = (None, s')" "dec_SettlementPayout cd (je_Payload e) = Inr p"
      using run by (auto simp: ss_apply_def decoded_def split: sum.splits)
    have "entryFlow cd e = (\<lambda>a. adj_flow (sp_AccountID p) (payoutPosition p) (- sp_SettledQuantity p) a +
        adj_flow (sp_AccountID p) (payoutAsset p) (sp_PayoutAmount p) a)"
      using 9 p(2) by (simp add: entryFlow_def fun_eq_iff adj_flow_def)
    then show ?thesis using applySettlementPayout_flow [OF ok p(1)] by simp
  qed
qed

lemma applyAll_flow:
  "balances_ok s \<Longrightarrow> applyAll cd es s = (None, s') \<Longrightarrow> trades_agree cd es s \<Longrightarrow> flows s s' (\<lambda>a. \<Sum>e\<leftarrow>es. entryFlow cd e a)"
proof (induction es arbitrary: s)
  case Nil
  then show ?case by (simp add: flows_refl)
next
  case (Cons e es)
  obtain s1 where s1: "ss_apply cd e s = (None, s1)" "applyAll cd es s1 = (None, s')"
    using Cons(3) by (cases "ss_apply cd e s") (auto simp: rs_then_None)
  have f: "flows s s1 (entryFlow cd e)" by (rule ss_apply_flow [OF Cons(2) s1(1)]) (use Cons(4) in simp)
  then have "balances_ok s1" by (simp add: flows_def)
  then have "flows s1 s' (\<lambda>a. \<Sum>e\<leftarrow>es. entryFlow cd e a)" using Cons(1) [OF _ s1(2)] Cons(4) s1(1) by simp
  then show ?case by (rule flows_trans [OF f]) simp
qed

section \<open>Nonces\<close>

definition acceptedNonces :: "Codec \<Rightarrow> i64 \<Rightarrow> string \<Rightarrow> JournalEntry list \<Rightarrow> u64 list" where
  "acceptedNonces cd u k es = concat (map (\<lambda>e.
     if je_EntryType e = EntryTypeNonceAdvanced
     then (case dec_NonceAdvanced cd (je_Payload e) of
             Inr p \<Rightarrow> if na_AccountID p = u \<and> TrimSpace (na_AuthKeyID p) = k then [na_AcceptedNonce p] else []
           | Inl _ \<Rightarrow> [])
     else []) es)"

definition nextNonce :: "i64 \<Rightarrow> string \<Rightarrow> shadowState \<Rightarrow> u64" where
  "nextNonce u k s = (case map_of (ss_nonces s) (nonceKey u k) of None \<Rightarrow> 0 | Some l \<Rightarrow> nl_NextNonce l)"

lemma nonceKey_inject: "nonceKey u a = nonceKey v b \<longleftrightarrow> u = v \<and> TrimSpace a = TrimSpace b"
  using itoa_key_inject by (simp add: nonceKey_def)

lemma rs_then_nonces:
  "ss_nonces (snd r) = n \<Longrightarrow> (\<And>s. ss_nonces s = n \<Longrightarrow> ss_nonces (snd (f s)) = n) \<Longrightarrow> ss_nonces (snd (rs_then r f)) = n"
  by (simp add: rs_then_def split: option.splits)

lemma fillOrder_nonces: "ss_nonces (snd (fillOrder q i n p s)) = ss_nonces s"
  by (simp add: fillOrder_def releaseReserve_def Let_def split: option.splits sum.splits)

lemma applyTradeMatched_nonces: "ss_nonces (snd (applyTradeMatched q p s)) = ss_nonces s"
proof (cases "multiply (tp_Price p) (tp_Quantity p)")
  case (Inr n)
  then show ?thesis
    by (simp add: applyTradeMatched_def fillMaker_def [abs_def]) (intro rs_then_nonces; simp add: fillOrder_nonces creditParties_def creditBuyer_def creditSeller_def)
qed (simp add: applyTradeMatched_def)

lemma applySettlementPayout_nonces: "ss_nonces (snd (applySettlementPayout q p s)) = ss_nonces s"
  by (simp add: applySettlementPayout_def) (intro impI rs_then_nonces; simp add: settlePosition_frame payOut_def)

lemma ss_apply_nonces: "je_EntryType e \<noteq> EntryTypeNonceAdvanced \<Longrightarrow> ss_nonces (snd (ss_apply cd e s)) = ss_nonces s"
  by (simp add: ss_apply_def decoded_def Let_def applyTradeMatched_nonces applySettlementPayout_nonces applyOrderAccepted_def
      applyOrderCancelled_def applyDepositCredited_def applyWithdrawalRequested_def applyMarketResolved_def split: sum.splits)

lemma ss_apply_nextNonce:
  assumes "ss_apply cd e s = (None, s')"
  shows "(\<forall>n\<in>set (acceptedNonces cd u k [e]). nextNonce u k s \<le> n \<and> n < nextNonce u k s') \<and> nextNonce u k s \<le> nextNonce u k s' \<and>
    length (acceptedNonces cd u k [e]) \<le> 1"
proof (cases "je_EntryType e = EntryTypeNonceAdvanced")
  case False
  then show ?thesis using ss_apply_nonces [OF False, of cd s] assms by (simp add: acceptedNonces_def nextNonce_def)
next
  case True
  then obtain p where p: "dec_NonceAdvanced cd (je_Payload e) = Inr p" "applyNonceAdvanced (je_Sequence e) p s = (None, s')"
    using assms by (auto simp: ss_apply_def decoded_def split: sum.splits)
  let ?n = "na_AcceptedNonce p" and ?k = "nonceKey (na_AccountID p) (TrimSpace (na_AuthKeyID p))"
  have n: "na_NextNonce p = ?n + 1" "?n + 1 \<noteq> 0" "\<And>c. map_of (ss_nonces s) ?k = Some c \<Longrightarrow> nl_NextNonce c \<le> ?n"
    using p(2) by (auto simp: applyNonceAdvanced_def Let_def not_less split: if_splits)
  have lt: "?n < ?n + 1" using n(2) unatSuc [of ?n] by (simp add: word_less_nat_alt add.commute)
  obtain l where l: "s' = s\<lparr>ss_nonces := AList.update ?k l (ss_nonces s)\<rparr>" "nl_NextNonce l = ?n + 1"
    using p(2) n(1) by (auto simp: applyNonceAdvanced_def Let_def split: if_splits)
  have k: "nonceKey u k = ?k \<longleftrightarrow> u = na_AccountID p \<and> TrimSpace k = TrimSpace (na_AuthKeyID p)" by (simp add: nonceKey_inject)
  show ?thesis
  proof (cases "nonceKey u k = ?k")
    case eq: True
    have "nextNonce u k s \<le> ?n" using n(3) by (auto simp: nextNonce_def eq split: option.splits)
    moreover have "nextNonce u k s' = ?n + 1" using l by (simp add: nextNonce_def eq map_simps)
    ultimately show ?thesis using lt True p(1) by (auto simp: acceptedNonces_def)
  next
    case ne: False
    then have "nextNonce u k s' = nextNonce u k s" using l by (simp add: nextNonce_def map_simps)
    moreover have "acceptedNonces cd u k [e] = []" using ne k True p(1) by (auto simp: acceptedNonces_def)
    ultimately show ?thesis by simp
  qed
qed

lemma applyAll_nonces:
  "applyAll cd es s = (None, s') \<Longrightarrow> sorted_wrt (<) (acceptedNonces cd u k es) \<and> (\<forall>n\<in>set (acceptedNonces cd u k es). nextNonce u k s \<le> n)"
proof (induction es arbitrary: s)
  case Nil
  then show ?case by (simp add: acceptedNonces_def)
next
  case (Cons e es)
  obtain s1 where s1: "ss_apply cd e s = (None, s1)" "applyAll cd es s1 = (None, s')"
    using Cons(2) by (cases "ss_apply cd e s") (auto simp: rs_then_None)
  have split: "acceptedNonces cd u k (e # es) = acceptedNonces cd u k [e] @ acceptedNonces cd u k es" by (simp add: acceptedNonces_def)
  note step = ss_apply_nextNonce [OF s1(1), of u k]
  have one: "sorted_wrt (<) (acceptedNonces cd u k [e])"
    using step by (cases "acceptedNonces cd u k [e]") auto
  show ?case unfolding split using step one Cons(1) [OF s1(2)] by (fastforce simp: sorted_wrt_append)
qed

section \<open>Batches\<close>

text \<open>The loop over the batches is the replay of one batch on the state reached so far, again and again.\<close>

lemma replayLoop_state: "replayLoop cd bs (ss_roots cd s) s = (Inr r, s') \<Longrightarrow> r = ss_roots cd s'"
  by (induction bs arbitrary: s) (auto simp: Let_def split: if_splits sum.splits prod.splits option.splits)

lemma replayLoop_snoc:
  "replayLoop cd bs (ss_roots cd s) s = (Inr r, s') \<Longrightarrow>
    replayLoop cd (bs @ [b]) (ss_roots cd s) s = ReplayBatchOnState cd b s'"
proof (induction bs arbitrary: s)
  case Nil
  then show ?case by (auto simp: ReplayBatchOnState_def Let_def split: sum.splits option.splits prod.splits)
next
  case (Cons c bs)
  then show ?case by (auto simp: Let_def split: if_splits sum.splits prod.splits option.splits)
qed

lemma replayLoop_entries:
  assumes "replayLoop cd bs (ss_roots cd s) s = (Inr r, s')"
  shows "\<exists>ess. list_all2 (\<lambda>b es. \<exists>i. DecodeBatchInput cd (sb_InputData b) = Inr i \<and> bi_Entries i = es) bs ess \<and> applyAll cd (concat ess) s = (None, s')"
  using assms
proof (induction bs arbitrary: s)
  case Nil
  then show ?case by (intro exI [of _ "[]"]) simp
next
  case (Cons b bs)
  have app: "applyAll cd (xs @ ys) t = rs_then (applyAll cd xs t) (applyAll cd ys)" for xs ys t
    by (induction xs arbitrary: t) (auto simp: rs_then_def split: option.splits)
  obtain i s1 where i: "DecodeBatchInput cd (sb_InputData b) = Inr i" "applyAll cd (bi_Entries i) s = (None, s1)"
      "replayLoop cd bs (ss_roots cd s1) s1 = (Inr r, s')"
    using Cons(2) by (auto simp: Let_def split: if_splits sum.splits prod.splits option.splits)
  from Cons(1) [OF i(3)] obtain ess where "list_all2 (\<lambda>b es. \<exists>i. DecodeBatchInput cd (sb_InputData b) = Inr i \<and> bi_Entries i = es) bs ess"
      "applyAll cd (concat ess) s1 = (None, s')" by blast
  then show ?case using i(1,2) by (intro exI [of _ "bi_Entries i # ess"]) (auto simp: app rs_then_def)
qed

section \<open>Properties\<close>

text \<open>
  C10. The replay neither creates nor destroys value: when a journal replays from the empty state and its
  trades agree with the open orders they name (opposite sides, reserves in the assets that are
  exchanged), the total of every asset over all accounts, free and locked, is what was deposited,
  less what was withdrawn, plus payouts, less the positions settled for them, in 64-bit arithmetic.
\<close>

theorem replay_conserves:
  assumes "applyAll cd es emptyState = (None, s)" and "trades_agree cd es emptyState"
  shows "wrap64 (rs_total a s) = wrap64 (\<Sum>e\<leftarrow>es. entryFlow cd e a)"
  using applyAll_flow [OF balances_ok_empty assms] by (simp add: flows_def rs_total_empty)

definition ex_entry :: "i64 \<Rightarrow> string \<Rightarrow> string \<Rightarrow> JournalEntry" where
  "ex_entry n ty p = \<lparr>je_Sequence = n, je_EntryID = '''', je_EntryType = ty, je_SourceType = '''', je_SourceRef = '''', je_OccurredAtMillis = 0, je_Payload = p\<rparr>"

definition ex_order_payload :: "string \<Rightarrow> OrderAcceptedPayload" where
  "ex_order_payload i =
     (if i = ''buy''
      then \<lparr>oa_OrderID = ''b'', oa_CommandID = '''', oa_ClientOrderID = '''', oa_AccountID = 1, oa_MarketID = 7, oa_Outcome = ''YES'', oa_Side = ''BUY'',
            oa_OrderType = '''', oa_TimeInForce = '''', oa_CollateralAsset = ''USDT'', oa_ReserveAsset = ''USDT'', oa_ReserveAmount = 160, oa_Price = 40,
            oa_Quantity = 4, oa_RequestedAtMillis = 0\<rparr>
      else \<lparr>oa_OrderID = ''s'', oa_CommandID = '''', oa_ClientOrderID = '''', oa_AccountID = 2, oa_MarketID = 7, oa_Outcome = ''YES'', oa_Side = ''SELL'',
            oa_OrderType = '''', oa_TimeInForce = '''', oa_CollateralAsset = ''USDT'', oa_ReserveAsset = ''POSITION:7:YES'', oa_ReserveAmount = 4, oa_Price = 35,
            oa_Quantity = 4, oa_RequestedAtMillis = 0\<rparr>)"

definition ex_codec :: Codec where
  "ex_codec = \<lparr>dec_Batch = (\<lambda>_. Inr \<lparr>bi_EncodingVersion = BatchEncodingVersion, bi_Entries = [ex_entry 1 EntryTypeDepositCredited ''usdt'']\<rparr>),
     dec_NonceAdvanced = (\<lambda>p. Inr \<lparr>na_AccountID = 1, na_AuthKeyID = ''key'', na_Scope = '''', na_KeyStatus = '''',
       na_AcceptedNonce = (if p = ''first'' then 5 else 9), na_NextNonce = (if p = ''first'' then 6 else 10), na_OccurredAtMillis = 0, na_OrderAuthorization = None\<rparr>),
     dec_TradingKeyAuthorized = (\<lambda>_. Inl ''unused''),
     dec_OrderAccepted = (\<lambda>p. Inr (ex_order_payload p)),
     dec_OrderCancelled = (\<lambda>_. Inl ''unused''),
     dec_TradeMatched = (\<lambda>_. Inr \<lparr>tp_TradeID = ''t'', tp_Sequence = 1, tp_CollateralAsset = ''USDT'', tp_MarketID = 7, tp_Outcome = ''YES'', tp_Price = 35,
       tp_Quantity = 4, tp_TakerOrderID = ''b'', tp_MakerOrderID = ''s'', tp_TakerAccountID = 1, tp_MakerAccountID = 2, tp_TakerSide = ''BUY'',
       tp_MakerSide = ''SELL'', tp_OccurredAtMillis = 0\<rparr>),
     dec_DepositCredited = (\<lambda>p. Inr \<lparr>dp_DepositID = p, dp_AccountID = (if p = ''usdt'' then 1 else 2), dp_WalletAddress = '''', dp_VaultAddress = '''',
       dp_Asset = (if p = ''usdt'' then ''USDT'' else ''POSITION:7:YES''), dp_Amount = (if p = ''usdt'' then 500 else 10), dp_ChainName = '''',
       dp_NetworkName = '''', dp_TxHash = '''', dp_LogIndex = 0, dp_BlockNumber = 0, dp_OccurredAtMillis = 0\<rparr>),
     dec_WithdrawalRequested = (\<lambda>_. Inr \<lparr>wp_WithdrawalID = ''w'', wp_AccountID = 2, wp_WalletAddress = '''', wp_RecipientAddress = '''', wp_VaultAddress = '''',
       wp_Asset = ''USDT'', wp_Amount = 100, wp_Lane = '''', wp_ChainName = '''', wp_NetworkName = '''', wp_TxHash = '''', wp_LogIndex = 0, wp_BlockNumber = 0,
       wp_OccurredAtMillis = 0\<rparr>),
     dec_MarketResolved = (\<lambda>_. Inl ''unused''),
     dec_SettlementPayout = (\<lambda>_. Inl ''unused''),
     enc_Leaf = (\<lambda>_. Inr ''leaf''), enc_Batch = (\<lambda>_. Inr ''batch''), sha256 = (\<lambda>_. ''hash''), keccak256 = (\<lambda>_. ''hash''), hexToAddress = (\<lambda>_. ''address'')\<rparr>"

definition ex_journal :: "JournalEntry list" where
  "ex_journal = [ex_entry 1 EntryTypeDepositCredited ''usdt'', ex_entry 2 EntryTypeDepositCredited ''shares'',
     ex_entry 3 EntryTypeNonceAdvanced ''first'', ex_entry 4 EntryTypeOrderAccepted ''sell'', ex_entry 5 EntryTypeNonceAdvanced ''second'',
     ex_entry 6 EntryTypeOrderAccepted ''buy'', ex_entry 7 EntryTypeTradeMatched ''trade'', ex_entry 8 EntryTypeWithdrawalRequested ''w'']"

lemma ex_journal_runs: "fst (applyAll ex_codec ex_journal emptyState) = None" "trades_agree ex_codec ex_journal emptyState"
  by code_simp+

theorem replay_conserves_witness:
  "\<exists>s. applyAll ex_codec ex_journal emptyState = (None, s) \<and> wrap64 (rs_total ''USDT'' s) = 400 \<and> wrap64 (rs_total ''POSITION:7:YES'' s) = 10"
proof -
  obtain s where s: "applyAll ex_codec ex_journal emptyState = (None, s)"
    using ex_journal_runs(1) by (cases "applyAll ex_codec ex_journal emptyState") simp
  have "wrap64 (\<Sum>e\<leftarrow>ex_journal. entryFlow ex_codec e ''USDT'') = 400" "wrap64 (\<Sum>e\<leftarrow>ex_journal. entryFlow ex_codec e ''POSITION:7:YES'') = 10"
    by code_simp+
  then show ?thesis using s replay_conserves [OF s ex_journal_runs(2)] by simp
qed

text \<open>
  C29. No authorisation is used twice: in a journal that replays, the nonces accepted for an account and a
  key are strictly increasing, from the next nonce of the state the replay starts in.
\<close>

theorem nonces_never_reused:
  assumes "applyAll cd es s = (None, s')"
  shows "sorted_wrt (<) (acceptedNonces cd u k es) \<and> (\<forall>n\<in>set (acceptedNonces cd u k es). nextNonce u k s \<le> n)"
  by (rule applyAll_nonces [OF assms])

theorem nonces_never_reused_witness:
  "acceptedNonces ex_codec 1 ''key'' ex_journal = [5, 9] \<and> sorted_wrt (<) (acceptedNonces ex_codec 1 ''key'' ex_journal)"
proof
  show "acceptedNonces ex_codec 1 ''key'' ex_journal = [5, 9]" by code_simp
  obtain s where "applyAll ex_codec ex_journal emptyState = (None, s)"
    using ex_journal_runs(1) by (cases "applyAll ex_codec ex_journal emptyState") simp
  then show "sorted_wrt (<) (acceptedNonces ex_codec 1 ''key'' ex_journal)" using nonces_never_reused by blast
qed

text \<open>
  C30. Replaying is incremental: when a list of stored batches replays, its roots are the roots of the
  state reached by applying all entries of the batches in sequence, and replaying one more batch from
  the start gives what \<open>ReplayBatchOnState\<close> gives on that state.
\<close>

theorem replay_incremental:
  assumes "replayLoop cd bs (ss_roots cd emptyState) emptyState = (Inr r, s)"
  shows "ReplayStoredBatches cd bs = Inr (ss_roots cd s) \<and> ReplayStoredBatches cd (bs @ [b]) = fst (ReplayBatchOnState cd b s) \<and>
    (\<exists>ess. list_all2 (\<lambda>b es. \<exists>i. DecodeBatchInput cd (sb_InputData b) = Inr i \<and> bi_Entries i = es) bs ess \<and>
      applyAll cd (concat ess) emptyState = (None, s))"
  using assms replayLoop_state [OF assms] replayLoop_snoc [OF assms] replayLoop_entries [OF assms] by (simp add: ReplayStoredBatches_def)

definition ex_batch :: StoredBatch where
  "ex_batch = \<lparr>sb_BatchID = 1, sb_EncodingVersion = '''', sb_FirstSequence = 1, sb_LastSequence = 1, sb_EntryCount = 1, sb_InputData = ''in'',
     sb_InputHash = '''', sb_PrevStateRoot = '''', sb_BalancesRoot = '''', sb_OrdersRoot = '''', sb_PositionsFundingRoot = '''',
     sb_WithdrawalsRoot = '''', sb_StateRoot = '''', sb_CreatedAt = 0\<rparr>"

lemma roots_empty: "rt_StateRoot (ss_roots cd emptyState) = ZeroStateRoot cd"
  by (simp add: ss_roots_def Let_def emptyState_def leafRoot_def nonceLeafRoot_def ZeroStateRoot_def)

theorem replay_incremental_witness:
  "\<exists>s. replayLoop ex_codec [ex_batch] (ss_roots ex_codec emptyState) emptyState = (Inr (ss_roots ex_codec s), s) \<and>
    ReplayStoredBatches ex_codec ([ex_batch] @ [ex_batch]) = fst (ReplayBatchOnState ex_codec ex_batch s)"
proof -
  let ?es = "[ex_entry 1 EntryTypeDepositCredited ''usdt'']"
  have "fst (applyAll ex_codec ?es emptyState) = None" by code_simp
  then obtain s where s: "applyAll ex_codec ?es emptyState = (None, s)" by (cases "applyAll ex_codec ?es emptyState") simp
  have "DecodeBatchInput ex_codec (sb_InputData ex_batch) = Inr \<lparr>bi_EncodingVersion = BatchEncodingVersion, bi_Entries = ?es\<rparr>"
    "TrimSpace (sb_PrevStateRoot ex_batch) = []" "sb_InputHash ex_batch = []" by code_simp+
  then have run: "replayLoop ex_codec [ex_batch] (ss_roots ex_codec emptyState) emptyState = (Inr (ss_roots ex_codec s), s)"
    using s by (simp add: Let_def roots_empty del: applyAll.simps)
  then show ?thesis using replay_incremental [OF run, of ex_batch] by blast
qed

end
