(* ===== verification/Rollup_Journal.thy ===== *)
theory Rollup_Journal
  imports Rollup_Props "HOL-Library.Multiset"
begin

text \<open>
  The journal of the rollup and the batches cut from it (the first part of \<open>rollup/store.go\<close>).
  The tables are lists of rows. A transaction holds the rows it has inserted until it commits, while
  the sequence of the primary key is advanced at once and is never taken back, as PostgreSQL does it
  for a \<open>BIGSERIAL\<close> column, also for a row that meets a conflict. The encoding of a payload and the
  generator of identifiers are parameters, and a list of names says which statements of the database fail.
\<close>

section \<open>The journal\<close>

datatype JournalPayload =
  PTradingKeyAuthorized TradingKeyAuthorizedPayload
| PNonceAdvanced NonceAdvancedPayload
| POrderAccepted OrderAcceptedPayload
| POrderCancelled OrderCancelledPayload
| PTradeMatched TradeMatchedPayload
| PDepositCredited DepositCreditedPayload
| PWithdrawalRequested WithdrawalRequestedPayload
| PMarketResolved MarketResolvedPayload
| PSettlementPayout SettlementPayoutPayload

record JournalAppend =
  ja_EntryID :: string
  ja_EntryType :: string
  ja_SourceType :: string
  ja_SourceRef :: string
  ja_OccurredAtMillis :: i64
  ja_Payload :: JournalPayload

datatype journal_error = EntryFieldRequired string | EncodeFailed string | DuplicateEntryID string | DatabaseFailed string

record Journal =
  jn_rows :: "JournalEntry list"
  jn_next :: i64

record JournalEnv =
  jv_marshal :: "JournalPayload \<Rightarrow> string + string"
  jv_newID :: "i64 \<Rightarrow> string"

type_synonym transaction = "JournalEntry list \<times> Journal"

definition sourceKey :: "JournalEntry \<Rightarrow> string \<times> string \<times> string" where
  "sourceKey row = (je_EntryType row, je_SourceType row, je_SourceRef row)"

definition appendRow :: "JournalEnv \<Rightarrow> JournalAppend \<Rightarrow> i64 \<Rightarrow> string \<Rightarrow> JournalEntry" where
  "appendRow env ent sequence payload =
     \<lparr>je_Sequence = sequence,
      je_EntryID = (if TrimSpace (ja_EntryID ent) = '''' then jv_newID env sequence else TrimSpace (ja_EntryID ent)),
      je_EntryType = TrimSpace (ja_EntryType ent), je_SourceType = TrimSpace (ja_SourceType ent), je_SourceRef = TrimSpace (ja_SourceRef ent),
      je_OccurredAtMillis = ja_OccurredAtMillis ent, je_Payload = payload\<rparr>"

text \<open>The insertion: a row with the same source is skipped, a row with the same identifier is refused.\<close>

definition insertRow :: "JournalEntry \<Rightarrow> transaction \<Rightarrow> journal_error option \<times> transaction" where
  "insertRow row = (\<lambda>(pending, j).
     let rows = jn_rows j @ pending; j1 = j\<lparr>jn_next := jn_next j + 1\<rparr>
     in if sourceKey row \<in> sourceKey ` set rows then (None, (pending, j1))
        else if je_EntryID row \<in> je_EntryID ` set rows then (Some (DuplicateEntryID (je_EntryID row)), (pending, j1))
        else (None, (pending @ [row], j1)))"

definition appendEntry :: "JournalEnv \<Rightarrow> JournalAppend \<Rightarrow> transaction \<Rightarrow> journal_error option \<times> transaction" where
  "appendEntry env ent t =
     (if TrimSpace (ja_EntryType ent) = '''' then (Some (EntryFieldRequired ''entry type''), t)
      else if TrimSpace (ja_SourceType ent) = '''' then (Some (EntryFieldRequired ''source type''), t)
      else if TrimSpace (ja_SourceRef ent) = '''' then (Some (EntryFieldRequired ''source ref''), t)
      else case jv_marshal env (ja_Payload ent) of
             Inl err \<Rightarrow> (Some (EncodeFailed err), t)
           | Inr payload \<Rightarrow> insertRow (appendRow env ent (jn_next (snd t)) payload) t)"

fun AppendEntriesTx :: "JournalEnv \<Rightarrow> JournalAppend list \<Rightarrow> transaction \<Rightarrow> journal_error option \<times> transaction" where
  "AppendEntriesTx env [] t = (None, t)"
| "AppendEntriesTx env (e # es) t =
     (case appendEntry env e t of (None, t1) \<Rightarrow> AppendEntriesTx env es t1 | (Some err, t1) \<Rightarrow> (Some err, t1))"

text \<open>
  The statement for many rows first checks and encodes all of them and then inserts them in one
  command, row by row in the order of the values.
\<close>

fun batchArgs :: "JournalEnv \<Rightarrow> JournalAppend list \<Rightarrow> journal_error + (JournalAppend \<times> string) list" where
  "batchArgs env [] = Inr []"
| "batchArgs env (e # es) =
     (if TrimSpace (ja_EntryType e) = '''' \<or> TrimSpace (ja_SourceType e) = '''' \<or> TrimSpace (ja_SourceRef e) = ''''
      then Inl (EntryFieldRequired ''field'')
      else case jv_marshal env (ja_Payload e) of
             Inl err \<Rightarrow> Inl (EncodeFailed err)
           | Inr payload \<Rightarrow> (case batchArgs env es of Inl err \<Rightarrow> Inl err | Inr args \<Rightarrow> Inr ((e, payload) # args)))"

fun insertRows :: "JournalEnv \<Rightarrow> (JournalAppend \<times> string) list \<Rightarrow> transaction \<Rightarrow> journal_error option \<times> transaction" where
  "insertRows env [] t = (None, t)"
| "insertRows env ((e, payload) # args) t =
     (case insertRow (appendRow env e (jn_next (snd t)) payload) t of (None, t1) \<Rightarrow> insertRows env args t1 | (Some err, t1) \<Rightarrow> (Some err, t1))"

definition AppendBatchTx :: "JournalEnv \<Rightarrow> JournalAppend list \<Rightarrow> transaction \<Rightarrow> journal_error option \<times> transaction" where
  "AppendBatchTx env entries t =
     (if length entries \<le> 2 then AppendEntriesTx env entries t
      else case batchArgs env entries of Inl err \<Rightarrow> (Some err, t) | Inr args \<Rightarrow> insertRows env args t)"

definition commitTx :: "transaction \<Rightarrow> Journal" where
  "commitTx t = (snd t)\<lparr>jn_rows := jn_rows (snd t) @ fst t\<rparr>"

definition AppendEntries :: "JournalEnv \<Rightarrow> JournalAppend list \<Rightarrow> Journal \<Rightarrow> journal_error option \<times> Journal" where
  "AppendEntries env entries j =
     (if entries = [] then (None, j)
      else case AppendEntriesTx env entries ([], j) of (None, t) \<Rightarrow> (None, commitTx t) | (Some err, t) \<Rightarrow> (Some err, snd t))"

section \<open>The store\<close>

record Store =
  rs_journal :: Journal
  rs_batches :: "StoredBatch list"
  rs_nextBatch :: i64
  rs_cachedState :: "shadowState option"
  rs_cachedStateRoot :: string

definition zeroBatch :: StoredBatch where
  "zeroBatch = \<lparr>sb_BatchID = 0, sb_EncodingVersion = '''', sb_FirstSequence = 0, sb_LastSequence = 0, sb_EntryCount = 0, sb_InputData = '''',
     sb_InputHash = '''', sb_PrevStateRoot = '''', sb_BalancesRoot = '''', sb_OrdersRoot = '''', sb_PositionsFundingRoot = '''',
     sb_WithdrawalsRoot = '''', sb_StateRoot = '''', sb_CreatedAt = 0\<rparr>"

definition ListBatches :: "Store \<Rightarrow> StoredBatch list" where
  "ListBatches s = sort_key sb_BatchID (rs_batches s)"

definition latestBatch :: "Store \<Rightarrow> StoredBatch option" where
  "latestBatch s = (if rs_batches s = [] then None else Some (last (ListBatches s)))"

definition loadJournalEntriesAfter :: "i64 \<Rightarrow> nat \<Rightarrow> Store \<Rightarrow> JournalEntry list" where
  "loadJournalEntriesAfter after limit s =
     take limit (sort_key je_Sequence (filter (\<lambda>row. after < je_Sequence row) (jn_rows (rs_journal s))))"

fun warmState :: "Codec \<Rightarrow> StoredBatch list \<Rightarrow> shadowState \<Rightarrow> shadowState option" where
  "warmState cd [] s = Some s"
| "warmState cd (b # bs) s =
     (case DecodeBatchInput cd (sb_InputData b) of
        Inl _ \<Rightarrow> None
      | Inr input \<Rightarrow> (case applyAll cd (bi_Entries input) s of (Some _, _) \<Rightarrow> None | (None, s1) \<Rightarrow> warmState cd bs s1))"

definition warmCacheFromFullReplay :: "Codec \<Rightarrow> StoredBatch list \<Rightarrow> RootSet \<Rightarrow> Store \<Rightarrow> Store" where
  "warmCacheFromFullReplay cd batches roots s =
     (case warmState cd batches emptyState of
        None \<Rightarrow> s
      | Some state \<Rightarrow> s\<lparr>rs_cachedState := Some state, rs_cachedStateRoot := rt_StateRoot roots\<rparr>)"

datatype batch_error = NoPendingBatch | StoreFailed string | EncodeBatchFailed string | ReplayFailed rollup_error

text \<open>The roots after the new batch: from the cached state when its root is the root the batch builds on, and by a replay of everything otherwise.\<close>

definition rootsAfter :: "Codec \<Rightarrow> string list \<Rightarrow> StoredBatch \<Rightarrow> Store \<Rightarrow> (batch_error + RootSet) \<times> Store" where
  "rootsAfter cd faults newBatch s =
     (case rs_cachedState s of
        Some state \<Rightarrow>
          if rs_cachedStateRoot s = sb_PrevStateRoot newBatch
          then (case ReplayBatchOnState cd newBatch state of
                  (Inl err, _) \<Rightarrow> (Inl (ReplayFailed err), s)
                | (Inr roots, state1) \<Rightarrow> (Inr roots, s\<lparr>rs_cachedState := Some state1, rs_cachedStateRoot := rt_StateRoot roots\<rparr>))
          else if ''batches'' \<in> set faults then (Inl (StoreFailed ''batches''), s)
          else (case ReplayStoredBatches cd (ListBatches s @ [newBatch]) of
                  Inl err \<Rightarrow> (Inl (ReplayFailed err), s)
                | Inr roots \<Rightarrow> (Inr roots, warmCacheFromFullReplay cd (ListBatches s @ [newBatch]) roots s))
      | None \<Rightarrow>
          if ''batches'' \<in> set faults then (Inl (StoreFailed ''batches''), s)
          else (case ReplayStoredBatches cd (ListBatches s @ [newBatch]) of
                  Inl err \<Rightarrow> (Inl (ReplayFailed err), s)
                | Inr roots \<Rightarrow> (Inr roots, warmCacheFromFullReplay cd (ListBatches s @ [newBatch]) roots s)))"

definition insertBatch :: "string list \<Rightarrow> i64 \<Rightarrow> StoredBatch \<Rightarrow> Store \<Rightarrow> (batch_error + StoredBatch) \<times> Store" where
  "insertBatch faults now batch s =
     (if ''insert'' \<in> set faults \<or> (\<exists>b\<in>set (rs_batches s). sb_FirstSequence b = sb_FirstSequence batch \<and> sb_LastSequence b = sb_LastSequence batch)
      then (Inl (StoreFailed ''insert''), s\<lparr>rs_nextBatch := rs_nextBatch s + 1\<rparr>)
      else let stored = batch\<lparr>sb_BatchID := rs_nextBatch s, sb_CreatedAt := now\<rparr>
           in (Inr stored, s\<lparr>rs_batches := rs_batches s @ [stored], rs_nextBatch := rs_nextBatch s + 1\<rparr>))"

definition batchRecord :: "JournalEntry list \<Rightarrow> string \<Rightarrow> string \<Rightarrow> string \<Rightarrow> RootSet \<Rightarrow> StoredBatch" where
  "batchRecord entries inputData inputHash prev roots =
     \<lparr>sb_BatchID = 0, sb_EncodingVersion = BatchEncodingVersion, sb_FirstSequence = je_Sequence (hd entries),
      sb_LastSequence = je_Sequence (last entries), sb_EntryCount = int (length entries), sb_InputData = inputData,
      sb_InputHash = inputHash, sb_PrevStateRoot = prev, sb_BalancesRoot = rt_BalancesRoot roots,
      sb_OrdersRoot = rt_OrdersRoot roots, sb_PositionsFundingRoot = rt_PositionsFundingRoot roots,
      sb_WithdrawalsRoot = rt_WithdrawalsRoot roots, sb_StateRoot = rt_StateRoot roots, sb_CreatedAt = 0\<rparr>"

definition MaterializeNextBatch :: "Codec \<Rightarrow> string list \<Rightarrow> i64 \<Rightarrow> i64 \<Rightarrow> Store \<Rightarrow> (batch_error + StoredBatch) \<times> Store" where
  "MaterializeNextBatch cd faults limit now s =
     (let limit = (if limit \<le> 0 then 256 else limit);
          after = (case latestBatch s of None \<Rightarrow> 0 | Some b \<Rightarrow> sb_LastSequence b);
          prev = (case latestBatch s of None \<Rightarrow> ZeroStateRoot cd | Some b \<Rightarrow> sb_StateRoot b);
          entries = loadJournalEntriesAfter after (nat limit) s
      in if ''latest'' \<in> set faults then (Inl (StoreFailed ''latest''), s)
         else if ''entries'' \<in> set faults then (Inl (StoreFailed ''entries''), s)
         else if entries = [] then (Inl NoPendingBatch, s)
         else case EncodeBatchInput cd entries of
                Inl err \<Rightarrow> (Inl (EncodeBatchFailed err), s)
              | Inr (inputData, inputHash) \<Rightarrow>
                  (case rootsAfter cd faults
                      (zeroBatch\<lparr>sb_EncodingVersion := BatchEncodingVersion, sb_InputData := inputData, sb_InputHash := inputHash, sb_PrevStateRoot := prev\<rparr>) s of
                     (Inl err, s1) \<Rightarrow> (Inl err, s1)
                   | (Inr roots, s1) \<Rightarrow>
                       insertBatch faults now (batchRecord entries inputData inputHash prev roots) s1))"

section \<open>Appending\<close>

lemma batchArgs_insertRows: "batchArgs env es = Inr args \<Longrightarrow> insertRows env args t = AppendEntriesTx env es t"
  by (induction es arbitrary: args t)
     (auto simp: appendEntry_def split: if_splits sum.splits prod.splits option.splits)

lemma batchArgs_error: "batchArgs env es = Inl err \<Longrightarrow> fst (AppendEntriesTx env es t) \<noteq> None"
  by (induction es arbitrary: err t)
     (auto simp: appendEntry_def split: if_splits sum.splits prod.splits option.splits)

text \<open>The row numbers a transaction takes are fresh: every row it adds carries a number from the counter on.\<close>

definition tx_fresh :: "JournalEntry list \<Rightarrow> Journal \<Rightarrow> JournalEntry list \<Rightarrow> Journal \<Rightarrow> bool" where
  "tx_fresh p j p' j' \<longleftrightarrow> jn_rows j' = jn_rows j \<and> jn_next j \<le> jn_next j' \<and>
     (\<exists>new. p' = p @ new \<and> sorted_wrt (<) (map je_Sequence new) \<and> (\<forall>r\<in>set new. jn_next j \<le> je_Sequence r \<and> je_Sequence r < jn_next j'))"

lemma tx_fresh_refl: "tx_fresh p j p j"
  by (simp add: tx_fresh_def)

lemma tx_fresh_trans: "tx_fresh p j p1 j1 \<Longrightarrow> tx_fresh p1 j1 p2 j2 \<Longrightarrow> tx_fresh p j p2 j2"
  unfolding tx_fresh_def by (fastforce simp: sorted_wrt_append intro: order.strict_trans2)

lemma appendEntry_fresh: "appendEntry env e (p, j) = (err, (p', j')) \<Longrightarrow> tx_fresh p j p' j'"
  by (auto simp: appendEntry_def insertRow_def Let_def appendRow_def tx_fresh_def split: if_splits sum.splits)

lemma AppendEntriesTx_fresh: "AppendEntriesTx env es (p, j) = (err, (p', j')) \<Longrightarrow> tx_fresh p j p' j'"
proof (induction es arbitrary: p j)
  case Nil
  then show ?case by (simp add: tx_fresh_refl)
next
  case (Cons e es)
  obtain err1 p1 j1 where a: "appendEntry env e (p, j) = (err1, (p1, j1))" by (metis prod.exhaust)
  show ?case
  proof (cases err1)
    case None
    then have "AppendEntriesTx env es (p1, j1) = (err, (p', j'))" using Cons.prems a by simp
    then show ?thesis using Cons.IH appendEntry_fresh [OF a] tx_fresh_trans by blast
  next
    case Some
    then show ?thesis using Cons.prems a appendEntry_fresh [OF a] by simp
  qed
qed

section \<open>Runs\<close>

text \<open>
  A run of the service: any number of transactions are open at a time, each with the rows it has
  inserted; they append, commit and roll back in any order, and batches are cut in between. An
  insertion that meets the source or the identifier of a row of another open transaction waits for it.
\<close>

record RollupRun =
  rr_store :: Store
  rr_open :: "JournalEntry list list"

definition initStore :: Store where
  "initStore = \<lparr>rs_journal = \<lparr>jn_rows = [], jn_next = 1\<rparr>, rs_batches = [], rs_nextBatch = 1, rs_cachedState = None, rs_cachedStateRoot = ''''\<rparr>"

definition remove_nth :: "nat \<Rightarrow> 'a list \<Rightarrow> 'a list" where
  "remove_nth i xs = take i xs @ drop (Suc i) xs"

inductive rollup_step :: "Codec \<Rightarrow> JournalEnv \<Rightarrow> RollupRun \<Rightarrow> RollupRun \<Rightarrow> bool" for cd env where
  begin_tx: "rollup_step cd env r (r\<lparr>rr_open := rr_open r @ [[]]\<rparr>)"
| append_tx: "i < length (rr_open r) \<Longrightarrow> AppendEntriesTx env es (rr_open r ! i, rs_journal (rr_store r)) = (None, (p, j)) \<Longrightarrow>
    (\<forall>q\<in>set (remove_nth i (rr_open r)). sourceKey ` set p \<inter> sourceKey ` set q = {} \<and> je_EntryID ` set p \<inter> je_EntryID ` set q = {}) \<Longrightarrow>
    rollup_step cd env r (r\<lparr>rr_store := (rr_store r)\<lparr>rs_journal := j\<rparr>, rr_open := (rr_open r)[i := p]\<rparr>)"
| fail_tx: "i < length (rr_open r) \<Longrightarrow> AppendEntriesTx env es (rr_open r ! i, rs_journal (rr_store r)) = (Some err, (p, j)) \<Longrightarrow>
    rollup_step cd env r (r\<lparr>rr_store := (rr_store r)\<lparr>rs_journal := j\<rparr>, rr_open := remove_nth i (rr_open r)\<rparr>)"
| commit_tx: "i < length (rr_open r) \<Longrightarrow>
    rollup_step cd env r (r\<lparr>rr_store := (rr_store r)\<lparr>rs_journal := commitTx (rr_open r ! i, rs_journal (rr_store r))\<rparr>,
      rr_open := remove_nth i (rr_open r)\<rparr>)"
| rollback_tx: "i < length (rr_open r) \<Longrightarrow> rollup_step cd env r (r\<lparr>rr_open := remove_nth i (rr_open r)\<rparr>)"
| materialize: "''insert'' \<notin> set faults \<Longrightarrow> MaterializeNextBatch cd faults limit now (rr_store r) = (res, s) \<Longrightarrow>
    rollup_step cd env r (r\<lparr>rr_store := s\<rparr>)"

definition rollup_init :: RollupRun where
  "rollup_init = \<lparr>rr_store = initStore, rr_open = []\<rparr>"

abbreviation rollup_runs :: "Codec \<Rightarrow> JournalEnv \<Rightarrow> RollupRun \<Rightarrow> RollupRun \<Rightarrow> bool" where
  "rollup_runs cd env \<equiv> (rollup_step cd env)\<^sup>*\<^sup>*"

text \<open>The entries a batch was cut from, and what the fields of the batch say about them.\<close>

definition batch_of :: "Codec \<Rightarrow> StoredBatch \<Rightarrow> JournalEntry list \<Rightarrow> bool" where
  "batch_of cd b es \<longleftrightarrow> es \<noteq> [] \<and> EncodeBatchInput cd es = Inr (sb_InputData b, sb_InputHash b) \<and> sb_FirstSequence b = je_Sequence (hd es) \<and>
     sb_LastSequence b = je_Sequence (last es) \<and> sb_EntryCount b = int (length es)"

text \<open>JSON encodings of batches decode to what was encoded.\<close>

definition batch_codec_ok :: "Codec \<Rightarrow> bool" where
  "batch_codec_ok cd \<longleftrightarrow> (\<forall>b x. enc_Batch cd b = Inr x \<longrightarrow> dec_Batch cd x = Inr b)"

definition cache_ok :: "Codec \<Rightarrow> shadowState \<Rightarrow> Store \<Rightarrow> bool" where
  "cache_ok cd t s \<longleftrightarrow> rs_cachedState s = None \<or> (rs_cachedState s = Some t \<and> rs_cachedStateRoot s = rt_StateRoot (ss_roots cd t))"

definition batches_ok :: "Codec \<Rightarrow> JournalEntry list list \<Rightarrow> shadowState \<Rightarrow> Store \<Rightarrow> bool" where
  "batches_ok cd ess t s \<longleftrightarrow>
     list_all2 (batch_of cd) (rs_batches s) ess \<and> sorted_wrt (<) (map je_Sequence (concat ess)) \<and> set (concat ess) \<subseteq> set (jn_rows (rs_journal s)) \<and>
     sorted_wrt (<) (map sb_BatchID (rs_batches s)) \<and> (\<forall>b\<in>set (rs_batches s). sb_BatchID b < rs_nextBatch s) \<and>
     replayLoop cd (rs_batches s) (ss_roots cd emptyState) emptyState = (Inr (ss_roots cd t), t) \<and>
     (rs_batches s \<noteq> [] \<longrightarrow> sb_StateRoot (last (rs_batches s)) = rt_StateRoot (ss_roots cd t)) \<and> cache_ok cd t s"

text \<open>The numbers of the rows: positive, below the counter and all different.\<close>

definition seqs_ok :: "i64 \<Rightarrow> JournalEntry list \<Rightarrow> bool" where
  "seqs_ok n rows \<longleftrightarrow> (\<forall>row\<in>set rows. 0 < je_Sequence row \<and> je_Sequence row < n) \<and> distinct (map je_Sequence rows)"

definition rows_ok :: "RollupRun \<Rightarrow> bool" where
  "rows_ok r \<longleftrightarrow> 0 < jn_next (rs_journal (rr_store r)) \<and>
     seqs_ok (jn_next (rs_journal (rr_store r))) (jn_rows (rs_journal (rr_store r)) @ concat (rr_open r))"

section \<open>The invariant of the rows\<close>

lemma rows_ok_init: "rows_ok rollup_init"
  by (simp add: rows_ok_def seqs_ok_def rollup_init_def initStore_def)

lemma seqs_ok_perm: "mset xs = mset ys \<Longrightarrow> seqs_ok n xs \<Longrightarrow> seqs_ok n ys"
  unfolding seqs_ok_def by (metis mset_eq_setD mset_map mset_eq_imp_distinct_iff)

lemma seqs_ok_sub: "seqs_ok n (xs @ ys @ zs) \<Longrightarrow> seqs_ok n (xs @ zs)"
  by (auto simp: seqs_ok_def)

lemma seqs_ok_mono: "seqs_ok n xs \<Longrightarrow> n \<le> m \<Longrightarrow> seqs_ok m xs"
  by (force simp: seqs_ok_def)

lemma seqs_ok_new:
  assumes "seqs_ok n xs" and "0 < n" and "n \<le> m" and "\<forall>row\<in>set new. n \<le> je_Sequence row \<and> je_Sequence row < m" and "sorted_wrt (<) (map je_Sequence new)"
  shows "seqs_ok m (xs @ new)"
proof -
  have "je_Sequence x \<noteq> je_Sequence y" if "x \<in> set new" and "y \<in> set xs" for x y
    using assms(1,4) that by (force simp: seqs_ok_def)
  then have "je_Sequence ` set xs \<inter> je_Sequence ` set new = {}" by fastforce
  moreover have "distinct (map je_Sequence new)" using assms(5) strict_sorted_iff by blast
  ultimately show ?thesis using assms(1-4) by (fastforce simp: seqs_ok_def)
qed

lemma concat_at: "i < length xs \<Longrightarrow> concat xs = concat (take i xs) @ xs ! i @ concat (drop (Suc i) xs)"
  by (metis concat.simps(2) concat_append id_take_nth_drop)

lemma concat_update_at: "i < length xs \<Longrightarrow> concat (xs[i := y]) = concat (take i xs) @ y @ concat (drop (Suc i) xs)"
  by (simp add: upd_conv_take_nth_drop)

lemma concat_remove_nth: "concat (remove_nth i xs) = concat (take i xs) @ concat (drop (Suc i) xs)"
  by (simp add: remove_nth_def)

lemma insertBatch_journal [simp]: "rs_journal (snd (insertBatch faults now b s)) = rs_journal s"
  by (simp add: insertBatch_def Let_def)

lemma rootsAfter_store:
  "\<exists>c x. snd (rootsAfter cd faults nb s) = s\<lparr>rs_cachedState := c, rs_cachedStateRoot := x\<rparr>"
proof -
  have "\<exists>c x. s = s\<lparr>rs_cachedState := c, rs_cachedStateRoot := x\<rparr>"
    by (intro exI [of _ "rs_cachedState s"] exI [of _ "rs_cachedStateRoot s"]) simp
  then show ?thesis
    by (auto simp: rootsAfter_def warmCacheFromFullReplay_def split: option.splits sum.splits prod.splits)
qed

lemma MaterializeNextBatch_journal [simp]: "rs_journal (snd (MaterializeNextBatch cd faults limit now s)) = rs_journal s"
proof -
  have "rs_journal (snd (rootsAfter cd faults nb s)) = rs_journal s" for nb
    using rootsAfter_store [of cd faults nb s] by auto
  then have "rootsAfter cd faults nb s = (x, s1) \<Longrightarrow> rs_journal s1 = rs_journal s" for nb x s1
    by (metis snd_conv)
  then show ?thesis
    by (auto simp: MaterializeNextBatch_def Let_def split: sum.splits prod.splits)
qed

lemma rows_ok_tx:
  assumes "rows_ok r" and "i < length (rr_open r)" and "tx_fresh (rr_open r ! i) (rs_journal (rr_store r)) p j"
  shows "rows_ok (r\<lparr>rr_store := (rr_store r)\<lparr>rs_journal := j\<rparr>, rr_open := (rr_open r)[i := p]\<rparr>)" (is ?one)
    and "rows_ok (r\<lparr>rr_store := (rr_store r)\<lparr>rs_journal := j\<rparr>, rr_open := remove_nth i (rr_open r)\<rparr>)" (is ?two)
proof -
  let ?n = "jn_next (rs_journal (rr_store r))" and ?rows = "jn_rows (rs_journal (rr_store r))"
  let ?pre = "concat (take i (rr_open r))" and ?o = "rr_open r ! i" and ?post = "concat (drop (Suc i) (rr_open r))"
  obtain new where new: "p = ?o @ new" "sorted_wrt (<) (map je_Sequence new)" "\<forall>x\<in>set new. ?n \<le> je_Sequence x \<and> je_Sequence x < jn_next j"
    and j: "jn_rows j = ?rows" "?n \<le> jn_next j"
    using assms(3) unfolding tx_fresh_def by blast
  have n: "0 < ?n" and old: "seqs_ok ?n (?rows @ ?pre @ ?o @ ?post)"
    using assms(1) concat_at [OF assms(2)] by (simp_all add: rows_ok_def)
  have "seqs_ok (jn_next j) ((?rows @ ?pre @ ?o @ ?post) @ new)" by (rule seqs_ok_new [OF old n j(2) new(3,2)])
  then have "seqs_ok (jn_next j) (?rows @ ?pre @ p @ ?post)" by (rule seqs_ok_perm [rotated]) (simp add: new(1))
  then show ?one using n j by (simp add: rows_ok_def concat_update_at [OF assms(2)])
  have "seqs_ok (jn_next j) ((?rows @ ?pre) @ ?post)" using seqs_ok_sub [of "jn_next j" "?rows @ ?pre" ?o ?post] seqs_ok_mono [OF old j(2)] by simp
  then show ?two using n j by (simp add: rows_ok_def concat_remove_nth)
qed

lemma rows_ok_step: "rollup_step cd env r r' \<Longrightarrow> rows_ok r \<Longrightarrow> rows_ok r'"
proof (induction rule: rollup_step.induct)
  case (begin_tx r)
  then show ?case by (simp add: rows_ok_def)
next
  case (append_tx i r es p j)
  show ?case by (rule rows_ok_tx(1) [OF append_tx(4,1) AppendEntriesTx_fresh [OF append_tx(2)]])
next
  case (fail_tx i r es err p j)
  show ?case by (rule rows_ok_tx(2) [OF fail_tx(3,1) AppendEntriesTx_fresh [OF fail_tx(2)]])
next
  case (commit_tx i r)
  have "seqs_ok (jn_next (rs_journal (rr_store r)))
      ((jn_rows (rs_journal (rr_store r)) @ rr_open r ! i) @ concat (take i (rr_open r)) @ concat (drop (Suc i) (rr_open r)))"
    by (rule seqs_ok_perm [of "jn_rows (rs_journal (rr_store r)) @ concat (rr_open r)"])
       (use commit_tx concat_at [OF commit_tx(1)] in \<open>simp_all add: rows_ok_def\<close>)
  then show ?case using commit_tx by (simp add: rows_ok_def commitTx_def concat_remove_nth)
next
  case (rollback_tx i r)
  have "seqs_ok (jn_next (rs_journal (rr_store r)))
      ((jn_rows (rs_journal (rr_store r)) @ concat (take i (rr_open r))) @ concat (drop (Suc i) (rr_open r)))"
    by (rule seqs_ok_sub [of _ _ "rr_open r ! i"]) (use rollback_tx concat_at [OF rollback_tx(1)] in \<open>simp add: rows_ok_def\<close>)
  then show ?case using rollback_tx by (simp add: rows_ok_def concat_remove_nth)
next
  case (materialize faults limit now r res s)
  have "rs_journal s = rs_journal (rr_store r)"
    using arg_cong [OF materialize(2), of "\<lambda>x. rs_journal (snd x)"] by simp
  then show ?case using materialize(3) by (simp add: rows_ok_def)
qed

section \<open>The invariant of the batches\<close>

lemma batches_ok_list: "batches_ok cd ess t s \<Longrightarrow> ListBatches s = rs_batches s"
  unfolding batches_ok_def ListBatches_def by (metis sort_key_id_if_sorted strict_sorted_imp_sorted sorted_map)

lemma replayLoop_warm: "replayLoop cd bs roots s = (Inr r, s') \<Longrightarrow> warmState cd bs s = Some s'"
  by (induction bs arbitrary: roots s) (auto simp: Let_def split: if_splits sum.splits prod.splits option.splits)

lemma ReplayBatchOnState_cong:
  assumes "sb_InputData b = sb_InputData c" "sb_InputHash b = sb_InputHash c" "sb_PrevStateRoot b = sb_PrevStateRoot c"
    and "ReplayBatchOnState cd b s = (Inr r, s')"
  shows "ReplayBatchOnState cd c s = (Inr r, s')"
  using assms(4) by (auto simp: ReplayBatchOnState_def assms(1-3) Let_def split: if_splits)

lemma ReplayBatchOnState_roots: "ReplayBatchOnState cd b s = (Inr r, s') \<Longrightarrow> r = ss_roots cd s'"
  by (auto simp: ReplayBatchOnState_def Let_def split: if_splits sum.splits prod.splits option.splits)

text \<open>The cached state and the replay of everything give the same roots, and afterwards the cache is the state after the new batch.\<close>

lemma rootsAfter_ok:
  assumes "batches_ok cd ess t s" and "rootsAfter cd faults nb s = (Inr roots, s1)"
  shows "\<exists>t1. ReplayBatchOnState cd nb t = (Inr roots, t1) \<and> roots = ss_roots cd t1 \<and>
    s1 = s\<lparr>rs_cachedState := Some t1, rs_cachedStateRoot := rt_StateRoot (ss_roots cd t1)\<rparr>"
proof -
  have loop: "replayLoop cd (rs_batches s) (ss_roots cd emptyState) emptyState = (Inr (ss_roots cd t), t)" and cache: "cache_ok cd t s"
    using assms(1) by (simp_all add: batches_ok_def)
  have full: ?thesis if rep: "ReplayStoredBatches cd (ListBatches s @ [nb]) = Inr roots"
    and s1: "s1 = warmCacheFromFullReplay cd (ListBatches s @ [nb]) roots s"
  proof -
    obtain t1 where t1: "replayLoop cd (rs_batches s @ [nb]) (ss_roots cd emptyState) emptyState = (Inr roots, t1)"
      using rep unfolding batches_ok_list [OF assms(1)] ReplayStoredBatches_def by (metis prod.collapse)
    then have "ReplayBatchOnState cd nb t = (Inr roots, t1)" using replayLoop_snoc [OF loop] by simp
    moreover have "roots = ss_roots cd t1" by (rule replayLoop_state [OF t1])
    ultimately show ?thesis
      using s1 replayLoop_warm [OF t1] by (auto simp: warmCacheFromFullReplay_def batches_ok_list [OF assms(1)])
  qed
  show ?thesis
  proof (cases "rs_cachedState s")
    case None
    then show ?thesis using assms(2) full by (auto simp: rootsAfter_def split: if_splits sum.splits)
  next
    case (Some state)
    then have "state = t" using cache by (simp add: cache_ok_def)
    show ?thesis
    proof (cases "rs_cachedStateRoot s = sb_PrevStateRoot nb")
      case True
      then obtain t1 where "ReplayBatchOnState cd nb t = (Inr roots, t1)"
          "s1 = s\<lparr>rs_cachedState := Some t1, rs_cachedStateRoot := rt_StateRoot roots\<rparr>"
        using assms(2) Some \<open>state = t\<close> by (auto simp: rootsAfter_def split: sum.splits prod.splits)
      then show ?thesis using ReplayBatchOnState_roots by blast
    next
      case False
      then show ?thesis using assms(2) Some full by (auto simp: rootsAfter_def split: if_splits sum.splits)
    qed
  qed
qed

lemma rootsAfter_error: "rootsAfter cd faults nb s = (Inl err, s1) \<Longrightarrow> s1 = s"
  by (auto simp: rootsAfter_def split: if_splits sum.splits prod.splits option.splits)

lemma loadJournalEntriesAfter_rows:
  assumes "rows_ok r"
  shows "sorted_wrt (<) (map je_Sequence (loadJournalEntriesAfter n limit (rr_store r)))"
    and "set (loadJournalEntriesAfter n limit (rr_store r)) \<subseteq> {row \<in> set (jn_rows (rs_journal (rr_store r))). n < je_Sequence row}"
proof -
  let ?rows = "filter (\<lambda>row. n < je_Sequence row) (jn_rows (rs_journal (rr_store r)))"
  have "distinct (map je_Sequence ?rows)"
    using assms by (simp add: rows_ok_def seqs_ok_def distinct_map_filter)
  then have "distinct (map je_Sequence (sort_key je_Sequence ?rows))"
    by (metis mset_eq_imp_distinct_iff mset_map mset_sort)
  then have "sorted_wrt (<) (map je_Sequence (sort_key je_Sequence ?rows))"
    using sorted_sort_key [of je_Sequence ?rows] by (simp add: strict_sorted_iff)
  then show "sorted_wrt (<) (map je_Sequence (loadJournalEntriesAfter n limit (rr_store r)))"
    by (simp add: loadJournalEntriesAfter_def take_map [symmetric] sorted_wrt_take)
  show "set (loadJournalEntriesAfter n limit (rr_store r)) \<subseteq> {row \<in> set (jn_rows (rs_journal (rr_store r))). n < je_Sequence row}"
    using set_take_subset [of limit "sort_key je_Sequence ?rows"] by (auto simp: loadJournalEntriesAfter_def)
qed

lemma batches_ok_last:
  assumes "batches_ok cd ess t s" and "latestBatch s = Some b" and "row \<in> set (concat ess)"
  shows "je_Sequence row \<le> sb_LastSequence b"
proof -
  have b: "rs_batches s \<noteq> []" "b = last (rs_batches s)"
    using assms(2) batches_ok_list [OF assms(1)] by (auto simp: latestBatch_def split: if_splits)
  have ba: "list_all2 (batch_of cd) (rs_batches s) ess" and srt: "sorted_wrt (<) (map je_Sequence (concat ess))"
    using assms(1) by (simp_all add: batches_ok_def)
  have "ess \<noteq> []" using b(1) ba by auto
  moreover have "length (rs_batches s) = length ess" using ba by (rule list_all2_lengthD)
  ultimately have "batch_of cd b (last ess)"
    using list_all2_nthD [OF ba, of "length ess - 1"] b by (simp add: last_conv_nth)
  then have l: "last ess \<noteq> []" "sb_LastSequence b = je_Sequence (last (last ess))" by (simp_all add: batch_of_def)
  have c: "concat ess = concat (butlast ess) @ butlast (last ess) @ [last (last ess)]"
    using \<open>ess \<noteq> []\<close> l(1) by (metis append_butlast_last_id concat.simps concat_append append_Nil2)
  show ?thesis using assms(3) srt unfolding c l(2) by (auto simp: sorted_wrt_append) fastforce
qed

text \<open>A call either leaves the store as it was, or adds the batch of the next entries.\<close>

lemma MaterializeNextBatch_cases:
  assumes "MaterializeNextBatch cd faults limit now s = (res, s')"
  obtains (unchanged) err where "res = Inl err" "s' = s"
  | (replayed) entries inputData inputHash prev roots s1 where
      "entries = loadJournalEntriesAfter (case latestBatch s of None \<Rightarrow> 0 | Some b \<Rightarrow> sb_LastSequence b) (nat (if limit \<le> 0 then 256 else limit)) s"
      "entries \<noteq> []" "prev = (case latestBatch s of None \<Rightarrow> ZeroStateRoot cd | Some b \<Rightarrow> sb_StateRoot b)"
      "EncodeBatchInput cd entries = Inr (inputData, inputHash)"
      "rootsAfter cd faults (zeroBatch\<lparr>sb_EncodingVersion := BatchEncodingVersion, sb_InputData := inputData, sb_InputHash := inputHash, sb_PrevStateRoot := prev\<rparr>) s = (Inr roots, s1)"
      "insertBatch faults now (batchRecord entries inputData inputHash prev roots) s1 = (res, s')"
  using assms unfolding MaterializeNextBatch_def Let_def
  by (auto split: if_splits sum.splits prod.splits dest: rootsAfter_error)

lemma concat_sorted_snoc:
  assumes "sorted_wrt (<) (map je_Sequence (concat ess))" and "sorted_wrt (<) (map je_Sequence es)"
    and "\<And>x y. x \<in> set (concat ess) \<Longrightarrow> y \<in> set es \<Longrightarrow> je_Sequence x < je_Sequence y"
  shows "sorted_wrt (<) (map je_Sequence (concat (ess @ [es])))"
  using assms by (simp add: sorted_wrt_append)

lemma batches_ok_snoc:
  assumes ok: "batches_ok cd ess t s" and es: "es \<noteq> []" "EncodeBatchInput cd es = Inr (inputData, inputHash)"
    and sorted: "sorted_wrt (<) (map je_Sequence (concat (ess @ [es])))" and rows: "set es \<subseteq> set (jn_rows (rs_journal s))"
    and replay: "ReplayBatchOnState cd (zeroBatch\<lparr>sb_EncodingVersion := BatchEncodingVersion, sb_InputData := inputData, sb_InputHash := inputHash, sb_PrevStateRoot := prev\<rparr>) t = (Inr (ss_roots cd t1), t1)"
    and s1: "s1 = s\<lparr>rs_cachedState := Some t1, rs_cachedStateRoot := rt_StateRoot (ss_roots cd t1)\<rparr>"
    and stored: "b = (batchRecord es inputData inputHash prev (ss_roots cd t1))\<lparr>sb_BatchID := rs_nextBatch s1, sb_CreatedAt := now\<rparr>"
  shows "batches_ok cd (ess @ [es]) t1 (s1\<lparr>rs_batches := rs_batches s1 @ [b], rs_nextBatch := rs_nextBatch s1 + 1\<rparr>)"
proof -
  have loop: "replayLoop cd (rs_batches s) (ss_roots cd emptyState) emptyState = (Inr (ss_roots cd t), t)"
    using ok by (simp add: batches_ok_def)
  have "ReplayBatchOnState cd b t = (Inr (ss_roots cd t1), t1)"
    by (rule ReplayBatchOnState_cong [OF _ _ _ replay]) (simp_all add: stored batchRecord_def zeroBatch_def)
  then have "replayLoop cd (rs_batches s @ [b]) (ss_roots cd emptyState) emptyState = (Inr (ss_roots cd t1), t1)"
    using replayLoop_snoc [OF loop] by simp
  moreover have "batch_of cd b es" using es by (simp add: batch_of_def stored batchRecord_def)
  then have "list_all2 (batch_of cd) (rs_batches s @ [b]) (ess @ [es])"
    using ok by (intro list_all2_appendI) (simp_all add: batches_ok_def)
  moreover have "sorted_wrt (<) (map sb_BatchID (rs_batches s @ [b]))" "\<forall>c\<in>set (rs_batches s @ [b]). sb_BatchID c < rs_nextBatch s + 1"
    using ok by (auto simp: batches_ok_def stored s1 sorted_wrt_append dest!: bspec)
  moreover have "sb_StateRoot b = rt_StateRoot (ss_roots cd t1)" by (simp add: stored batchRecord_def)
  moreover have "set (concat (ess @ [es])) \<subseteq> set (jn_rows (rs_journal s))"
    using ok rows by (simp add: batches_ok_def)
  ultimately show ?thesis
    using sorted unfolding batches_ok_def s1 by (simp add: cache_ok_def del: replayLoop.simps)
qed

text \<open>The entries of a new batch come after the entries of all earlier ones.\<close>

definition extends :: "JournalEntry list list \<Rightarrow> JournalEntry list list \<Rightarrow> bool" where
  "extends ess ess' \<longleftrightarrow> ess' = ess \<or> (\<exists>es. ess' = ess @ [es] \<and> (\<forall>x\<in>set (concat ess). \<forall>y\<in>set es. je_Sequence x < je_Sequence y))"

lemma insertBatch_fresh:
  assumes ok: "batches_ok cd ess t s" and new: "\<And>x. x \<in> set (concat ess) \<Longrightarrow> je_Sequence x < sb_LastSequence b"
    and "''insert'' \<notin> set faults" and "rs_batches s1 = rs_batches s"
  shows "insertBatch faults now b s1 = (let stored = b\<lparr>sb_BatchID := rs_nextBatch s1, sb_CreatedAt := now\<rparr>
    in (Inr stored, s1\<lparr>rs_batches := rs_batches s1 @ [stored], rs_nextBatch := rs_nextBatch s1 + 1\<rparr>))"
proof -
  have "sb_LastSequence c \<noteq> sb_LastSequence b" if "c \<in> set (rs_batches s)" for c
  proof -
    have ba: "list_all2 (batch_of cd) (rs_batches s) ess" using ok by (simp add: batches_ok_def)
    from that obtain i where i: "i < length (rs_batches s)" "c = rs_batches s ! i" by (metis in_set_conv_nth)
    then have "batch_of cd c (ess ! i)" "ess ! i \<in> set ess"
      using list_all2_nthD [OF ba i(1)] list_all2_lengthD [OF ba] by simp_all
    then have l: "last (ess ! i) \<in> set (ess ! i)" "sb_LastSequence c = je_Sequence (last (ess ! i))"
      by (simp_all add: batch_of_def)
    have "last (ess ! i) \<in> set (concat ess)" using l(1) \<open>ess ! i \<in> set ess\<close> by auto
    then show ?thesis using new [of "last (ess ! i)"] l(2) by linarith
  qed
  then show ?thesis using assms(3,4) by (auto simp: insertBatch_def)
qed

lemma materialize_ok:
  assumes rows: "rows_ok r" and ok: "batches_ok cd ess t (rr_store r)"
    and run: "MaterializeNextBatch cd faults limit now (rr_store r) = (res, s')" and f: "''insert'' \<notin> set faults"
  shows "\<exists>ess' t'. batches_ok cd ess' t' s' \<and> extends ess ess'"
  using run
proof (cases rule: MaterializeNextBatch_cases)
  case unchanged
  then show ?thesis using ok by (auto simp: extends_def)
next
  case (replayed entries inputData inputHash prev roots s1)
  define n where "n = (case latestBatch (rr_store r) of None \<Rightarrow> 0 | Some b \<Rightarrow> sb_LastSequence b)"
  have sorted: "sorted_wrt (<) (map je_Sequence entries)" and sub: "set entries \<subseteq> set (jn_rows (rs_journal (rr_store r)))"
    and after: "\<And>y. y \<in> set entries \<Longrightarrow> n < je_Sequence y"
    using loadJournalEntriesAfter_rows [OF rows, of n "nat (if limit \<le> 0 then 256 else limit)"]
    unfolding replayed(1) n_def [symmetric] by blast+
  have before: "je_Sequence x \<le> n" if "x \<in> set (concat ess)" for x
  proof (cases "latestBatch (rr_store r)")
    case None
    then have "rs_batches (rr_store r) = []" by (simp add: latestBatch_def split: if_splits)
    then have "ess = []" using ok by (simp add: batches_ok_def)
    then show ?thesis using that by simp
  next
    case (Some b)
    then show ?thesis using batches_ok_last [OF ok Some that] by (simp add: n_def)
  qed
  have less: "je_Sequence x < je_Sequence y" if "x \<in> set (concat ess)" "y \<in> set entries" for x y
    using before [OF that(1)] after [OF that(2)] by linarith
  have srt: "sorted_wrt (<) (map je_Sequence (concat (ess @ [entries])))"
    using concat_sorted_snoc [OF _ sorted less] ok unfolding batches_ok_def by blast
  obtain t1 where t1: "ReplayBatchOnState cd (zeroBatch\<lparr>sb_EncodingVersion := BatchEncodingVersion, sb_InputData := inputData, sb_InputHash := inputHash, sb_PrevStateRoot := prev\<rparr>) t = (Inr (ss_roots cd t1), t1)"
      "roots = ss_roots cd t1" "s1 = (rr_store r)\<lparr>rs_cachedState := Some t1, rs_cachedStateRoot := rt_StateRoot (ss_roots cd t1)\<rparr>"
    using rootsAfter_ok [OF ok replayed(5)] by blast
  have "insertBatch faults now (batchRecord entries inputData inputHash prev roots) s1 =
      (let stored = (batchRecord entries inputData inputHash prev roots)\<lparr>sb_BatchID := rs_nextBatch s1, sb_CreatedAt := now\<rparr>
       in (Inr stored, s1\<lparr>rs_batches := rs_batches s1 @ [stored], rs_nextBatch := rs_nextBatch s1 + 1\<rparr>))"
  proof (rule insertBatch_fresh [OF ok _ f])
    show "je_Sequence x < sb_LastSequence (batchRecord entries inputData inputHash prev roots)" if "x \<in> set (concat ess)" for x
      using less [OF that last_in_set [OF replayed(2)]] by (simp add: batchRecord_def)
  qed (simp add: t1(3))
  then have "s' = s1\<lparr>rs_batches := rs_batches s1 @ [(batchRecord entries inputData inputHash prev (ss_roots cd t1))\<lparr>sb_BatchID := rs_nextBatch s1, sb_CreatedAt := now\<rparr>], rs_nextBatch := rs_nextBatch s1 + 1\<rparr>"
    using replayed(6) t1(2) by (simp add: Let_def)
  then have "batches_ok cd (ess @ [entries]) t1 s'"
    using batches_ok_snoc [OF ok replayed(2,4) srt sub t1(1,3) refl] by simp
  moreover have "extends ess (ess @ [entries])" unfolding extends_def using less by blast
  ultimately show ?thesis by blast
qed

lemma rollup_step_ok:
  assumes "rollup_step cd env r r'" and "rows_ok r" and "batches_ok cd ess t (rr_store r)"
  shows "\<exists>ess' t'. batches_ok cd ess' t' (rr_store r') \<and> extends ess ess'"
  using assms
proof (induction rule: rollup_step.induct)
  case (materialize faults limit now r res s)
  show ?case using materialize_ok [OF materialize(3,4,2,1)] by simp
next
  case (append_tx i r es p j)
  have "jn_rows j = jn_rows (rs_journal (rr_store r))" using AppendEntriesTx_fresh [OF append_tx(2)] by (simp add: tx_fresh_def)
  then have "batches_ok cd ess t ((rr_store r)\<lparr>rs_journal := j\<rparr>)" using append_tx(5) by (simp add: batches_ok_def cache_ok_def)
  then show ?case by (auto simp: extends_def)
next
  case (fail_tx i r es err p j)
  have "jn_rows j = jn_rows (rs_journal (rr_store r))" using AppendEntriesTx_fresh [OF fail_tx(2)] by (simp add: tx_fresh_def)
  then have "batches_ok cd ess t ((rr_store r)\<lparr>rs_journal := j\<rparr>)" using fail_tx(4) by (simp add: batches_ok_def cache_ok_def)
  then show ?case by (auto simp: extends_def)
next
  case (commit_tx i r)
  have "batches_ok cd ess t ((rr_store r)\<lparr>rs_journal := commitTx (rr_open r ! i, rs_journal (rr_store r))\<rparr>)"
    using commit_tx(3) by (simp add: batches_ok_def cache_ok_def commitTx_def subset_iff)
  then show ?case by (auto simp: extends_def)
qed (auto simp: extends_def)

lemma batches_ok_init: "batches_ok cd [] emptyState initStore"
  by (simp add: batches_ok_def initStore_def cache_ok_def)

lemma rollup_runs_ok:
  assumes "rollup_runs cd env rollup_init r"
  shows "rows_ok r \<and> (\<exists>ess t. batches_ok cd ess t (rr_store r))"
  using assms
proof (induction rule: rtranclp_induct)
  case base
  have "rr_store rollup_init = initStore" by (simp add: rollup_init_def)
  then show ?case using rows_ok_init batches_ok_init by metis
next
  case (step r r')
  then obtain ess t where "batches_ok cd ess t (rr_store r)" by blast
  then show ?case using rows_ok_step [OF step(2)] rollup_step_ok [OF step(2)] step(3) by metis
qed

lemma DecodeBatchInput_batch:
  assumes "batch_codec_ok cd" and "batch_of cd b es"
  shows "DecodeBatchInput cd (sb_InputData b) = Inr \<lparr>bi_EncodingVersion = BatchEncodingVersion, bi_Entries = es\<rparr>"
proof -
  have "TrimSpace BatchEncodingVersion = BatchEncodingVersion" by code_simp
  then show ?thesis
    using assms by (auto simp: batch_codec_ok_def batch_of_def EncodeBatchInput_def DecodeBatchInput_def split: sum.splits)
qed

lemma batches_ok_state:
  assumes "batch_codec_ok cd" and "batches_ok cd ess t s"
  shows "applyAll cd (concat ess) emptyState = (None, t)"
proof -
  have ba: "list_all2 (batch_of cd) (rs_batches s) ess"
    and loop: "replayLoop cd (rs_batches s) (ss_roots cd emptyState) emptyState = (Inr (ss_roots cd t), t)"
    using assms(2) by (simp_all add: batches_ok_def)
  from replayLoop_entries [OF loop] obtain ess' where
      e: "list_all2 (\<lambda>b es. \<exists>i. DecodeBatchInput cd (sb_InputData b) = Inr i \<and> bi_Entries i = es) (rs_batches s) ess'"
      "applyAll cd (concat ess') emptyState = (None, t)" by blast
  have "ess' = ess"
  proof (rule nth_equalityI)
    show "length ess' = length ess" using list_all2_lengthD [OF ba] list_all2_lengthD [OF e(1)] by simp
    fix i assume "i < length ess'"
    then have i: "i < length (rs_batches s)" using list_all2_lengthD [OF e(1)] by simp
    show "ess' ! i = ess ! i"
      using list_all2_nthD [OF e(1) i] DecodeBatchInput_batch [OF assms(1) list_all2_nthD [OF ba i]] by auto
  qed
  then show ?thesis using e(2) by simp
qed

text \<open>A row that the batches have passed over stays out of them.\<close>

definition passed_over :: "JournalEntry \<Rightarrow> JournalEntry list list \<Rightarrow> bool" where
  "passed_over row ess \<longleftrightarrow> row \<notin> set (concat ess) \<and> (\<exists>x\<in>set (concat ess). je_Sequence row < je_Sequence x)"

lemma passed_over_extends: "passed_over row ess \<Longrightarrow> extends ess ess' \<Longrightarrow> passed_over row ess'"
proof -
  assume p: "passed_over row ess" and e: "extends ess ess'"
  then obtain x where x: "x \<in> set (concat ess)" "je_Sequence row < je_Sequence x" "row \<notin> set (concat ess)" by (auto simp: passed_over_def)
  show "passed_over row ess'"
  proof (cases "ess' = ess")
    case False
    then obtain es where es: "ess' = ess @ [es]" "\<forall>x\<in>set (concat ess). \<forall>y\<in>set es. je_Sequence x < je_Sequence y"
      using e unfolding extends_def by blast
    have "row \<notin> set es" using bspec [OF es(2) x(1)] x(2) by (meson less_asym)
    then show ?thesis using x es(1) by (auto simp: passed_over_def)
  qed (simp add: p)
qed

lemma passed_over_runs:
  assumes "rollup_runs cd env r r'" and "rows_ok r" and "batches_ok cd ess t (rr_store r)" and "passed_over row ess"
  shows "\<exists>ess' t'. batches_ok cd ess' t' (rr_store r') \<and> passed_over row ess' \<and> rows_ok r'"
  using assms
proof (induction rule: rtranclp_induct)
  case base
  then show ?case by blast
next
  case (step r1 r2)
  then obtain ess1 t1 where o: "batches_ok cd ess1 t1 (rr_store r1)" "passed_over row ess1" "rows_ok r1" by blast
  from rollup_step_ok [OF step(2) o(3,1)] obtain ess2 t2 where "batches_ok cd ess2 t2 (rr_store r2)" "extends ess1 ess2" by blast
  then show ?case using passed_over_extends [OF o(2), of ess2] rows_ok_step [OF step(2) o(3)] by metis
qed

text \<open>The entries of the stored batches, as the batches encode them.\<close>

definition batchEntries :: "Codec \<Rightarrow> Store \<Rightarrow> JournalEntry list" where
  "batchEntries cd s =
     concat (map (\<lambda>b. case DecodeBatchInput cd (sb_InputData b) of Inl _ \<Rightarrow> [] | Inr input \<Rightarrow> bi_Entries input) (rs_batches s))"

lemma batchEntries_ok:
  assumes "batch_codec_ok cd" and "batches_ok cd ess t s"
  shows "batchEntries cd s = concat ess"
proof -
  have "list_all2 (batch_of cd) bs ess \<Longrightarrow>
      map (\<lambda>b. case DecodeBatchInput cd (sb_InputData b) of Inl _ \<Rightarrow> [] | Inr input \<Rightarrow> bi_Entries input) bs = ess" for bs ess
    by (induction rule: list_all2_induct) (simp_all add: DecodeBatchInput_batch [OF assms(1)])
  then show ?thesis using assms(2) unfolding batches_ok_def batchEntries_def by metis
qed

section \<open>Properties\<close>



text \<open>
  Two deposits in two transactions. The first one takes number 1, the second one number 2; the second
  one commits, a batch is cut, and only then the first one commits.
\<close>

definition late_env :: JournalEnv where
  "late_env = \<lparr>jv_marshal = (\<lambda>_. Inr ''usdt''), jv_newID = itoa\<rparr>"

definition late_entry :: "string \<Rightarrow> JournalAppend" where
  "late_entry ref = \<lparr>ja_EntryID = '''', ja_EntryType = EntryTypeDepositCredited, ja_SourceType = ''CHAIN_DEPOSIT'', ja_SourceRef = ref, ja_OccurredAtMillis = 0,
     ja_Payload = PDepositCredited \<lparr>dp_DepositID = ref, dp_AccountID = 1, dp_WalletAddress = '''', dp_VaultAddress = '''', dp_Asset = ''USDT'', dp_Amount = 500,
       dp_ChainName = '''', dp_NetworkName = '''', dp_TxHash = '''', dp_LogIndex = 0, dp_BlockNumber = 0, dp_OccurredAtMillis = 0\<rparr>\<rparr>"

definition late_row :: "i64 \<Rightarrow> string \<Rightarrow> JournalEntry" where
  "late_row n ref = \<lparr>je_Sequence = n, je_EntryID = itoa n, je_EntryType = EntryTypeDepositCredited, je_SourceType = ''CHAIN_DEPOSIT'', je_SourceRef = ref,
     je_OccurredAtMillis = 0, je_Payload = ''usdt''\<rparr>"

definition late_input :: BatchInput where
  "late_input = \<lparr>bi_EncodingVersion = BatchEncodingVersion, bi_Entries = [late_row 2 ''d2'']\<rparr>"

definition late_codec :: Codec where
  "late_codec = ex_codec\<lparr>enc_Batch := (\<lambda>b. if b = late_input then Inr ''in'' else Inl ''not encoded''), dec_Batch := (\<lambda>_. Inr late_input)\<rparr>"

definition late_store :: "JournalEntry list \<Rightarrow> i64 \<Rightarrow> Store" where
  "late_store rows n = initStore\<lparr>rs_journal := \<lparr>jn_rows = rows, jn_next = n\<rparr>\<rparr>"

definition late_batched :: Store where
  "late_batched = snd (MaterializeNextBatch late_codec [] 0 0 (late_store [late_row 2 ''d2''] 3))"

definition late_final :: RollupRun where
  "late_final = \<lparr>rr_store = late_batched\<lparr>rs_journal := commitTx ([late_row 1 ''d1''], rs_journal late_batched)\<rparr>, rr_open = []\<rparr>"

lemma late_codec_ok: "batch_codec_ok late_codec"
  by (simp add: batch_codec_ok_def late_codec_def)

lemma late_run: "rollup_runs late_codec late_env rollup_init late_final"
proof -
  let ?s = "rollup_step late_codec late_env"
  define r1 where "r1 = \<lparr>rr_store = late_store [] 1, rr_open = [[]]\<rparr>"
  define r2 where "r2 = \<lparr>rr_store = late_store [] 1, rr_open = [[], []]\<rparr>"
  define r3 where "r3 = \<lparr>rr_store = late_store [] 2, rr_open = [[late_row 1 ''d1''], []]\<rparr>"
  define r4 where "r4 = \<lparr>rr_store = late_store [] 3, rr_open = [[late_row 1 ''d1''], [late_row 2 ''d2'']]\<rparr>"
  define r5 where "r5 = \<lparr>rr_store = late_store [late_row 2 ''d2''] 3, rr_open = [[late_row 1 ''d1'']]\<rparr>"
  define r6 where "r6 = \<lparr>rr_store = late_batched, rr_open = [[late_row 1 ''d1'']]\<rparr>"
  have "?s rollup_init r1" using begin_tx [of late_codec late_env rollup_init]
    by (simp add: r1_def rollup_init_def late_store_def initStore_def)
  moreover have "?s r1 r2" using begin_tx [of late_codec late_env r1] by (simp add: r1_def r2_def)
  moreover have "AppendEntriesTx late_env [late_entry ''d1''] ([], \<lparr>jn_rows = [], jn_next = 1\<rparr>) = (None, ([late_row 1 ''d1''], \<lparr>jn_rows = [], jn_next = 2\<rparr>))"
    by code_simp
  then have "?s r2 r3" using append_tx [of 0 r2 late_env "[late_entry ''d1'']" "[late_row 1 ''d1'']" "\<lparr>jn_rows = [], jn_next = 2\<rparr>" late_codec]
    by (simp add: r2_def r3_def late_store_def remove_nth_def)
  moreover have "AppendEntriesTx late_env [late_entry ''d2''] ([], \<lparr>jn_rows = [], jn_next = 2\<rparr>) = (None, ([late_row 2 ''d2''], \<lparr>jn_rows = [], jn_next = 3\<rparr>))"
    "sourceKey (late_row 1 ''d1'') \<noteq> sourceKey (late_row 2 ''d2'')" "je_EntryID (late_row 1 ''d1'') \<noteq> je_EntryID (late_row 2 ''d2'')"
    by code_simp+
  then have "?s r3 r4" using append_tx [of 1 r3 late_env "[late_entry ''d2'']" "[late_row 2 ''d2'']" "\<lparr>jn_rows = [], jn_next = 3\<rparr>" late_codec]
    by (auto simp: r3_def r4_def late_store_def remove_nth_def)
  moreover have "?s r4 r5" using commit_tx [of 1 r4 late_codec late_env] by (simp add: r4_def r5_def late_store_def commitTx_def remove_nth_def)
  moreover have "?s r5 r6" using materialize [of "[]" late_codec 0 0 r5 "fst (MaterializeNextBatch late_codec [] 0 0 (rr_store r5))" late_batched late_env]
    by (simp add: r5_def r6_def late_batched_def)
  moreover have "?s r6 late_final" using commit_tx [of 0 r6 late_codec late_env] by (simp add: r6_def late_final_def remove_nth_def)
  ultimately show ?thesis by (meson rtranclp.rtrancl_refl rtranclp.rtrancl_into_rtrancl)
qed

lemma late_hash: "hashStrings late_codec xs = hexEncode ''hash''"
  by (simp add: hashStrings_def late_codec_def ex_codec_def)

lemma late_materialized:
  obtains b where "rs_batches late_batched = [b]" "sb_InputData b = ''in''" "sb_LastSequence b = 2" "rs_journal late_batched = \<lparr>jn_rows = [late_row 2 ''d2''], jn_next = 3\<rparr>"
proof -
  let ?st = "late_store [late_row 2 ''d2''] 3"
  have trim: "TrimSpace (hexEncode ''hash'') = hexEncode ''hash''" "hexEncode ''hash'' \<noteq> []" by code_simp+
  have zero: "ZeroStateRoot late_codec = hexEncode ''hash''" by (simp add: ZeroStateRoot_def late_hash)
  have "fst (applyAll late_codec [late_row 2 ''d2''] emptyState) = None" by code_simp
  then obtain t where t: "applyAll late_codec [late_row 2 ''d2''] emptyState = (None, t)"
    by (cases "applyAll late_codec [late_row 2 ''d2''] emptyState") simp
  have load: "loadJournalEntriesAfter 0 256 ?st = [late_row 2 ''d2'']"
    by (simp add: loadJournalEntriesAfter_def late_store_def late_row_def)
  have enc: "EncodeBatchInput late_codec [late_row 2 ''d2''] = Inr (''in'', hexEncode ''hash'')"
  proof -
    have "enc_Batch late_codec \<lparr>bi_EncodingVersion = BatchEncodingVersion, bi_Entries = [late_row 2 ''d2'']\<rparr> = Inr ''in''"
      by (simp add: late_codec_def late_input_def)
    then show ?thesis by (simp add: EncodeBatchInput_def late_hash)
  qed
  have "TrimSpace BatchEncodingVersion = BatchEncodingVersion" by code_simp
  then have dec: "DecodeBatchInput late_codec ''in'' = Inr late_input"
    by (simp add: DecodeBatchInput_def late_codec_def late_input_def)
  have empty: "latestBatch ?st = None" "rs_cachedState ?st = None" "ListBatches ?st = []" "rs_batches ?st = []" "rs_nextBatch ?st = 1"
    "rs_journal ?st = \<lparr>jn_rows = [late_row 2 ''d2''], jn_next = 3\<rparr>"
    by (simp_all add: latestBatch_def ListBatches_def late_store_def initStore_def)
  let ?nb = "zeroBatch\<lparr>sb_EncodingVersion := BatchEncodingVersion, sb_InputData := ''in'', sb_InputHash := hexEncode ''hash'', sb_PrevStateRoot := hexEncode ''hash''\<rparr>"
  have rep: "replayLoop late_codec [?nb] (ss_roots late_codec emptyState) emptyState = (Inr (ss_roots late_codec t), t)"
    using t by (simp add: Let_def roots_empty zero late_hash trim dec late_input_def del: applyAll.simps)
  have "rootsAfter late_codec [] ?nb ?st =
      (Inr (ss_roots late_codec t), warmCacheFromFullReplay late_codec [?nb] (ss_roots late_codec t) ?st)"
    by (simp only: rootsAfter_def empty option.case list.set empty_iff if_False append_Nil ReplayStoredBatches_def rep fst_conv sum.case)
  moreover have "warmCacheFromFullReplay late_codec [?nb] (ss_roots late_codec t) ?st = ?st\<lparr>rs_cachedState := Some t, rs_cachedStateRoot := rt_StateRoot (ss_roots late_codec t)\<rparr>"
    by (simp only: warmCacheFromFullReplay_def replayLoop_warm [OF rep] option.case)
  ultimately have lb: "late_batched = snd (insertBatch [] 0 (batchRecord [late_row 2 ''d2''] ''in'' (hexEncode ''hash'') (hexEncode ''hash'') (ss_roots late_codec t))
      (?st\<lparr>rs_cachedState := Some t, rs_cachedStateRoot := rt_StateRoot (ss_roots late_codec t)\<rparr>))"
    by (simp add: late_batched_def MaterializeNextBatch_def Let_def empty load enc zero)
  have "je_Sequence (late_row 2 ''d2'') = 2" by (simp add: late_row_def)
  then show ?thesis
    by (intro that [of "hd (rs_batches late_batched)"]) (simp_all add: lb insertBatch_def Let_def empty batchRecord_def)
qed

lemma late_facts:
  "batchEntries late_codec (rr_store late_final) = [late_row 2 ''d2'']"
  "late_row 1 ''d1'' \<in> set (jn_rows (rs_journal (rr_store late_final)))"
  "map_option sb_LastSequence (latestBatch (rr_store late_final)) = Some 2"
proof -
  have "TrimSpace BatchEncodingVersion = BatchEncodingVersion" by code_simp
  then have dec: "DecodeBatchInput late_codec ''in'' = Inr late_input"
    by (simp add: DecodeBatchInput_def late_codec_def late_input_def)
  obtain b where b: "rs_batches late_batched = [b]" "sb_InputData b = ''in''" "sb_LastSequence b = 2"
      "rs_journal late_batched = \<lparr>jn_rows = [late_row 2 ''d2''], jn_next = 3\<rparr>"
    by (rule late_materialized)
  show "batchEntries late_codec (rr_store late_final) = [late_row 2 ''d2'']"
    by (simp add: batchEntries_def late_final_def b dec late_input_def)
  show "late_row 1 ''d1'' \<in> set (jn_rows (rs_journal (rr_store late_final)))"
    by (simp add: late_final_def commitTx_def b)
  show "map_option sb_LastSequence (latestBatch (rr_store late_final)) = Some 2"
    by (simp add: late_final_def latestBatch_def ListBatches_def b)
qed



end
