(* ===== verification/Settlement.thy ===== *)
theory Settlement
  imports Rollup_Journal Account_Events
begin

text \<open>
  The settlement service: the processor of position and market events (\<open>settlement/service/processor.go\<close>),
  the store interface with its in-memory implementation (\<open>store.go\<close>), the PostgreSQL implementation
  (\<open>sql_store.go\<close>) and the journal entries it writes (\<open>rollup_shadow.go\<close>). The tables are
  association lists under their primary keys; each operation of the SQL store is one transaction, a predicate says
  which of its statements fail, and \<open>BIGINT\<close> arithmetic fails where it leaves 64 bits. Position keys
  are triples of market, user and outcome.
\<close>

section \<open>Types (store.go)\<close>

record ResolveMarketInput =
  ri_MarketID :: i64
  ri_ResolvedOutcome :: string
  ri_OccurredAtMillis :: i64

type_synonym st_positionKey = "i64 \<times> i64 \<times> string"

record winningPosition =
  wi_MarketID :: i64
  wi_UserID :: i64
  wi_Outcome :: string
  wi_Quantity :: i64

record cancelledOrder =
  co_OrderID :: string
  co_CommandID :: string
  co_ClientOrderID :: string
  co_UserID :: i64
  co_MarketID :: i64
  co_Outcome :: string
  co_Side :: string
  co_OrderType :: string
  co_TimeInForce :: string
  co_CollateralAsset :: string
  co_FreezeID :: string
  co_FreezeAsset :: string
  co_FreezeAmount :: i64
  co_Price :: i64
  co_Quantity :: i64
  co_FilledQuantity :: i64
  co_RemainingQuantity :: i64
  co_Status :: string
  co_CancelReason :: string
  co_UpdatedAtMillis :: i64

datatype settle_error =
  StatementFailed string
| BigintOutOfRange
| AlreadyResolved i64 string
| JournalFailed journal_error
| PayoutFailed asset_error
| PublishFailed string
| BadEvent string

record 's PositionStore =
  st_ApplyDelta :: "i64 \<Rightarrow> i64 \<Rightarrow> string \<Rightarrow> string \<Rightarrow> i64 \<Rightarrow> 's \<Rightarrow> settle_error option \<times> 's"
  st_ResolveMarket :: "ResolveMarketInput \<Rightarrow> 's \<Rightarrow> (settle_error + bool) \<times> 's"
  st_CancelActiveOrders :: "i64 \<Rightarrow> string \<Rightarrow> 's \<Rightarrow> (settle_error + cancelledOrder list) \<times> 's"
  st_WinningPositions :: "i64 \<Rightarrow> string \<Rightarrow> 's \<Rightarrow> settle_error + winningPosition list"
  st_MarkSettled :: "SettlementCompletedEvent \<Rightarrow> 's \<Rightarrow> settle_error option \<times> 's"
  st_RollupFrozen :: "'s \<Rightarrow> settle_error + bool"

section \<open>The store in memory (store.go)\<close>

record positionStore =
  ps_positions :: "(st_positionKey \<times> i64) list"
  ps_resolved :: "(i64 \<times> string) list"
  ps_settled :: "st_positionKey list"

definition newPositionStore :: positionStore where
  "newPositionStore = \<lparr>ps_positions = [], ps_resolved = [], ps_settled = []\<rparr>"

definition mem_ApplyDelta :: "i64 \<Rightarrow> i64 \<Rightarrow> string \<Rightarrow> string \<Rightarrow> i64 \<Rightarrow> positionStore \<Rightarrow> settle_error option \<times> positionStore" where
  "mem_ApplyDelta marketID userID outcome positionAsset delta s =
     (let key = (marketID, userID, outcome); old = (case map_of (ps_positions s) key of None \<Rightarrow> 0 | Some q \<Rightarrow> q)
      in (None, s\<lparr>ps_positions := AList.update key (wrap64 (old + delta)) (ps_positions s)\<rparr>))"

definition mem_ResolveMarket :: "ResolveMarketInput \<Rightarrow> positionStore \<Rightarrow> (settle_error + bool) \<times> positionStore" where
  "mem_ResolveMarket input s =
     (case map_of (ps_resolved s) (ri_MarketID input) of
        Some existing \<Rightarrow> if existing = ri_ResolvedOutcome input then (Inr False, s) else (Inl (AlreadyResolved (ri_MarketID input) existing), s)
      | None \<Rightarrow> (Inr True, s\<lparr>ps_resolved := AList.update (ri_MarketID input) (ri_ResolvedOutcome input) (ps_resolved s)\<rparr>))"

definition mem_WinningPositions :: "i64 \<Rightarrow> string \<Rightarrow> positionStore \<Rightarrow> settle_error + winningPosition list" where
  "mem_WinningPositions marketID outcome s =
     Inr (map (\<lambda>((m, u, out), qty). \<lparr>wi_MarketID = marketID, wi_UserID = u, wi_Outcome = outcome, wi_Quantity = qty\<rparr>)
            (filter (\<lambda>((m, u, out), qty). m = marketID \<and> out = outcome \<and> 0 < qty \<and> (m, u, out) \<notin> set (ps_settled s)) (ps_positions s)))"

definition mem_CancelActiveOrders :: "i64 \<Rightarrow> string \<Rightarrow> positionStore \<Rightarrow> (settle_error + cancelledOrder list) \<times> positionStore" where
  "mem_CancelActiveOrders marketID reason s = (Inr [], s)"

definition mem_MarkSettled :: "SettlementCompletedEvent \<Rightarrow> positionStore \<Rightarrow> settle_error option \<times> positionStore" where
  "mem_MarkSettled event s = (None, s\<lparr>ps_settled := List.insert (sc_MarketID event, sc_UserID event, sc_WinningOutcome event) (ps_settled s)\<rparr>)"

definition memStore :: "positionStore PositionStore" where
  "memStore = \<lparr>st_ApplyDelta = mem_ApplyDelta, st_ResolveMarket = mem_ResolveMarket, st_CancelActiveOrders = mem_CancelActiveOrders,
     st_WinningPositions = mem_WinningPositions, st_MarkSettled = mem_MarkSettled, st_RollupFrozen = (\<lambda>_. Inr False)\<rparr>"

section \<open>Journal entries (rollup\_shadow.go)\<close>

record resolutionRecord =
  rr_Status :: string
  rr_ResolvedOutcome :: string
  rr_ResolverType :: string
  rr_ResolverRef :: string
  rr_Evidence :: string

text \<open>What the SQL store is given: the journal (or none), the hash, the decoder of evidence, the clock in seconds, and the statements that fail.\<close>

record SettleEnv =
  se_journal :: "JournalEnv option"
  se_codec :: Codec
  se_attestation :: "string \<Rightarrow> string + OracleAttestationWitness option"
  se_now :: i64
  se_faults :: "string \<Rightarrow> bool"

definition normalizeResolutionEvidence :: "string \<Rightarrow> string" where
  "normalizeResolutionEvidence raw = (if raw = '''' then ''{}'' else raw)"

definition hashResolutionEvidence :: "Codec \<Rightarrow> string \<Rightarrow> string" where
  "hashResolutionEvidence cd raw = hexEncode (sha256 cd (normalizeResolutionEvidence raw))"

definition extractOracleAttestation :: "SettleEnv \<Rightarrow> string \<Rightarrow> OracleAttestationWitness option" where
  "extractOracleAttestation env raw =
     (if raw = '''' then None
      else case se_attestation env raw of
             Inl _ \<Rightarrow> None
           | Inr None \<Rightarrow> None
           | Inr (Some a) \<Rightarrow> if at_Signature a = '''' then None else Some a)"

definition buildMarketResolvedEntry :: "SettleEnv \<Rightarrow> ResolveMarketInput \<Rightarrow> resolutionRecord \<Rightarrow> JournalAppend" where
  "buildMarketResolvedEntry env input rec =
     \<lparr>ja_EntryID = '''', ja_EntryType = EntryTypeMarketResolved, ja_SourceType = ''SETTLEMENT_MARKET'', ja_SourceRef = itoa (ri_MarketID input),
      ja_OccurredAtMillis = ri_OccurredAtMillis input,
      ja_Payload = PMarketResolved
        \<lparr>mp_MarketID = ri_MarketID input, mp_ResolvedOutcome = ri_ResolvedOutcome input, mp_ResolverType = normU (rr_ResolverType rec),
         mp_ResolverRef = TrimSpace (rr_ResolverRef rec), mp_EvidenceHash = hashResolutionEvidence (se_codec env) (rr_Evidence rec),
         mp_OccurredAtMillis = ri_OccurredAtMillis input, mp_OracleAttestation = extractOracleAttestation env (rr_Evidence rec)\<rparr>\<rparr>"

definition settlementReserveAsset :: "cancelledOrder \<Rightarrow> string" where
  "settlementReserveAsset order =
     (if normU (co_Side order) = ''SELL'' then ''POSITION:'' @ itoa (co_MarketID order) @ '':'' @ normU (co_Outcome order)
      else if normU (co_FreezeAsset order) \<noteq> '''' then normU (co_FreezeAsset order)
      else if normU (co_CollateralAsset order) \<noteq> '''' then normU (co_CollateralAsset order)
      else ''USDT'')"

definition settlementCancellationEntry :: "cancelledOrder \<Rightarrow> JournalAppend" where
  "settlementCancellationEntry order =
     \<lparr>ja_EntryID = '''', ja_EntryType = EntryTypeOrderCancelled, ja_SourceType = ''SETTLEMENT_ORDER'', ja_SourceRef = co_OrderID order,
      ja_OccurredAtMillis = co_UpdatedAtMillis order,
      ja_Payload = POrderCancelled
        \<lparr>ca_OrderID = co_OrderID order, ca_AccountID = co_UserID order, ca_MarketID = co_MarketID order, ca_Outcome = co_Outcome order,
         ca_Side = co_Side order, ca_ReserveAsset = settlementReserveAsset order, ca_Price = co_Price order,
         ca_RemainingQuantity = co_RemainingQuantity order, ca_CancelReason = co_CancelReason order\<rparr>\<rparr>"

definition buildSettlementCancellationEntries :: "cancelledOrder list \<Rightarrow> JournalAppend list" where
  "buildSettlementCancellationEntries cancelled = map settlementCancellationEntry cancelled"

definition buildSettlementPayoutEntry :: "SettlementCompletedEvent \<Rightarrow> JournalAppend" where
  "buildSettlementPayoutEntry event =
     \<lparr>ja_EntryID = '''', ja_EntryType = EntryTypeSettlementPayout, ja_SourceType = ''SETTLEMENT_PAYOUT'', ja_SourceRef = TrimSpace (sc_EventID event),
      ja_OccurredAtMillis = sc_OccurredAtMillis event,
      ja_Payload = PSettlementPayout
        \<lparr>sp_EventID = sc_EventID event, sp_MarketID = sc_MarketID event, sp_AccountID = sc_UserID event, sp_WinningOutcome = sc_WinningOutcome event,
         sp_PositionAsset = sc_PositionAsset event, sp_SettledQuantity = sc_SettledQuantity event, sp_PayoutAsset = sc_PayoutAsset event,
         sp_PayoutAmount = sc_PayoutAmount event, sp_OccurredAtMillis = sc_OccurredAtMillis event\<rparr>\<rparr>"

section \<open>The SQL store (sql\_store.go)\<close>

record MarketRow =
  mk_Status :: string
  mk_ResolvedOutcome :: string

record PositionRow =
  pw_PositionAsset :: string
  pw_Quantity :: i64
  pw_SettledQuantity :: i64

record SettlementDB =
  db_markets :: "(i64 \<times> MarketRow) list"
  db_resolutions :: "(i64 \<times> resolutionRecord) list"
  db_positions :: "(st_positionKey \<times> PositionRow) list"
  db_payouts :: "(string \<times> SettlementCompletedEvent) list"
  db_orders :: "cancelledOrder list"
  db_freezes :: "bool list"
  db_journal :: Journal

definition ensureMarket :: "SettleEnv \<Rightarrow> i64 \<Rightarrow> SettlementDB \<Rightarrow> settle_error option \<times> SettlementDB" where
  "ensureMarket env marketID db =
     (if se_faults env ''ensureMarket'' then (Some (StatementFailed ''ensureMarket''), db)
      else if map_of (db_markets db) marketID \<noteq> None then (None, db)
      else (None, db\<lparr>db_markets := AList.update marketID \<lparr>mk_Status = ''OPEN'', mk_ResolvedOutcome = ''''\<rparr> (db_markets db)\<rparr>))"

definition upsertPosition :: "st_positionKey \<Rightarrow> string \<Rightarrow> i64 \<Rightarrow> SettlementDB \<Rightarrow> settle_error option \<times> SettlementDB" where
  "upsertPosition key positionAsset delta db =
     (case map_of (db_positions db) key of
        None \<Rightarrow> (None, db\<lparr>db_positions := AList.update key \<lparr>pw_PositionAsset = positionAsset, pw_Quantity = delta, pw_SettledQuantity = 0\<rparr> (db_positions db)\<rparr>)
      | Some row \<Rightarrow>
          if in_int64 (pw_Quantity row + delta)
          then (None, db\<lparr>db_positions := AList.update key (row\<lparr>pw_PositionAsset := positionAsset, pw_Quantity := pw_Quantity row + delta\<rparr>) (db_positions db)\<rparr>)
          else (Some BigintOutOfRange, db))"

definition sql_ApplyDelta :: "SettleEnv \<Rightarrow> i64 \<Rightarrow> i64 \<Rightarrow> string \<Rightarrow> string \<Rightarrow> i64 \<Rightarrow> SettlementDB \<Rightarrow> settle_error option \<times> SettlementDB" where
  "sql_ApplyDelta env marketID userID outcome positionAsset delta db =
     (case ensureMarket env marketID db of
        (Some err, db1) \<Rightarrow> (Some err, db1)
      | (None, db1) \<Rightarrow>
          if se_faults env ''applyDelta'' then (Some (StatementFailed ''applyDelta''), db1)
          else upsertPosition (marketID, userID, outcome) positionAsset delta db1)"

definition sql_RollupFrozen :: "SettleEnv \<Rightarrow> SettlementDB \<Rightarrow> settle_error + bool" where
  "sql_RollupFrozen env db =
     (if se_faults env ''rollupFrozen'' then Inl (StatementFailed ''rollupFrozen'')
      else Inr (if db_freezes db = [] then False else last (db_freezes db)))"

definition shouldPreserveOracleOwnership :: "resolutionRecord \<Rightarrow> string \<Rightarrow> bool" where
  "shouldPreserveOracleOwnership current outcome \<longleftrightarrow>
     normU (rr_ResolverType current) = ''ORACLE_PRICE'' \<and> normU (rr_Status current) \<in> {''OBSERVED'', ''RESOLVED''} \<and>
     normU (rr_ResolvedOutcome current) \<noteq> '''' \<and> normU (rr_ResolvedOutcome current) = normU outcome"

definition finalizeResolutionRecord :: "resolutionRecord \<Rightarrow> string \<Rightarrow> resolutionRecord" where
  "finalizeResolutionRecord current outcome =
     (if shouldPreserveOracleOwnership current outcome
      then \<lparr>rr_Status = ''RESOLVED'', rr_ResolvedOutcome = outcome, rr_ResolverType = rr_ResolverType current, rr_ResolverRef = rr_ResolverRef current,
            rr_Evidence = normalizeResolutionEvidence (rr_Evidence current)\<rparr>
      else \<lparr>rr_Status = ''RESOLVED'', rr_ResolvedOutcome = outcome, rr_ResolverType = ''ADMIN'', rr_ResolverRef = '''', rr_Evidence = ''{}''\<rparr>)"

definition loadResolutionRecordTx :: "i64 \<Rightarrow> SettlementDB \<Rightarrow> resolutionRecord" where
  "loadResolutionRecordTx marketID db =
     (case map_of (db_resolutions db) marketID of
        None \<Rightarrow> \<lparr>rr_Status = '''', rr_ResolvedOutcome = '''', rr_ResolverType = '''', rr_ResolverRef = '''', rr_Evidence = ''''\<rparr>
      | Some r \<Rightarrow> r)"

definition normalizeResolveMarketInput :: "SettleEnv \<Rightarrow> ResolveMarketInput \<Rightarrow> ResolveMarketInput" where
  "normalizeResolveMarketInput env input =
     input\<lparr>ri_ResolvedOutcome := normU (ri_ResolvedOutcome input),
           ri_OccurredAtMillis := (if ri_OccurredAtMillis input \<le> 0 then 1000 * se_now env else ri_OccurredAtMillis input)\<rparr>"

text \<open>The journal entries of a transaction: with the entries and the commit, or the error after which only the counter of the journal has moved.\<close>

definition appendTx :: "SettleEnv \<Rightarrow> JournalAppend list \<Rightarrow> SettlementDB \<Rightarrow> SettlementDB \<Rightarrow> settle_error option \<times> SettlementDB" where
  "appendTx env entries changed db =
     (case se_journal env of
        None \<Rightarrow> if se_faults env ''commit'' then (Some (StatementFailed ''commit''), db) else (None, changed)
      | Some jenv \<Rightarrow>
          (case AppendEntriesTx jenv entries ([], db_journal db) of
             (Some err, t) \<Rightarrow> (Some (JournalFailed err), db\<lparr>db_journal := snd t\<rparr>)
           | (None, t) \<Rightarrow>
               if se_faults env ''commit'' then (Some (StatementFailed ''commit''), db\<lparr>db_journal := snd t\<rparr>)
               else (None, changed\<lparr>db_journal := commitTx t\<rparr>)))"

definition resolveOpenMarket :: "SettleEnv \<Rightarrow> ResolveMarketInput \<Rightarrow> SettlementDB \<Rightarrow> (settle_error + bool) \<times> SettlementDB" where
  "resolveOpenMarket env input db =
     (let final = finalizeResolutionRecord (loadResolutionRecordTx (ri_MarketID input) db) (ri_ResolvedOutcome input);
          changed = db\<lparr>db_markets := AList.update (ri_MarketID input) \<lparr>mk_Status = ''RESOLVED'', mk_ResolvedOutcome = ri_ResolvedOutcome input\<rparr> (db_markets db),
                       db_resolutions := AList.update (ri_MarketID input) (final\<lparr>rr_Evidence := normalizeResolutionEvidence (rr_Evidence final)\<rparr>) (db_resolutions db)\<rparr>
      in if se_faults env ''resolveMarket'' then (Inl (StatementFailed ''resolveMarket''), db)
         else case appendTx env [buildMarketResolvedEntry env (normalizeResolveMarketInput env input) final] changed db of
                (Some err, db1) \<Rightarrow> (Inl err, db1)
              | (None, db1) \<Rightarrow> (Inr True, db1))"

definition sql_ResolveMarket :: "SettleEnv \<Rightarrow> ResolveMarketInput \<Rightarrow> SettlementDB \<Rightarrow> (settle_error + bool) \<times> SettlementDB" where
  "sql_ResolveMarket env input db =
     (case ensureMarket env (ri_MarketID input) db of
        (Some err, db1) \<Rightarrow> (Inl err, db1)
      | (None, db1) \<Rightarrow>
          (case map_of (db_markets db1) (ri_MarketID input) of
             None \<Rightarrow> (Inl (StatementFailed ''no rows''), db1)
           | Some row \<Rightarrow>
               if mk_Status row \<noteq> ''RESOLVED'' then resolveOpenMarket env input db1
               else if se_faults env ''readMarket'' then (Inl (StatementFailed ''readMarket''), db1)
               else if normU (mk_Status row) = ''RESOLVED'' \<and> normU (mk_ResolvedOutcome row) = normU (ri_ResolvedOutcome input)
               then (if se_faults env ''commit'' then (Inl (StatementFailed ''commit''), db1) else (Inr False, db1))
               else (Inl (AlreadyResolved (ri_MarketID input) (mk_ResolvedOutcome row)), db1)))"

definition activeOrder :: "i64 \<Rightarrow> cancelledOrder \<Rightarrow> bool" where
  "activeOrder marketID order \<longleftrightarrow> co_MarketID order = marketID \<and> co_Status order \<in> {''NEW'', ''PARTIALLY_FILLED''} \<and> 0 < co_RemainingQuantity order"

definition cancelOrder :: "i64 \<Rightarrow> string \<Rightarrow> cancelledOrder \<Rightarrow> cancelledOrder" where
  "cancelOrder now reason order = order\<lparr>co_Status := ''CANCELLED'', co_CancelReason := normU reason, co_UpdatedAtMillis := 1000 * now\<rparr>"

definition sql_CancelActiveOrders :: "SettleEnv \<Rightarrow> i64 \<Rightarrow> string \<Rightarrow> SettlementDB \<Rightarrow> (settle_error + cancelledOrder list) \<times> SettlementDB" where
  "sql_CancelActiveOrders env marketID reason db =
     (let cancelled = map (cancelOrder (se_now env) reason) (filter (activeOrder marketID) (db_orders db));
          changed = db\<lparr>db_orders := map (\<lambda>o'. if activeOrder marketID o' then cancelOrder (se_now env) reason o' else o') (db_orders db)\<rparr>
      in if se_faults env ''cancelOrders'' then (Inl (StatementFailed ''cancelOrders''), db)
         else case appendTx env (buildSettlementCancellationEntries cancelled) changed db of
                (Some err, db1) \<Rightarrow> (Inl err, db1)
              | (None, db1) \<Rightarrow> (Inr cancelled, db1))"

definition winningRow :: "i64 \<Rightarrow> string \<Rightarrow> st_positionKey \<times> PositionRow \<Rightarrow> bool" where
  "winningRow marketID outcome = (\<lambda>((m, u, out), row). m = marketID \<and> out = outcome \<and> pw_SettledQuantity row < pw_Quantity row)"

definition winningOf :: "st_positionKey \<times> PositionRow \<Rightarrow> winningPosition" where
  "winningOf = (\<lambda>((m, u, out), row). \<lparr>wi_MarketID = m, wi_UserID = u, wi_Outcome = out, wi_Quantity = pw_Quantity row - pw_SettledQuantity row\<rparr>)"

definition sql_WinningPositions :: "SettleEnv \<Rightarrow> i64 \<Rightarrow> string \<Rightarrow> SettlementDB \<Rightarrow> settle_error + winningPosition list" where
  "sql_WinningPositions env marketID outcome db =
     (let positions = map winningOf (filter (winningRow marketID outcome) (db_positions db))
      in if se_faults env ''winningPositions'' then Inl (StatementFailed ''winningPositions'')
         else if list_all (\<lambda>w. in_int64 (wi_Quantity w)) positions then Inr (sort_key wi_UserID positions)
         else Inl BigintOutOfRange)"

definition normalizeSettlementEvent :: "SettleEnv \<Rightarrow> SettlementCompletedEvent \<Rightarrow> string \<Rightarrow> SettlementCompletedEvent" where
  "normalizeSettlementEvent env event positionAsset =
     event\<lparr>sc_EventID := TrimSpace (sc_EventID event), sc_WinningOutcome := normU (sc_WinningOutcome event), sc_PositionAsset := positionAsset,
           sc_PayoutAsset := (if normU (sc_PayoutAsset event) = '''' then ''USDT'' else normU (sc_PayoutAsset event)),
           sc_OccurredAtMillis := (if sc_OccurredAtMillis event \<le> 0 then 1000 * se_now env else sc_OccurredAtMillis event)\<rparr>"

definition payoutRow :: "SettlementCompletedEvent \<Rightarrow> string \<Rightarrow> SettlementCompletedEvent" where
  "payoutRow event positionAsset =
     event\<lparr>sc_EventID := TrimSpace (sc_EventID event), sc_WinningOutcome := normU (sc_WinningOutcome event), sc_PositionAsset := positionAsset,
           sc_PayoutAsset := normU (sc_PayoutAsset event)\<rparr>"

definition settledRows :: "st_positionKey \<Rightarrow> i64 \<Rightarrow> SettlementDB \<Rightarrow> (st_positionKey \<times> PositionRow) list option" where
  "settledRows key quantity db =
     (case map_of (db_positions db) key of
        None \<Rightarrow> Some (db_positions db)
      | Some row \<Rightarrow>
          if in_int64 (pw_SettledQuantity row + quantity)
          then Some (AList.update key (row\<lparr>pw_SettledQuantity := pw_SettledQuantity row + quantity\<rparr>) (db_positions db))
          else None)"

definition sql_MarkSettled :: "SettleEnv \<Rightarrow> SettlementCompletedEvent \<Rightarrow> SettlementDB \<Rightarrow> settle_error option \<times> SettlementDB" where
  "sql_MarkSettled env event db =
     (let positionAsset = (if normU (sc_PositionAsset event) = '''' then ''POSITION:'' @ itoa (sc_MarketID event) @ '':'' @ normU (sc_WinningOutcome event)
                           else normU (sc_PositionAsset event));
          key = (sc_MarketID event, sc_UserID event, normU (sc_WinningOutcome event))
      in if se_faults env ''insertPayout'' then (Some (StatementFailed ''insertPayout''), db)
         else if map_of (db_payouts db) (TrimSpace (sc_EventID event)) \<noteq> None
         then (if se_faults env ''commit'' then (Some (StatementFailed ''commit''), db) else (None, db))
         else if se_faults env ''updatePosition'' then (Some (StatementFailed ''updatePosition''), db)
         else case settledRows key (sc_SettledQuantity event) db of
                None \<Rightarrow> (Some BigintOutOfRange, db)
              | Some rows \<Rightarrow>
                  appendTx env [buildSettlementPayoutEntry (normalizeSettlementEvent env event positionAsset)]
                    (db\<lparr>db_payouts := AList.update (TrimSpace (sc_EventID event)) (payoutRow event positionAsset) (db_payouts db), db_positions := rows\<rparr>) db)"

definition sqlStore :: "SettleEnv \<Rightarrow> SettlementDB PositionStore" where
  "sqlStore env = \<lparr>st_ApplyDelta = sql_ApplyDelta env, st_ResolveMarket = sql_ResolveMarket env, st_CancelActiveOrders = sql_CancelActiveOrders env,
     st_WinningPositions = sql_WinningPositions env, st_MarkSettled = sql_MarkSettled env, st_RollupFrozen = sql_RollupFrozen env\<rparr>"

section \<open>The processor (processor.go)\<close>

definition settlementKey :: "i64 \<Rightarrow> i64 \<Rightarrow> string" where
  "settlementKey marketID userID = itoa marketID @ '':'' @ itoa userID"

definition marketBookKey :: "i64 \<Rightarrow> string \<Rightarrow> string" where
  "marketBookKey marketID outcome = itoa marketID @ '':'' @ normU outcome"

definition settlementEventID :: "i64 \<Rightarrow> i64 \<Rightarrow> string \<Rightarrow> string" where
  "settlementEventID marketID userID outcome = ''evt_settlement_'' @ itoa marketID @ ''_'' @ itoa userID @ ''_'' @ normU outcome"

text \<open>The published messages, and how often the publisher was called; a predicate on the number of the call says whether it delivers.\<close>

datatype SettlementMessage = OrderEventMessage string OrderEvent | SettlementDone string SettlementCompletedEvent

record Outbox =
  ob_sent :: "SettlementMessage list"
  ob_calls :: nat

record 's Processor =
  pr_store :: 's
  pr_out :: Outbox

record 's ProcessorEnv =
  pe_store :: "'s PositionStore"
  pe_delivers :: "nat \<Rightarrow> bool"
  pe_nowMillis :: i64
  pe_newID :: "nat \<Rightarrow> string"

definition publishJSON :: "'s ProcessorEnv \<Rightarrow> SettlementMessage \<Rightarrow> 's Processor \<Rightarrow> settle_error option \<times> 's Processor" where
  "publishJSON env msg p =
     (let out = (pr_out p)\<lparr>ob_calls := Suc (ob_calls (pr_out p))\<rparr>
      in if pe_delivers env (ob_calls (pr_out p)) then (None, p\<lparr>pr_out := out\<lparr>ob_sent := ob_sent out @ [msg]\<rparr>\<rparr>)
         else (Some (PublishFailed ''publish''), p\<lparr>pr_out := out\<rparr>))"

definition settlementEvent :: "i64 \<Rightarrow> winningPosition \<Rightarrow> i64 \<Rightarrow> SettlementCompletedEvent" where
  "settlementEvent now position payoutAmount =
     \<lparr>sc_EventID = settlementEventID (wi_MarketID position) (wi_UserID position) (wi_Outcome position), sc_MarketID = wi_MarketID position,
      sc_UserID = wi_UserID position, sc_WinningOutcome = wi_Outcome position, sc_PositionAsset = PositionAsset (wi_MarketID position) (wi_Outcome position),
      sc_SettledQuantity = wi_Quantity position, sc_PayoutAsset = DefaultCollateralAsset, sc_PayoutAmount = payoutAmount, sc_OccurredAtMillis = now\<rparr>"

definition markSettled :: "'s ProcessorEnv \<Rightarrow> SettlementCompletedEvent \<Rightarrow> 's Processor \<Rightarrow> settle_error option \<times> 's Processor" where
  "markSettled env event p =
     (case st_MarkSettled (pe_store env) event (pr_store p) of (err, s) \<Rightarrow> (err, p\<lparr>pr_store := s\<rparr>))"

definition settleOne :: "'s ProcessorEnv \<Rightarrow> winningPosition \<Rightarrow> 's Processor \<Rightarrow> settle_error option \<times> 's Processor" where
  "settleOne env position p =
     (case WinningPayoutAmount (wi_Quantity position) of
        Inl err \<Rightarrow> (Some (PayoutFailed err), p)
      | Inr payoutAmount \<Rightarrow>
          let event = settlementEvent (pe_nowMillis env) position payoutAmount
          in case publishJSON env (SettlementDone (settlementKey (wi_MarketID position) (wi_UserID position)) event) p of
               (Some err, p1) \<Rightarrow> (Some err, p1)
             | (None, p1) \<Rightarrow> markSettled env event p1)"

fun settleLoop :: "'s ProcessorEnv \<Rightarrow> winningPosition list \<Rightarrow> 's Processor \<Rightarrow> settle_error option \<times> 's Processor" where
  "settleLoop env [] p = (None, p)"
| "settleLoop env (w # ws) p = (case settleOne env w p of (Some err, p1) \<Rightarrow> (Some err, p1) | (None, p1) \<Rightarrow> settleLoop env ws p1)"

definition settleWinningPositions :: "'s ProcessorEnv \<Rightarrow> i64 \<Rightarrow> string \<Rightarrow> 's Processor \<Rightarrow> settle_error option \<times> 's Processor" where
  "settleWinningPositions env marketID resolvedOutcome p =
     (case st_WinningPositions (pe_store env) marketID resolvedOutcome (pr_store p) of
        Inl err \<Rightarrow> (Some err, p)
      | Inr positions \<Rightarrow> settleLoop env positions p)"

definition cancelledOrderEvent :: "'s ProcessorEnv \<Rightarrow> string \<Rightarrow> cancelledOrder \<Rightarrow> nat \<Rightarrow> OrderEvent" where
  "cancelledOrderEvent env traceID order n =
     \<lparr>oe_EventID = pe_newID env n, oe_CommandID = co_CommandID order, oe_TraceID = traceID, oe_OrderID = co_OrderID order,
      oe_ClientOrderID = co_ClientOrderID order, oe_FreezeID = co_FreezeID order, oe_FreezeAsset = co_FreezeAsset order,
      oe_FreezeAmount = co_FreezeAmount order, oe_CollateralAsset = co_CollateralAsset order, oe_UserID = co_UserID order,
      oe_MarketID = co_MarketID order, oe_Outcome = co_Outcome order, oe_Side = co_Side order, oe_Type = co_OrderType order,
      oe_TimeInForce = co_TimeInForce order, oe_Status = co_Status order, oe_CancelReason = co_CancelReason order, oe_Price = co_Price order,
      oe_Quantity = co_Quantity order, oe_FilledQuantity = co_FilledQuantity order, oe_RemainingQuantity = co_RemainingQuantity order,
      oe_OccurredAtMillis = pe_nowMillis env\<rparr>"

fun publishCancelled :: "'s ProcessorEnv \<Rightarrow> string \<Rightarrow> cancelledOrder list \<Rightarrow> 's Processor \<Rightarrow> settle_error option \<times> 's Processor" where
  "publishCancelled env traceID [] p = (None, p)"
| "publishCancelled env traceID (order # orders) p =
     (case publishJSON env (OrderEventMessage (marketBookKey (co_MarketID order) (co_Outcome order)) (cancelledOrderEvent env traceID order (ob_calls (pr_out p)))) p of
        (Some err, p1) \<Rightarrow> (Some err, p1)
      | (None, p1) \<Rightarrow> publishCancelled env traceID orders p1)"

definition cancelAndSettle :: "'s ProcessorEnv \<Rightarrow> MarketEvent \<Rightarrow> string \<Rightarrow> 's Processor \<Rightarrow> settle_error option \<times> 's Processor" where
  "cancelAndSettle env event resolvedOutcome p =
     (case st_CancelActiveOrders (pe_store env) (me_MarketID event) ''MARKET_RESOLVED'' (pr_store p) of
        (Inl err, s) \<Rightarrow> (Some err, p\<lparr>pr_store := s\<rparr>)
      | (Inr cancelled, s) \<Rightarrow>
          (case publishCancelled env (me_TraceID event) cancelled (p\<lparr>pr_store := s\<rparr>) of
             (Some err, p1) \<Rightarrow> (Some err, p1)
           | (None, p1) \<Rightarrow> settleWinningPositions env (me_MarketID event) resolvedOutcome p1))"

definition marketResolved :: "'s ProcessorEnv \<Rightarrow> MarketEvent \<Rightarrow> string \<Rightarrow> 's Processor \<Rightarrow> settle_error option \<times> 's Processor" where
  "marketResolved env event resolvedOutcome p =
     (case st_ResolveMarket (pe_store env)
         \<lparr>ri_MarketID = me_MarketID event, ri_ResolvedOutcome = resolvedOutcome, ri_OccurredAtMillis = me_OccurredAtMillis event\<rparr> (pr_store p) of
        (Inl err, s) \<Rightarrow> (Some err, p\<lparr>pr_store := s\<rparr>)
      | (Inr False, s) \<Rightarrow> settleWinningPositions env (me_MarketID event) resolvedOutcome (p\<lparr>pr_store := s\<rparr>)
      | (Inr True, s) \<Rightarrow> cancelAndSettle env event resolvedOutcome (p\<lparr>pr_store := s\<rparr>))"

definition HandleMarketEvent :: "'s ProcessorEnv \<Rightarrow> string + MarketEvent \<Rightarrow> 's Processor \<Rightarrow> settle_error option \<times> 's Processor" where
  "HandleMarketEvent env payload p =
     (case st_RollupFrozen (pe_store env) (pr_store p) of
        Inl err \<Rightarrow> (Some err, p)
      | Inr True \<Rightarrow> (None, p)
      | Inr False \<Rightarrow>
          (case payload of
             Inl err \<Rightarrow> (Some (BadEvent err), p)
           | Inr event \<Rightarrow>
               if normU (me_Status event) \<noteq> ''RESOLVED'' then (None, p)
               else if normU (me_ResolvedOutcome event) = '''' then (None, p)
               else marketResolved env event (normU (me_ResolvedOutcome event)) p))"

definition HandlePositionChanged :: "'s ProcessorEnv \<Rightarrow> string + PositionChangedEvent \<Rightarrow> 's Processor \<Rightarrow> settle_error option \<times> 's Processor" where
  "HandlePositionChanged env payload p =
     (case st_RollupFrozen (pe_store env) (pr_store p) of
        Inl err \<Rightarrow> (Some err, p)
      | Inr True \<Rightarrow> (None, p)
      | Inr False \<Rightarrow>
          (case payload of
             Inl err \<Rightarrow> (Some (BadEvent err), p)
           | Inr event \<Rightarrow>
               (case st_ApplyDelta (pe_store env) (pc_MarketID event) (pc_UserID event) (normU (pc_Outcome event)) (pc_PositionAsset event)
                    (pc_DeltaQuantity event) (pr_store p) of
                  (err, s) \<Rightarrow> (err, p\<lparr>pr_store := s\<rparr>))))"

end
