(* ===== verification/Settlement_Props.thy ===== *)
theory Settlement_Props
  imports Settlement
begin

text \<open>
  What the settlement service guarantees. The contract of a position store is a locale: the open
  winning positions are listed, one for each user, and marking one as settled closes it and no
  other. Inside it the settlement of a market is proved to pay every winner once. Both stores are
  interpreted; the SQL store keeps the contract for users without an earlier payout row.
\<close>

section \<open>The contract of a store\<close>

definition winner :: "i64 \<Rightarrow> string \<Rightarrow> i64 \<Rightarrow> i64 \<Rightarrow> winningPosition" where
  "winner m out u q = \<lparr>wi_MarketID = m, wi_UserID = u, wi_Outcome = out, wi_Quantity = q\<rparr>"

definition settlementMessage :: "i64 \<Rightarrow> winningPosition \<Rightarrow> SettlementMessage" where
  "settlementMessage now w = SettlementDone (settlementKey (wi_MarketID w) (wi_UserID w)) (settlementEvent now w (100 * wi_Quantity w))"

locale position_store =
  fixes ps :: "'s PositionStore" and inv :: "'s \<Rightarrow> bool"
    and unsettled :: "i64 \<Rightarrow> string \<Rightarrow> i64 \<Rightarrow> 's \<Rightarrow> i64" and fresh :: "i64 \<Rightarrow> string \<Rightarrow> i64 \<Rightarrow> 's \<Rightarrow> bool"
  assumes winning_users: "inv s \<Longrightarrow> st_WinningPositions ps m out s = Inr ws \<Longrightarrow> distinct (map wi_UserID ws)"
    and winning_mem: "inv s \<Longrightarrow> st_WinningPositions ps m out s = Inr ws \<Longrightarrow>
      w \<in> set ws \<longleftrightarrow> w = winner m out (wi_UserID w) (unsettled m out (wi_UserID w) s) \<and> 0 < wi_Quantity w"
    and mark_settled: "inv s \<Longrightarrow> normU out = out \<Longrightarrow> fresh m out u s \<Longrightarrow>
      st_MarkSettled ps (settlementEvent now (winner m out u (unsettled m out u s)) pay) s = (None, s') \<Longrightarrow>
      inv s' \<and> unsettled m out u s' \<le> 0 \<and> (\<forall>v. v \<noteq> u \<longrightarrow> unsettled m out v s' = unsettled m out v s \<and> fresh m out v s' = fresh m out v s)"
begin

lemma settleOne_ok:
  assumes "pe_store env = ps" and "inv (pr_store p)" and "normU out = out" and "fresh m out u (pr_store p)"
    and "settleOne env (winner m out u (unsettled m out u (pr_store p))) p = (None, p')"
  shows "inv (pr_store p') \<and> unsettled m out u (pr_store p') \<le> 0 \<and>
    (\<forall>v. v \<noteq> u \<longrightarrow> unsettled m out v (pr_store p') = unsettled m out v (pr_store p) \<and> fresh m out v (pr_store p') = fresh m out v (pr_store p)) \<and>
    ob_sent (pr_out p') = ob_sent (pr_out p) @ [settlementMessage (pe_nowMillis env) (winner m out u (unsettled m out u (pr_store p)))]"
proof -
  let ?q = "unsettled m out u (pr_store p)"
  obtain pay where pay: "WinningPayoutAmount ?q = Inr pay"
    using assms(5) by (auto simp: settleOne_def winner_def split: sum.splits)
  then have "pay = 100 * ?q" by (simp add: WinningPayoutAmount_iff)
  let ?e = "settlementEvent (pe_nowMillis env) (winner m out u ?q) pay"
  obtain p1 where p1: "publishJSON env (SettlementDone (settlementKey m u) ?e) p = (None, p1)" "markSettled env ?e p1 = (None, p')"
    using assms(5) pay by (auto simp: settleOne_def winner_def Let_def split: prod.splits option.splits)
  have out: "pr_store p1 = pr_store p" "ob_sent (pr_out p1) = ob_sent (pr_out p) @ [SettlementDone (settlementKey m u) ?e]"
    using p1(1) by (auto simp: publishJSON_def Let_def split: if_splits)
  have "st_MarkSettled ps ?e (pr_store p) = (None, pr_store p')" "pr_out p' = pr_out p1"
    using p1(2) out(1) assms(1) by (auto simp: markSettled_def split: prod.splits)
  then show ?thesis
    using mark_settled [OF assms(2,3,4)] out(2) \<open>pay = 100 * ?q\<close> by (simp add: settlementMessage_def winner_def)
qed

lemma settleLoop_ok:
  assumes "pe_store env = ps" and "inv (pr_store p)" and "normU out = out" and "distinct (map wi_UserID ws)"
    and "\<forall>w\<in>set ws. w = winner m out (wi_UserID w) (unsettled m out (wi_UserID w) (pr_store p)) \<and> fresh m out (wi_UserID w) (pr_store p)"
    and "settleLoop env ws p = (None, p')"
  shows "inv (pr_store p') \<and> (\<forall>u\<in>wi_UserID ` set ws. unsettled m out u (pr_store p') \<le> 0) \<and>
    (\<forall>v. v \<notin> wi_UserID ` set ws \<longrightarrow> unsettled m out v (pr_store p') = unsettled m out v (pr_store p)) \<and>
    ob_sent (pr_out p') = ob_sent (pr_out p) @ map (settlementMessage (pe_nowMillis env)) ws"
  using assms(2,4,5,6)
proof (induction ws arbitrary: p)
  case Nil
  then show ?case by simp
next
  case (Cons w ws)
  let ?u = "wi_UserID w"
  have w: "w = winner m out ?u (unsettled m out ?u (pr_store p))" "fresh m out ?u (pr_store p)" using Cons.prems(3) by auto
  obtain p1 where p1: "settleOne env w p = (None, p1)" "settleLoop env ws p1 = (None, p')"
    using Cons.prems(4) by (auto split: prod.splits option.splits)
  from settleOne_ok [OF assms(1) Cons.prems(1) assms(3) w(2)] w(1) p1(1)
  have one: "inv (pr_store p1)" "unsettled m out ?u (pr_store p1) \<le> 0"
    "\<And>v. v \<noteq> ?u \<Longrightarrow> unsettled m out v (pr_store p1) = unsettled m out v (pr_store p) \<and> fresh m out v (pr_store p1) = fresh m out v (pr_store p)"
    "ob_sent (pr_out p1) = ob_sent (pr_out p) @ [settlementMessage (pe_nowMillis env) w]"
    by metis+
  have "\<forall>x\<in>set ws. x = winner m out (wi_UserID x) (unsettled m out (wi_UserID x) (pr_store p1)) \<and> fresh m out (wi_UserID x) (pr_store p1)"
  proof
    fix x assume "x \<in> set ws"
    moreover then have "wi_UserID x \<noteq> ?u" using Cons.prems(2) by (metis distinct.simps(2) image_eqI list.set_map list.simps(9))
    ultimately show "x = winner m out (wi_UserID x) (unsettled m out (wi_UserID x) (pr_store p1)) \<and> fresh m out (wi_UserID x) (pr_store p1)"
      using Cons.prems(3) one(3) by simp
  qed
  then have rest: "inv (pr_store p')" "\<forall>u\<in>wi_UserID ` set ws. unsettled m out u (pr_store p') \<le> 0"
    "\<forall>v. v \<notin> wi_UserID ` set ws \<longrightarrow> unsettled m out v (pr_store p') = unsettled m out v (pr_store p1)"
    "ob_sent (pr_out p') = ob_sent (pr_out p1) @ map (settlementMessage (pe_nowMillis env)) ws"
    using Cons.IH [OF one(1) _ _ p1(2)] Cons.prems(2) by auto
  have "?u \<notin> wi_UserID ` set ws" using Cons.prems(2) by simp
  then show ?case using rest one by auto
qed

text \<open>The settlement of a market: every open winning position is paid at 100 for a share, once, and none stays open.\<close>

lemma settle_pays_winners:
  assumes "pe_store env = ps" and "inv (pr_store p)" and "normU out = out"
    and "\<forall>u. 0 < unsettled m out u (pr_store p) \<longrightarrow> fresh m out u (pr_store p)"
    and "settleWinningPositions env m out p = (None, p')"
  shows "\<exists>ws. distinct (map wi_UserID ws) \<and>
    (\<forall>w. w \<in> set ws \<longleftrightarrow> w = winner m out (wi_UserID w) (unsettled m out (wi_UserID w) (pr_store p)) \<and> 0 < wi_Quantity w) \<and>
    ob_sent (pr_out p') = ob_sent (pr_out p) @ map (settlementMessage (pe_nowMillis env)) ws \<and>
    (\<forall>u. unsettled m out u (pr_store p') \<le> 0) \<and> inv (pr_store p')"
proof -
  obtain ws where ws: "st_WinningPositions ps m out (pr_store p) = Inr ws" "settleLoop env ws p = (None, p')"
    using assms(5,1) by (auto simp: settleWinningPositions_def split: sum.splits)
  have mem: "w \<in> set ws \<longleftrightarrow> w = winner m out (wi_UserID w) (unsettled m out (wi_UserID w) (pr_store p)) \<and> 0 < wi_Quantity w" for w
    by (rule winning_mem [OF assms(2) ws(1)])
  have d: "distinct (map wi_UserID ws)" by (rule winning_users [OF assms(2) ws(1)])
  have pos: "u \<in> wi_UserID ` set ws" if "0 < unsettled m out u (pr_store p)" for u
  proof -
    have "winner m out u (unsettled m out u (pr_store p)) \<in> set ws"
      using mem [of "winner m out u (unsettled m out u (pr_store p))"] that by (simp add: winner_def)
    then show ?thesis by (force simp: winner_def)
  qed
  have "\<forall>w\<in>set ws. w = winner m out (wi_UserID w) (unsettled m out (wi_UserID w) (pr_store p)) \<and> fresh m out (wi_UserID w) (pr_store p)"
  proof
    fix w assume "w \<in> set ws"
    then have w: "w = winner m out (wi_UserID w) (unsettled m out (wi_UserID w) (pr_store p))" "0 < wi_Quantity w" using mem by blast+
    then have "0 < unsettled m out (wi_UserID w) (pr_store p)" by (metis winner_def winningPosition.select_convs(4))
    then show "w = winner m out (wi_UserID w) (unsettled m out (wi_UserID w) (pr_store p)) \<and> fresh m out (wi_UserID w) (pr_store p)"
      using w(1) assms(4) by blast
  qed
  note all = settleLoop_ok [OF assms(1,2,3) d this ws(2)]
  have "unsettled m out u (pr_store p') \<le> 0" for u
  proof (cases "u \<in> wi_UserID ` set ws")
    case False
    then have "unsettled m out u (pr_store p') = unsettled m out u (pr_store p)" using all by blast
    then show ?thesis using pos [of u] False by linarith
  qed (use all in blast)
  then show ?thesis using all d mem by (intro exI [of _ ws] conjI allI) blast+
qed

lemma settle_silent:
  assumes "pe_store env = ps" and "inv (pr_store p)" and "\<forall>u. unsettled m out u (pr_store p) \<le> 0"
    and "settleWinningPositions env m out p = (err, p')"
  shows "p' = p"
proof (cases "st_WinningPositions ps m out (pr_store p)")
  case (Inr ws)
  have "w \<notin> set ws" for w
    using winning_mem [OF assms(2) Inr, of w] assms(3) by (metis not_less winner_def winningPosition.select_convs(4))
  then have "ws = []" by (cases ws) auto
  then show ?thesis using assms(1,4) Inr by (simp add: settleWinningPositions_def)
qed (use assms(1,4) in \<open>simp add: settleWinningPositions_def\<close>)

end

section \<open>The store in memory\<close>

definition mem_unsettled :: "i64 \<Rightarrow> string \<Rightarrow> i64 \<Rightarrow> positionStore \<Rightarrow> i64" where
  "mem_unsettled m out u s =
     (if (m, u, out) \<in> set (ps_settled s) then 0 else case map_of (ps_positions s) (m, u, out) of None \<Rightarrow> 0 | Some q \<Rightarrow> q)"

definition mem_inv :: "positionStore \<Rightarrow> bool" where
  "mem_inv s \<longleftrightarrow> distinct (map fst (ps_positions s))"

lemma mem_winning_mem:
  assumes "mem_inv s" and "mem_WinningPositions m out s = Inr ws"
  shows "w \<in> set ws \<longleftrightarrow> w = winner m out (wi_UserID w) (mem_unsettled m out (wi_UserID w) s) \<and> 0 < wi_Quantity w"
proof
  assume "w \<in> set ws"
  then obtain u q where u: "((m, u, out), q) \<in> set (ps_positions s)" "0 < q" "(m, u, out) \<notin> set (ps_settled s)" "w = winner m out u q"
    using assms(2) by (auto simp: mem_WinningPositions_def winner_def)
  then have "map_of (ps_positions s) (m, u, out) = Some q" using assms(1) by (simp add: mem_inv_def)
  then show "w = winner m out (wi_UserID w) (mem_unsettled m out (wi_UserID w) s) \<and> 0 < wi_Quantity w"
    using u by (simp add: mem_unsettled_def winner_def)
next
  assume w: "w = winner m out (wi_UserID w) (mem_unsettled m out (wi_UserID w) s) \<and> 0 < wi_Quantity w"
  then have "0 < mem_unsettled m out (wi_UserID w) s" by (metis winner_def winningPosition.select_convs(4))
  then obtain q where q: "map_of (ps_positions s) (m, wi_UserID w, out) = Some q" "0 < q" "(m, wi_UserID w, out) \<notin> set (ps_settled s)"
    "mem_unsettled m out (wi_UserID w) s = q"
    by (auto simp: mem_unsettled_def split: if_splits option.splits)
  then have "w = winner m out (wi_UserID w) q" using w by metis
  moreover have "((m, wi_UserID w, out), q) \<in> set (ps_positions s)" using q(1) by (rule map_of_SomeD)
  ultimately show "w \<in> set ws"
    using assms(2) q(2,3) by (force simp: mem_WinningPositions_def winner_def image_iff)
qed

lemma distinct_users: "distinct (map fst xs) \<Longrightarrow> (\<And>x. x \<in> set xs \<Longrightarrow> fst x = (m, f x, out)) \<Longrightarrow> distinct (map f xs)"
proof (induction xs)
  case (Cons x xs)
  have "f x \<noteq> f y" if "y \<in> set xs" for y
  proof
    assume "f x = f y"
    then have "fst x = fst y" using Cons.prems(2) that by simp
    then show False using Cons.prems(1) that by (auto simp: image_iff)
  qed
  then show ?case using Cons by auto
qed simp

lemma mem_winning_users:
  assumes "mem_inv s" and "mem_WinningPositions m out s = Inr ws"
  shows "distinct (map wi_UserID ws)"
proof -
  let ?sel = "\<lambda>((m', u, out'), qty). m' = m \<and> out' = out \<and> 0 < qty \<and> (m', u, out') \<notin> set (ps_settled s)"
  let ?user = "\<lambda>((m', u, out'), qty). u"
  have "distinct (map fst (filter ?sel (ps_positions s)))"
    using assms(1) by (simp add: mem_inv_def distinct_map_filter)
  then have "distinct (map ?user (filter ?sel (ps_positions s)))"
    by (rule distinct_users [of _ m _ out]) auto
  moreover have "ws = map (\<lambda>((m', u, out'), qty). \<lparr>wi_MarketID = m, wi_UserID = u, wi_Outcome = out, wi_Quantity = qty\<rparr>) (filter ?sel (ps_positions s))"
    using assms(2) by (simp add: mem_WinningPositions_def)
  then have "map wi_UserID ws = map ?user (filter ?sel (ps_positions s))" by (auto simp: case_prod_beta)
  ultimately show ?thesis by simp
qed

interpretation mem_positions: position_store memStore mem_inv mem_unsettled "\<lambda>_ _ _ _. True"
proof unfold_locales
  fix s m out ws w
  assume "mem_inv s" and "st_WinningPositions memStore m out s = Inr ws"
  then show "distinct (map wi_UserID ws)"
    and "w \<in> set ws \<longleftrightarrow> w = winner m out (wi_UserID w) (mem_unsettled m out (wi_UserID w) s) \<and> 0 < wi_Quantity w"
    using mem_winning_users mem_winning_mem by (simp_all add: memStore_def)
next
  fix s out m u now pay s'
  assume "mem_inv s" and "st_MarkSettled memStore (settlementEvent now (winner m out u (mem_unsettled m out u s)) pay) s = (None, s')"
  then show "mem_inv s' \<and> mem_unsettled m out u s' \<le> 0 \<and> (\<forall>v. v \<noteq> u \<longrightarrow> mem_unsettled m out v s' = mem_unsettled m out v s \<and> True = True)"
    by (auto simp: memStore_def mem_MarkSettled_def settlementEvent_def winner_def mem_inv_def mem_unsettled_def)
qed

section \<open>The SQL store\<close>

definition sql_unsettled :: "i64 \<Rightarrow> string \<Rightarrow> i64 \<Rightarrow> SettlementDB \<Rightarrow> i64" where
  "sql_unsettled m out u db =
     (case map_of (db_positions db) (m, u, out) of None \<Rightarrow> 0 | Some row \<Rightarrow> pw_Quantity row - pw_SettledQuantity row)"

definition sql_inv :: "SettlementDB \<Rightarrow> bool" where
  "sql_inv db \<longleftrightarrow> distinct (map fst (db_positions db))"

text \<open>No payout has been stored for the user.\<close>

definition sql_fresh :: "i64 \<Rightarrow> string \<Rightarrow> i64 \<Rightarrow> SettlementDB \<Rightarrow> bool" where
  "sql_fresh m out u db \<longleftrightarrow> map_of (db_payouts db) (settlementEventID m u out) = None"

lemma itoa_no_underscore: "CHR ''_'' \<notin> set (itoa i)"
proof -
  have "CHR ''_'' \<notin> set (utoa n)" for n
    using utoa_digits [of n] by (auto simp: list_all_iff is_digit_def dest!: bspec)
  then show ?thesis by (simp add: itoa_def)
qed

lemma settlementEventID_inject: "settlementEventID m u out = settlementEventID m v out \<longleftrightarrow> u = v"
  using join_sep_inject [OF itoa_no_underscore itoa_no_underscore, of u "normU out" v "normU out"] by (simp add: settlementEventID_def inj_itoa)

lemma settlementEventID_trimmed [simp]: "TrimSpace (settlementEventID m u out) = settlementEventID m u out"
proof (rule TrimSpace_id)
  show "\<not> is_space (hd (settlementEventID m u out))" by (simp add: settlementEventID_def is_space_def)
  have "\<not> is_space (last (normU out))" if "normU out \<noteq> []"
    using TrimSpace_ends(2) [of "normU out"] that by simp
  then show "\<not> is_space (last (settlementEventID m u out))"
    by (cases "normU out = []") (simp_all add: settlementEventID_def is_space_def)
qed

lemma appendTx_changed:
  assumes "appendTx env es changed db = (None, db')"
  shows "db_positions db' = db_positions changed \<and> db_payouts db' = db_payouts changed \<and> db_markets db' = db_markets changed"
  using assms by (auto simp: appendTx_def split: option.splits prod.splits if_splits)

lemma appendTx_failed:
  assumes "appendTx env es changed db = (Some err, db')"
  shows "db_positions db' = db_positions db \<and> db_payouts db' = db_payouts db \<and> db_markets db' = db_markets db"
  using assms by (auto simp: appendTx_def split: option.splits prod.splits if_splits)

lemma sql_winning_list:
  assumes "sql_WinningPositions env m out db = Inr ws"
  shows "mset ws = mset (map winningOf (filter (winningRow m out) (db_positions db)))"
  using assms by (auto simp: sql_WinningPositions_def Let_def split: if_splits)

lemma sql_winning_users:
  assumes "sql_inv db" and "sql_WinningPositions env m out db = Inr ws"
  shows "distinct (map wi_UserID ws)"
proof -
  let ?rows = "filter (winningRow m out) (db_positions db)"
  have "distinct (map fst ?rows)" using assms(1) by (simp add: sql_inv_def distinct_map_filter)
  then have "distinct (map (\<lambda>x. wi_UserID (winningOf x)) ?rows)"
    by (rule distinct_users [of _ m _ out]) (auto simp: winningRow_def winningOf_def)
  moreover have "mset (map wi_UserID ws) = mset (map wi_UserID (map winningOf ?rows))"
    using sql_winning_list [OF assms(2)] by (simp only: mset_map)
  then have "mset (map wi_UserID ws) = mset (map (\<lambda>x. wi_UserID (winningOf x)) ?rows)" by (simp add: comp_def)
  ultimately show ?thesis using mset_eq_imp_distinct_iff by blast
qed

lemma sql_winning_mem:
  assumes "sql_inv db" and "sql_WinningPositions env m out db = Inr ws"
  shows "w \<in> set ws \<longleftrightarrow> w = winner m out (wi_UserID w) (sql_unsettled m out (wi_UserID w) db) \<and> 0 < wi_Quantity w"
proof -
  have ws: "set ws = winningOf ` set (filter (winningRow m out) (db_positions db))"
    using mset_eq_setD [OF sql_winning_list [OF assms(2)]] by simp
  show ?thesis
  proof
    assume "w \<in> set ws"
    then obtain u row where u: "((m, u, out), row) \<in> set (db_positions db)" "pw_SettledQuantity row < pw_Quantity row"
        "w = winner m out u (pw_Quantity row - pw_SettledQuantity row)"
      unfolding ws by (auto simp: winningRow_def winningOf_def winner_def)
    have "map_of (db_positions db) (m, u, out) = Some row" using assms(1) u(1) by (simp add: sql_inv_def)
    then show "w = winner m out (wi_UserID w) (sql_unsettled m out (wi_UserID w) db) \<and> 0 < wi_Quantity w"
      using u(2,3) by (simp add: sql_unsettled_def winner_def)
  next
    assume w: "w = winner m out (wi_UserID w) (sql_unsettled m out (wi_UserID w) db) \<and> 0 < wi_Quantity w"
    then have pos: "0 < sql_unsettled m out (wi_UserID w) db" by (metis winner_def winningPosition.select_convs(4))
    then obtain row where row: "map_of (db_positions db) (m, wi_UserID w, out) = Some row" by (auto simp: sql_unsettled_def split: option.splits)
    have q: "sql_unsettled m out (wi_UserID w) db = pw_Quantity row - pw_SettledQuantity row" by (simp add: sql_unsettled_def row)
    have "((m, wi_UserID w, out), row) \<in> set (filter (winningRow m out) (db_positions db))"
      using map_of_SomeD [OF row] pos q by (simp add: winningRow_def)
    moreover have "w = winningOf ((m, wi_UserID w, out), row)" using w unfolding q by (simp add: winningOf_def winner_def)
    ultimately show "w \<in> set ws" unfolding ws by (rule rev_image_eqI)
  qed
qed

lemma sql_MarkSettled_fresh:
  assumes "sql_inv db" and "normU out = out" and "sql_fresh m out u db"
    and "sql_MarkSettled env (settlementEvent now (winner m out u (sql_unsettled m out u db)) pay) db = (None, db')"
  shows "sql_inv db'" and "sql_unsettled m out u db' \<le> 0"
    and "v \<noteq> u \<Longrightarrow> sql_unsettled m out v db' = sql_unsettled m out v db \<and> sql_fresh m out v db' = sql_fresh m out v db"
proof -
  let ?id = "settlementEventID m u out" and ?q = "sql_unsettled m out u db"
  let ?e = "settlementEvent now (winner m out u ?q) pay"
  have fr: "map_of (db_payouts db) ?id = None" using assms(3) by (simp add: sql_fresh_def)
  have "\<exists>rows asset es. settledRows (m, u, out) ?q db = Some rows \<and>
      appendTx env es (db\<lparr>db_payouts := AList.update ?id (payoutRow ?e asset) (db_payouts db), db_positions := rows\<rparr>) db = (None, db')"
    using assms(2,4) fr by (auto simp: sql_MarkSettled_def Let_def settlementEvent_def winner_def split: if_splits option.splits)
  then obtain rows asset es where rows: "settledRows (m, u, out) ?q db = Some rows"
    and app: "appendTx env es (db\<lparr>db_payouts := AList.update ?id (payoutRow ?e asset) (db_payouts db), db_positions := rows\<rparr>) db = (None, db')" by blast
  have db': "db_positions db' = rows" "db_payouts db' = AList.update ?id (payoutRow ?e asset) (db_payouts db)"
    using appendTx_changed [OF app] by simp_all
  show "sql_inv db'"
    using assms(1) rows by (auto simp: sql_inv_def db' settledRows_def distinct_update split: option.splits if_splits)
  show "sql_unsettled m out u db' \<le> 0"
    using rows by (auto simp: sql_unsettled_def db' settledRows_def map_simps split: option.splits if_splits)
  show "sql_unsettled m out v db' = sql_unsettled m out v db \<and> sql_fresh m out v db' = sql_fresh m out v db" if "v \<noteq> u"
    using rows that by (auto simp: sql_unsettled_def sql_fresh_def db' settledRows_def map_simps settlementEventID_inject split: option.splits if_splits)
qed

interpretation sql_positions: position_store "sqlStore env" sql_inv sql_unsettled sql_fresh for env
proof unfold_locales
  fix s m out ws w
  assume "sql_inv s" and "st_WinningPositions (sqlStore env) m out s = Inr ws"
  then show "distinct (map wi_UserID ws)"
    and "w \<in> set ws \<longleftrightarrow> w = winner m out (wi_UserID w) (sql_unsettled m out (wi_UserID w) s) \<and> 0 < wi_Quantity w"
    using sql_winning_users sql_winning_mem by (simp_all add: sqlStore_def)
next
  fix s out m u now pay s'
  assume a: "sql_inv s" "normU out = out" "sql_fresh m out u s"
    and "st_MarkSettled (sqlStore env) (settlementEvent now (winner m out u (sql_unsettled m out u s)) pay) s = (None, s')"
  then have "sql_MarkSettled env (settlementEvent now (winner m out u (sql_unsettled m out u s)) pay) s = (None, s')" by (simp add: sqlStore_def)
  note m = sql_MarkSettled_fresh [OF a this]
  show "sql_inv s' \<and> sql_unsettled m out u s' \<le> 0 \<and>
      (\<forall>v. v \<noteq> u \<longrightarrow> sql_unsettled m out v s' = sql_unsettled m out v s \<and> sql_fresh m out v s' = sql_fresh m out v s)"
    using m(1,2,3) by blast
qed

section \<open>The handler\<close>

fun settlements :: "SettlementMessage list \<Rightarrow> SettlementCompletedEvent list" where
  "settlements [] = []"
| "settlements (SettlementDone k e # ms) = e # settlements ms"
| "settlements (OrderEventMessage k e # ms) = settlements ms"

lemma settlements_append [simp]: "settlements (xs @ ys) = settlements xs @ settlements ys"
  by (induction xs rule: settlements.induct) simp_all

lemma settlements_messages: "settlements (map (settlementMessage now) ws) = map (\<lambda>w. settlementEvent now w (100 * wi_Quantity w)) ws"
  by (induction ws) (simp_all add: settlementMessage_def)

definition resolvedAs :: "i64 \<Rightarrow> string \<Rightarrow> SettlementDB \<Rightarrow> bool" where
  "resolvedAs m out db \<longleftrightarrow> (\<exists>row. map_of (db_markets db) m = Some row \<and> mk_Status row = ''RESOLVED'' \<and> normU (mk_ResolvedOutcome row) = normU out)"

lemma normU_RESOLVED: "normU ''RESOLVED'' = ''RESOLVED''"
  by code_simp

lemma ensureMarket_frame:
  "ensureMarket env m db = (err, db1) \<Longrightarrow> db_positions db1 = db_positions db \<and> db_payouts db1 = db_payouts db \<and>
    (map_of (db_markets db) m \<noteq> None \<longrightarrow> db1 = db)"
  by (auto simp: ensureMarket_def split: if_splits)

lemma resolveOpenMarket_frame:
  assumes "resolveOpenMarket env input db = (r, db')"
  shows "db_positions db' = db_positions db \<and> db_payouts db' = db_payouts db" and "r = Inr b \<Longrightarrow> resolvedAs (ri_MarketID input) (ri_ResolvedOutcome input) db'"
proof -
  define final where "final = finalizeResolutionRecord (loadResolutionRecordTx (ri_MarketID input) db) (ri_ResolvedOutcome input)"
  define changed where "changed = db\<lparr>db_markets := AList.update (ri_MarketID input) \<lparr>mk_Status = ''RESOLVED'', mk_ResolvedOutcome = ri_ResolvedOutcome input\<rparr> (db_markets db),
      db_resolutions := AList.update (ri_MarketID input) (final\<lparr>rr_Evidence := normalizeResolutionEvidence (rr_Evidence final)\<rparr>) (db_resolutions db)\<rparr>"
  obtain err db1 where a: "appendTx env [buildMarketResolvedEntry env (normalizeResolveMarketInput env input) final] changed db = (err, db1)" by fastforce
  have r: "(r, db') = (if se_faults env ''resolveMarket'' then (Inl (StatementFailed ''resolveMarket''), db)
      else case err of Some e \<Rightarrow> (Inl e, db1) | None \<Rightarrow> (Inr True, db1))"
    using assms unfolding resolveOpenMarket_def Let_def final_def [symmetric] changed_def [symmetric] a by (auto split: option.splits)
  have c: "db_positions changed = db_positions db" "db_payouts changed = db_payouts db"
    "map_of (db_markets changed) (ri_MarketID input) = Some \<lparr>mk_Status = ''RESOLVED'', mk_ResolvedOutcome = ri_ResolvedOutcome input\<rparr>"
    by (simp_all add: changed_def map_simps)
  show "db_positions db' = db_positions db \<and> db_payouts db' = db_payouts db"
    using r c appendTx_changed [of env _ changed db db1] appendTx_failed [of env _ changed db _ db1] a by (cases err) (auto split: if_splits)
  show "resolvedAs (ri_MarketID input) (ri_ResolvedOutcome input) db'" if "r = Inr b"
    using r c(3) appendTx_changed [of env _ changed db db1] a that by (cases err) (auto simp: resolvedAs_def split: if_splits)
qed

lemma sql_ResolveMarket_frame:
  assumes "sql_ResolveMarket env input db = (r, db')"
  shows "db_positions db' = db_positions db \<and> db_payouts db' = db_payouts db" and "r = Inr b \<Longrightarrow> resolvedAs (ri_MarketID input) (ri_ResolvedOutcome input) db'"
proof -
  obtain err db1 where e: "ensureMarket env (ri_MarketID input) db = (err, db1)" by fastforce
  note f = ensureMarket_frame [OF e]
  have cases: "r \<noteq> Inr b \<and> db' = db1 \<or> resolveOpenMarket env input db1 = (r, db') \<or> db' = db1 \<and> resolvedAs (ri_MarketID input) (ri_ResolvedOutcome input) db1" for b
    using assms e by (auto simp: sql_ResolveMarket_def resolvedAs_def split: option.splits if_splits)
  show "db_positions db' = db_positions db \<and> db_payouts db' = db_payouts db"
    using f resolveOpenMarket_frame(1) [of env input db1 r db'] cases by metis
  show "resolvedAs (ri_MarketID input) (ri_ResolvedOutcome input) db'" if "r = Inr b"
    using cases [of b] resolveOpenMarket_frame(2) [of env input db1 r db' b] that by blast
qed

lemma sql_CancelActiveOrders_frame:
  assumes "sql_CancelActiveOrders env m reason db = (r, db')"
  shows "db_positions db' = db_positions db \<and> db_payouts db' = db_payouts db \<and> db_markets db' = db_markets db"
proof -
  define changed where "changed = db\<lparr>db_orders := map (\<lambda>o'. if activeOrder m o' then cancelOrder (se_now env) reason o' else o') (db_orders db)\<rparr>"
  define es where "es = buildSettlementCancellationEntries (map (cancelOrder (se_now env) reason) (filter (activeOrder m) (db_orders db)))"
  obtain err db1 where a: "appendTx env es changed db = (err, db1)" by fastforce
  have "db' = db \<or> db' = db1"
    using assms unfolding sql_CancelActiveOrders_def Let_def es_def [symmetric] changed_def [symmetric] a by (auto split: if_splits option.splits)
  then show ?thesis
    using appendTx_changed [of env es changed db db1] appendTx_failed [of env es changed db _ db1] a by (cases err) (auto simp: changed_def)
qed

lemma publishCancelled_frame:
  "publishCancelled env tr os p = (err, p') \<Longrightarrow> pr_store p' = pr_store p \<and> settlements (ob_sent (pr_out p')) = settlements (ob_sent (pr_out p))"
proof (induction os arbitrary: p)
  case (Cons x xs)
  obtain e1 p1 where p1: "publishJSON env (OrderEventMessage (marketBookKey (co_MarketID x) (co_Outcome x)) (cancelledOrderEvent env tr x (ob_calls (pr_out p)))) p = (e1, p1)"
    by fastforce
  then have "pr_store p1 = pr_store p \<and> settlements (ob_sent (pr_out p1)) = settlements (ob_sent (pr_out p))"
    by (auto simp: publishJSON_def Let_def split: if_splits)
  then show ?case using Cons p1 by (auto split: option.splits)
qed simp

lemma appendTx_markets:
  assumes "appendTx env es changed db = (err, db')" and "db_markets changed = db_markets db"
  shows "db_markets db' = db_markets db"
  using appendTx_changed [of env es changed db db'] appendTx_failed [of env es changed db _ db'] assms by (cases err) auto

lemma sql_MarkSettled_markets:
  assumes "sql_MarkSettled env e db = (err, db')"
  shows "db_markets db' = db_markets db"
proof -
  have "db' = db \<or> (\<exists>es changed. appendTx env es changed db = (err, db') \<and> db_markets changed = db_markets db)"
    using assms unfolding sql_MarkSettled_def Let_def by (auto split: if_splits option.splits) fastforce+
  then show ?thesis using appendTx_markets by metis
qed

lemma settleOne_markets:
  assumes "pe_store env = sqlStore senv" and "settleOne env w p = (err, p')"
  shows "db_markets (pr_store p') = db_markets (pr_store p)"
proof -
  have pub: "pr_store p1 = pr_store p" if "publishJSON env msg p = (e, p1)" for msg e p1
    using that by (auto simp: publishJSON_def Let_def split: if_splits)
  have mark: "db_markets (pr_store p2) = db_markets (pr_store p1)" if "markSettled env ev p1 = (e, p2)" for ev e p1 p2
    using that sql_MarkSettled_markets [of senv ev "pr_store p1"] assms(1) by (auto simp: markSettled_def sqlStore_def split: prod.splits)
  show ?thesis
    using assms(2) by (auto simp: settleOne_def Let_def split: sum.splits prod.splits option.splits dest!: pub mark)
qed

lemma settleLoop_markets:
  "pe_store env = sqlStore senv \<Longrightarrow> settleLoop env ws p = (err, p') \<Longrightarrow> db_markets (pr_store p') = db_markets (pr_store p)"
proof (induction ws arbitrary: p)
  case (Cons w ws)
  obtain e1 p1 where p1: "settleOne env w p = (e1, p1)" by fastforce
  then show ?case using Cons settleOne_markets [OF Cons.prems(1) p1] by (auto split: option.splits)
qed simp

text \<open>What a successful run of the handler consists of.\<close>

lemma HandleMarketEvent_parts:
  assumes "pe_store env = sqlStore senv" and "sql_RollupFrozen senv (pr_store p) = Inr False" and "normU (me_Status ev) = ''RESOLVED''"
    and "normU (me_ResolvedOutcome ev) = out" and "out \<noteq> []" and "HandleMarketEvent env (Inr ev) p = (None, p')"
  obtains p1 where "settleWinningPositions env (me_MarketID ev) out p1 = (None, p')"
    "db_positions (pr_store p1) = db_positions (pr_store p)" "db_payouts (pr_store p1) = db_payouts (pr_store p)"
    "resolvedAs (me_MarketID ev) out (pr_store p1)" "settlements (ob_sent (pr_out p1)) = settlements (ob_sent (pr_out p))"
proof -
  define input where "input = \<lparr>ri_MarketID = me_MarketID ev, ri_ResolvedOutcome = out, ri_OccurredAtMillis = me_OccurredAtMillis ev\<rparr>"
  obtain r s where res: "sql_ResolveMarket senv input (pr_store p) = (r, s)" by fastforce
  have run: "(case r of Inl err \<Rightarrow> (Some err, p\<lparr>pr_store := s\<rparr>)
      | Inr False \<Rightarrow> settleWinningPositions env (me_MarketID ev) out (p\<lparr>pr_store := s\<rparr>)
      | Inr True \<Rightarrow> cancelAndSettle env ev out (p\<lparr>pr_store := s\<rparr>)) = (None, p')"
    using assms res by (simp add: HandleMarketEvent_def marketResolved_def sqlStore_def input_def split: sum.splits bool.splits)
  note f = sql_ResolveMarket_frame [OF res]
  obtain b where b: "r = Inr b" using run by (cases r) simp_all
  have rs: "resolvedAs (me_MarketID ev) out s" using f(2) [OF b] by (simp add: input_def)
  show thesis
  proof (cases b)
    case False
    then show ?thesis using that [of "p\<lparr>pr_store := s\<rparr>"] run b f(1) rs by simp
  next
    case True
    obtain c s2 where c: "sql_CancelActiveOrders senv (me_MarketID ev) ''MARKET_RESOLVED'' s = (c, s2)" by fastforce
    note g = sql_CancelActiveOrders_frame [OF c]
    have "cancelAndSettle env ev out (p\<lparr>pr_store := s\<rparr>) = (None, p')" using run b True by simp
    then obtain os p1 where os: "publishCancelled env (me_TraceID ev) os (p\<lparr>pr_store := s2\<rparr>) = (None, p1)"
        "settleWinningPositions env (me_MarketID ev) out p1 = (None, p')"
      using c assms(1) by (auto simp: cancelAndSettle_def sqlStore_def split: sum.splits prod.splits option.splits)
    have "pr_store p1 = s2" "settlements (ob_sent (pr_out p1)) = settlements (ob_sent (pr_out p))"
      using publishCancelled_frame [OF os(1)] by simp_all
    then show ?thesis using that [of p1] os(2) f(1) g rs by (simp add: resolvedAs_def)
  qed
qed

lemma settleWinningPositions_markets:
  "pe_store env = sqlStore senv \<Longrightarrow> settleWinningPositions env m out p = (err, p') \<Longrightarrow> db_markets (pr_store p') = db_markets (pr_store p)"
  using settleLoop_markets by (auto simp: settleWinningPositions_def split: sum.splits)

lemma sql_frame:
  "db_positions db' = db_positions db \<Longrightarrow> sql_unsettled m out u db' = sql_unsettled m out u db"
  "db_positions db' = db_positions db \<Longrightarrow> sql_inv db' = sql_inv db"
  "db_payouts db' = db_payouts db \<Longrightarrow> sql_fresh m out u db' = sql_fresh m out u db"
  by (simp_all add: sql_unsettled_def sql_inv_def sql_fresh_def)

lemma redelivery_silent:
  assumes "pe_store env = sqlStore senv" and "sql_inv (pr_store p)" and "normU (me_ResolvedOutcome ev) = out"
    and "resolvedAs (me_MarketID ev) out (pr_store p)" and "\<forall>u. sql_unsettled (me_MarketID ev) out u (pr_store p) \<le> 0"
    and "HandleMarketEvent env (Inr ev) p = (err, p')"
  shows "p' = p"
proof -
  define input where "input = \<lparr>ri_MarketID = me_MarketID ev, ri_ResolvedOutcome = out, ri_OccurredAtMillis = me_OccurredAtMillis ev\<rparr>"
  obtain row where row: "map_of (db_markets (pr_store p)) (me_MarketID ev) = Some row" "mk_Status row = ''RESOLVED''" "normU (mk_ResolvedOutcome row) = normU out"
    using assms(4) by (auto simp: resolvedAs_def)
  have e: "snd (ensureMarket senv (me_MarketID ev) (pr_store p)) = pr_store p" using row(1) by (simp add: ensureMarket_def)
  obtain r s where res: "sql_ResolveMarket senv input (pr_store p) = (r, s)" by fastforce
  have rs: "s = pr_store p" "r \<noteq> Inr True"
    using res e row normU_RESOLVED by (auto simp: sql_ResolveMarket_def input_def split: prod.splits option.splits if_splits)
  have silent: "p2 = p" if "settleWinningPositions env (me_MarketID ev) out p = (e2, p2)" for e2 p2
    using sql_positions.settle_silent [OF assms(1,2,5) that] .
  have up: "p\<lparr>pr_store := pr_store p\<rparr> = p" by simp
  have m: "marketResolved env ev out p = (e2, p2) \<Longrightarrow> p2 = p" for e2 p2
    using res rs silent [of e2 p2] assms(1) up by (auto simp: marketResolved_def sqlStore_def input_def split: sum.splits bool.splits)
  show ?thesis
    using assms(3,6) m by (auto simp: HandleMarketEvent_def split: sum.splits bool.splits if_splits)
qed

section \<open>Properties\<close>

text \<open>
  C9. Settling a resolved market over the SQL store pays the winners once. When the handler succeeds and no open winning position has
  an earlier payout, it has announced exactly one settlement for every user with an open winning
  position, for the open quantity at 100 for a share, no winning position is left open, and delivering
  the event again, also by a process with other failures, announces nothing and changes nothing.
\<close>

theorem settlement_pays_winners_once:
  assumes "pe_store env = sqlStore senv" and "sql_inv (pr_store p)" and "sql_RollupFrozen senv (pr_store p) = Inr False"
    and "normU (me_Status ev) = ''RESOLVED''" and "normU (me_ResolvedOutcome ev) = out" and "out \<noteq> []"
    and "\<forall>u. 0 < sql_unsettled (me_MarketID ev) out u (pr_store p) \<longrightarrow> sql_fresh (me_MarketID ev) out u (pr_store p)"
    and "HandleMarketEvent env (Inr ev) p = (None, p')"
  shows "(\<exists>ws. distinct (map wi_UserID ws) \<and>
      (\<forall>w. w \<in> set ws \<longleftrightarrow> w = winner (me_MarketID ev) out (wi_UserID w) (sql_unsettled (me_MarketID ev) out (wi_UserID w) (pr_store p)) \<and> 0 < wi_Quantity w) \<and>
      settlements (ob_sent (pr_out p')) = settlements (ob_sent (pr_out p)) @ map (\<lambda>w. settlementEvent (pe_nowMillis env) w (100 * wi_Quantity w)) ws) \<and>
    (\<forall>u. sql_unsettled (me_MarketID ev) out u (pr_store p') \<le> 0) \<and>
    (\<forall>env2 senv2 err p2. pe_store env2 = sqlStore senv2 \<longrightarrow> HandleMarketEvent env2 (Inr ev) p' = (err, p2) \<longrightarrow> p2 = p')"
proof -
  obtain p1 where p1: "settleWinningPositions env (me_MarketID ev) out p1 = (None, p')"
      "db_positions (pr_store p1) = db_positions (pr_store p)" "db_payouts (pr_store p1) = db_payouts (pr_store p)"
      "resolvedAs (me_MarketID ev) out (pr_store p1)" "settlements (ob_sent (pr_out p1)) = settlements (ob_sent (pr_out p))"
    by (rule HandleMarketEvent_parts [OF assms(1,3,4,5,6,8)])
  have n: "normU out = out" using assms(5) by (metis normU_idem)
  have inv: "sql_inv (pr_store p1)" using assms(2) sql_frame(2) [OF p1(2)] by simp
  have fresh: "\<forall>u. 0 < sql_unsettled (me_MarketID ev) out u (pr_store p1) \<longrightarrow> sql_fresh (me_MarketID ev) out u (pr_store p1)"
    using assms(7) sql_frame(1) [OF p1(2)] sql_frame(3) [OF p1(3)] by simp
  from sql_positions.settle_pays_winners [OF assms(1) inv n fresh p1(1)] obtain ws where
      ws: "distinct (map wi_UserID ws)"
        "\<forall>w. w \<in> set ws \<longleftrightarrow> w = winner (me_MarketID ev) out (wi_UserID w) (sql_unsettled (me_MarketID ev) out (wi_UserID w) (pr_store p1)) \<and> 0 < wi_Quantity w"
        "ob_sent (pr_out p') = ob_sent (pr_out p1) @ map (settlementMessage (pe_nowMillis env)) ws"
      and done': "\<forall>u. sql_unsettled (me_MarketID ev) out u (pr_store p') \<le> 0" "sql_inv (pr_store p')" by blast
  have "resolvedAs (me_MarketID ev) out (pr_store p')"
    using p1(4) settleWinningPositions_markets [OF assms(1) p1(1)] by (simp add: resolvedAs_def)
  then have "\<forall>env2 senv2 err p2. pe_store env2 = sqlStore senv2 \<longrightarrow> HandleMarketEvent env2 (Inr ev) p' = (err, p2) \<longrightarrow> p2 = p'"
    using redelivery_silent [OF _ done'(2) assms(5) _ done'(1)] by blast
  moreover have "settlements (ob_sent (pr_out p')) = settlements (ob_sent (pr_out p)) @ map (\<lambda>w. settlementEvent (pe_nowMillis env) w (100 * wi_Quantity w)) ws"
    using ws(3) p1(5) by (simp add: settlements_messages)
  ultimately show ?thesis using ws(1,2) done'(1) unfolding sql_frame(1) [OF p1(2)] by blast
qed

definition ex_settle_env :: SettleEnv where
  "ex_settle_env = \<lparr>se_journal = None, se_codec = ex_codec, se_attestation = (\<lambda>_. Inr None), se_now = 1, se_faults = (\<lambda>_. False)\<rparr>"

definition ex_processor_env :: "SettlementDB ProcessorEnv" where
  "ex_processor_env = \<lparr>pe_store = sqlStore ex_settle_env, pe_delivers = (\<lambda>_. True), pe_nowMillis = 5, pe_newID = (\<lambda>_. ''evt'')\<rparr>"

definition ex_settlement :: "(string \<times> SettlementCompletedEvent) list \<Rightarrow> SettlementDB Processor" where
  "ex_settlement payouts = \<lparr>pr_store = \<lparr>db_markets = [], db_resolutions = [],
       db_positions = [((7, 2, ''YES''), \<lparr>pw_PositionAsset = ''POSITION:7:YES'', pw_Quantity = 3, pw_SettledQuantity = 0\<rparr>),
         ((7, 1, ''YES''), \<lparr>pw_PositionAsset = ''POSITION:7:YES'', pw_Quantity = 4, pw_SettledQuantity = 0\<rparr>),
         ((7, 1, ''NO''), \<lparr>pw_PositionAsset = ''POSITION:7:NO'', pw_Quantity = 9, pw_SettledQuantity = 0\<rparr>)],
       db_payouts = payouts, db_orders = [], db_freezes = [], db_journal = \<lparr>jn_rows = [], jn_next = 1\<rparr>\<rparr>,
     pr_out = \<lparr>ob_sent = [], ob_calls = 0\<rparr>\<rparr>"

definition ex_resolved :: MarketEvent where
  "ex_resolved = \<lparr>me_EventID = ''e'', me_TraceID = ''t'', me_MarketID = 7, me_Status = ''resolved'', me_ResolvedOutcome = ''yes'', me_OccurredAtMillis = 3\<rparr>"

lemma ex_resolved_facts: "normU (me_Status ex_resolved) = ''RESOLVED''" "normU (me_ResolvedOutcome ex_resolved) = ''YES''" "me_MarketID ex_resolved = 7"
  by code_simp+

lemma ex_settlement_facts:
  "sql_inv (pr_store (ex_settlement ps))" "sql_RollupFrozen ex_settle_env (pr_store (ex_settlement ps)) = Inr False"
  "pe_store ex_processor_env = sqlStore ex_settle_env"
  by (simp_all add: sql_inv_def ex_settlement_def sql_RollupFrozen_def ex_settle_env_def ex_processor_env_def)

definition ex_resolved_db :: SettlementDB where
  "ex_resolved_db = (pr_store (ex_settlement []))\<lparr>db_markets := [(7, \<lparr>mk_Status = ''RESOLVED'', mk_ResolvedOutcome = ''YES''\<rparr>)],
     db_resolutions := [(7, \<lparr>rr_Status = ''RESOLVED'', rr_ResolvedOutcome = ''YES'', rr_ResolverType = ''ADMIN'', rr_ResolverRef = '''', rr_Evidence = ''{}''\<rparr>)]\<rparr>"

lemma ex_settlement_run:
  "HandleMarketEvent ex_processor_env (Inr ex_resolved) (ex_settlement []) =
    settleLoop ex_processor_env [winner 7 ''YES'' 1 4, winner 7 ''YES'' 2 3] ((ex_settlement [])\<lparr>pr_store := ex_resolved_db\<rparr>)"
proof -
  have r: "sql_ResolveMarket ex_settle_env \<lparr>ri_MarketID = 7, ri_ResolvedOutcome = ''YES'', ri_OccurredAtMillis = me_OccurredAtMillis ex_resolved\<rparr> (pr_store (ex_settlement [])) =
      (Inr True, ex_resolved_db)"
    and c: "sql_CancelActiveOrders ex_settle_env 7 ''MARKET_RESOLVED'' ex_resolved_db = (Inr [], ex_resolved_db)"
    and w: "sql_WinningPositions ex_settle_env 7 ''YES'' ex_resolved_db = Inr [winner 7 ''YES'' 1 4, winner 7 ''YES'' 2 3]"
    by code_simp+
  have "settleWinningPositions ex_processor_env 7 ''YES'' ((ex_settlement [])\<lparr>pr_store := ex_resolved_db\<rparr>) =
      settleLoop ex_processor_env [winner 7 ''YES'' 1 4, winner 7 ''YES'' 2 3] ((ex_settlement [])\<lparr>pr_store := ex_resolved_db\<rparr>)"
    by (simp add: settleWinningPositions_def ex_settlement_facts(3) sqlStore_def w del: settleLoop.simps)
  then show ?thesis
    by (simp add: HandleMarketEvent_def marketResolved_def cancelAndSettle_def ex_settlement_facts ex_resolved_facts sqlStore_def r c del: settleLoop.simps)
qed

theorem settlement_pays_winners_once_witness:
  "\<exists>p'. HandleMarketEvent ex_processor_env (Inr ex_resolved) (ex_settlement []) = (None, p') \<and>
    map sc_PayoutAmount (settlements (ob_sent (pr_out p'))) = [400, 300] \<and>
    {u. 0 < sql_unsettled 7 ''YES'' u (pr_store p')} = {} \<and> snd (HandleMarketEvent ex_processor_env (Inr ex_resolved) p') = p'"
proof -
  let ?r = "HandleMarketEvent ex_processor_env (Inr ex_resolved) (ex_settlement [])"
  have "fst ?r = None" "map sc_PayoutAmount (settlements (ob_sent (pr_out (snd ?r)))) = [400, 300]"
    unfolding ex_settlement_run by code_simp+
  then have p: "?r = (None, snd ?r)" "map sc_PayoutAmount (settlements (ob_sent (pr_out (snd ?r)))) = [400, 300]"
    by (simp_all only: prod_eq_iff fst_conv snd_conv)
  obtain p' where p': "?r = (None, p')" "map sc_PayoutAmount (settlements (ob_sent (pr_out p'))) = [400, 300]" by (rule that [OF p])
  have "\<forall>u. 0 < sql_unsettled (me_MarketID ex_resolved) ''YES'' u (pr_store (ex_settlement [])) \<longrightarrow> sql_fresh (me_MarketID ex_resolved) ''YES'' u (pr_store (ex_settlement []))"
    by (simp add: sql_fresh_def ex_settlement_def)
  note t = settlement_pays_winners_once [OF ex_settlement_facts(3,1,2) ex_resolved_facts(1,2) list.distinct(2) this p'(1)]
  have "\<forall>u. sql_unsettled 7 ''YES'' u (pr_store p') \<le> 0" using t [unfolded ex_resolved_facts(3)] by (rule conjunct1 [OF conjunct2])
  then have "{u. 0 < sql_unsettled 7 ''YES'' u (pr_store p')} = {}" by (simp add: not_less)
  moreover have "snd (HandleMarketEvent ex_processor_env (Inr ex_resolved) p') = p'"
  proof -
    obtain e2 p2 where r2: "HandleMarketEvent ex_processor_env (Inr ex_resolved) p' = (e2, p2)" by (rule prod.exhaust)
    have "p2 = p'" by (rule conjunct2 [OF conjunct2 [OF t], rule_format, OF ex_settlement_facts(3) r2])
    then show ?thesis by (simp only: r2 snd_conv)
  qed
  ultimately show ?thesis using p' by (intro exI [of _ p'] conjI)
qed

text \<open>A position that grows after its payout: the settlement is announced under the identifier of the first one.\<close>

lemma sql_MarkSettled_paid:
  assumes "normU out = out" and "\<not> sql_fresh m out u db"
    and "sql_MarkSettled env (settlementEvent now (winner m out v q) pay) db = (None, db')"
  shows "sql_unsettled m out u db' = sql_unsettled m out u db \<and> \<not> sql_fresh m out u db'"
proof (cases "map_of (db_payouts db) (settlementEventID m v out) = None")
  case False
  then have "db' = db"
    using assms(3) by (auto simp: sql_MarkSettled_def Let_def settlementEvent_def winner_def split: if_splits)
  then show ?thesis using assms(2) by simp
next
  case True
  then have "v \<noteq> u" using assms(2) by (auto simp: sql_fresh_def)
  have "\<exists>rows row es. settledRows (m, v, out) q db = Some rows \<and>
      appendTx env es (db\<lparr>db_payouts := AList.update (settlementEventID m v out) row (db_payouts db), db_positions := rows\<rparr>) db = (None, db')"
    using assms(1,3) True by (auto simp: sql_MarkSettled_def Let_def settlementEvent_def winner_def split: if_splits option.splits)
  then obtain rows row es where r: "settledRows (m, v, out) q db = Some rows"
    "appendTx env es (db\<lparr>db_payouts := AList.update (settlementEventID m v out) row (db_payouts db), db_positions := rows\<rparr>) db = (None, db')" by blast
  have "db_positions db' = rows" "db_payouts db' = AList.update (settlementEventID m v out) row (db_payouts db)"
    using appendTx_changed [OF r(2)] by simp_all
  moreover have "map_of rows (m, u, out) = map_of (db_positions db) (m, u, out)"
    using r(1) \<open>v \<noteq> u\<close> by (auto simp: settledRows_def map_simps split: option.splits if_splits)
  ultimately show ?thesis
    using assms(2) \<open>v \<noteq> u\<close> by (simp add: sql_unsettled_def sql_fresh_def map_simps settlementEventID_inject)
qed

lemma settleOne_run:
  assumes "settleOne env w p = (None, p')"
  shows "ob_sent (pr_out p') = ob_sent (pr_out p) @ [settlementMessage (pe_nowMillis env) w]"
    and "\<exists>pay. st_MarkSettled (pe_store env) (settlementEvent (pe_nowMillis env) w pay) (pr_store p) = (None, pr_store p')"
proof -
  obtain pay where pay: "WinningPayoutAmount (wi_Quantity w) = Inr pay"
    using assms by (auto simp: settleOne_def split: sum.splits)
  then have "pay = 100 * wi_Quantity w" by (simp add: WinningPayoutAmount_iff)
  let ?e = "settlementEvent (pe_nowMillis env) w pay"
  obtain p1 where p1: "publishJSON env (SettlementDone (settlementKey (wi_MarketID w) (wi_UserID w)) ?e) p = (None, p1)" "markSettled env ?e p1 = (None, p')"
    using assms pay by (auto simp: settleOne_def Let_def split: prod.splits option.splits)
  have out: "pr_store p1 = pr_store p" "ob_sent (pr_out p1) = ob_sent (pr_out p) @ [SettlementDone (settlementKey (wi_MarketID w) (wi_UserID w)) ?e]"
    using p1(1) by (auto simp: publishJSON_def Let_def split: if_splits)
  have m: "st_MarkSettled (pe_store env) ?e (pr_store p) = (None, pr_store p')" "pr_out p' = pr_out p1"
    using p1(2) out(1) by (auto simp: markSettled_def split: prod.splits)
  show "ob_sent (pr_out p') = ob_sent (pr_out p) @ [settlementMessage (pe_nowMillis env) w]"
    using out(2) m(2) \<open>pay = 100 * wi_Quantity w\<close> by (simp add: settlementMessage_def)
  show "\<exists>pay. st_MarkSettled (pe_store env) (settlementEvent (pe_nowMillis env) w pay) (pr_store p) = (None, pr_store p')"
    using m(1) by blast
qed

lemma settleLoop_paid:
  assumes "pe_store env = sqlStore senv" and "normU out = out" and "\<forall>w\<in>set ws. wi_MarketID w = m \<and> wi_Outcome w = out"
    and "\<not> sql_fresh m out u (pr_store p)" and "settleLoop env ws p = (None, p')"
  shows "sql_unsettled m out u (pr_store p') = sql_unsettled m out u (pr_store p) \<and>
    ob_sent (pr_out p') = ob_sent (pr_out p) @ map (settlementMessage (pe_nowMillis env)) ws"
  using assms(3,4,5)
proof (induction ws arbitrary: p)
  case (Cons w ws)
  obtain p1 where p1: "settleOne env w p = (None, p1)" "settleLoop env ws p1 = (None, p')"
    using Cons.prems(3) by (auto split: prod.splits option.splits)
  obtain pay where pay: "sql_MarkSettled senv (settlementEvent (pe_nowMillis env) w pay) (pr_store p) = (None, pr_store p1)"
    using settleOne_run(2) [OF p1(1)] assms(1) by (auto simp: sqlStore_def)
  have "w = winner m out (wi_UserID w) (wi_Quantity w)" using Cons.prems(1) by (simp add: winner_def)
  then have one: "sql_unsettled m out u (pr_store p1) = sql_unsettled m out u (pr_store p) \<and> \<not> sql_fresh m out u (pr_store p1)"
    using sql_MarkSettled_paid [OF assms(2) Cons.prems(2)] pay by metis
  then show ?case
    using Cons.IH [OF _ _ p1(2)] Cons.prems(1) settleOne_run(1) [OF p1(1)] by simp
qed simp

text \<open>The account service ignores a settlement whose references it has processed.\<close>

lemma settlementCompleted_processed:
  assumes "bb_store (ep_book a) = None" and "0 < sc_UserID e" and "TrimSpace (sc_EventID e) \<noteq> []" and "sc_PositionAsset e = PositionAsset m out"
    and "refKey ''SETTLEMENT_DEBIT'' (sc_EventID e) \<in> set (processedRefs (ep_book a))" and "refKey ''SETTLEMENT_CREDIT'' (sc_EventID e) \<in> set (processedRefs (ep_book a))"
  shows "settlementCompleted e a = (None, a)"
proof -
  have t: "TrimSpace ''SETTLEMENT_DEBIT'' \<noteq> []" "TrimSpace ''SETTLEMENT_CREDIT'' \<noteq> []" "TrimSpace DefaultCollateralAsset \<noteq> []" by code_simp+
  have "TrimSpace (PositionAsset m out) \<noteq> []"
  proof
    assume "TrimSpace (PositionAsset m out) = []"
    then have "dropWhile is_space (rev (dropWhile is_space (PositionAsset m out))) = []" by (simp add: TrimSpace_def)
    then have "\<forall>c\<in>set (dropWhile is_space (PositionAsset m out)). is_space c" by (simp add: dropWhile_eq_Nil_conv)
    then show False by (simp add: PositionAsset_def is_space_def)
  qed
  then have n: "normalizeAsset (PositionAsset m out) \<noteq> []" by (simp add: normalizeAsset_def NormalizeAsset_def Let_def)
  have c: "normalizeAsset (collateralAsset x) \<noteq> []" for x
    using t(3) by (simp add: normalizeAsset_def collateralAsset_def NormalizeAsset_def Let_def TrimSpace_ToUpper)
  have up: "a\<lparr>ep_book := ep_book a\<rparr> = a" by simp
  have "debitRef \<lparr>dq_UserID = sc_UserID e, dq_Asset = sc_PositionAsset e, dq_Amount = sc_SettledQuantity e, dq_RefType = ''SETTLEMENT_DEBIT'', dq_RefID = sc_EventID e\<rparr> a = (None, a)"
    if "0 < sc_SettledQuantity e"
    using that assms n t up by (simp add: debitRef_def DebitAvailableWithRef_def)
  moreover have "creditRef \<lparr>cq_UserID = sc_UserID e, cq_Asset = collateralAsset (sc_PayoutAsset e), cq_Amount = sc_PayoutAmount e, cq_RefType = ''SETTLEMENT_CREDIT'', cq_RefID = sc_EventID e\<rparr> a = (None, a)"
    if "0 < sc_PayoutAmount e"
    using that assms c t up by (simp add: creditRef_def CreditAvailableWithRef_def)
  ultimately show ?thesis by (simp add: settlementCompleted_def and_then_def)
qed

text \<open>
  C39. A position that grows after its payout is never paid. When a user has a payout for the market and a
  position change that arrives later leaves winning shares open, every successful delivery of
  the market event announces a settlement for these shares again, but under the identifier of
  the first one: the store leaves the shares open, and the account service, which has processed
  that identifier, ignores the settlement.
\<close>

theorem late_delta_never_paid:
  assumes "pe_store env = sqlStore senv" and "sql_inv (pr_store p)" and "sql_RollupFrozen senv (pr_store p) = Inr False"
    and "normU (me_Status ev) = ''RESOLVED''" and "normU (me_ResolvedOutcome ev) = out" and "out \<noteq> []"
    and "\<not> sql_fresh (me_MarketID ev) out u (pr_store p)" and "0 < sql_unsettled (me_MarketID ev) out u (pr_store p)"
    and "HandleMarketEvent env (Inr ev) p = (None, p')"
    and "bb_store (ep_book a) = None" and "0 < u"
    and "refKey ''SETTLEMENT_DEBIT'' (settlementEventID (me_MarketID ev) u out) \<in> set (processedRefs (ep_book a))"
    and "refKey ''SETTLEMENT_CREDIT'' (settlementEventID (me_MarketID ev) u out) \<in> set (processedRefs (ep_book a))"
  shows "sql_unsettled (me_MarketID ev) out u (pr_store p') = sql_unsettled (me_MarketID ev) out u (pr_store p) \<and>
    (\<exists>e es. e \<in> set es \<and> settlements (ob_sent (pr_out p')) = settlements (ob_sent (pr_out p)) @ es \<and> sc_UserID e = u \<and>
      sc_SettledQuantity e = sql_unsettled (me_MarketID ev) out u (pr_store p) \<and> settlementCompleted e a = (None, a))"
proof -
  let ?m = "me_MarketID ev"
  obtain p1 where p1: "settleWinningPositions env ?m out p1 = (None, p')"
      "db_positions (pr_store p1) = db_positions (pr_store p)" "db_payouts (pr_store p1) = db_payouts (pr_store p)"
      "settlements (ob_sent (pr_out p1)) = settlements (ob_sent (pr_out p))"
    by (rule HandleMarketEvent_parts [OF assms(1,3,4,5,6,9)])
  have n: "normU out = out" using assms(5) by (metis normU_idem)
  obtain ws where ws: "sql_WinningPositions senv ?m out (pr_store p1) = Inr ws" "settleLoop env ws p1 = (None, p')"
    using p1(1) assms(1) by (auto simp: settleWinningPositions_def sqlStore_def split: sum.splits)
  have inv: "sql_inv (pr_store p1)" using assms(2) sql_frame(2) [OF p1(2)] by simp
  note mem = sql_winning_mem [OF inv ws(1), unfolded sql_frame(1) [OF p1(2)]]
  have ok: "\<forall>w\<in>set ws. wi_MarketID w = ?m \<and> wi_Outcome w = out"
    using mem by (metis winner_def winningPosition.select_convs(1,3))
  let ?w = "winner ?m out u (sql_unsettled ?m out u (pr_store p))"
  let ?es = "map (\<lambda>w. settlementEvent (pe_nowMillis env) w (100 * wi_Quantity w)) ws"
  let ?e = "settlementEvent (pe_nowMillis env) ?w (100 * wi_Quantity ?w)"
  have "?w \<in> set ws" using mem [of ?w] assms(8) by (simp add: winner_def)
  then have e: "?e \<in> set ?es" unfolding set_map by (rule imageI)
  have "\<not> sql_fresh ?m out u (pr_store p1)" using assms(7) sql_frame(3) [OF p1(3)] by simp
  note paid = settleLoop_paid [OF assms(1) n ok this ws(2), unfolded sql_frame(1) [OF p1(2)]]
  have "settlements (ob_sent (pr_out p')) = settlements (ob_sent (pr_out p)) @ ?es"
    using paid p1(4) by (simp add: settlements_messages)
  moreover have "settlementCompleted ?e a = (None, a)"
  proof (rule settlementCompleted_processed [OF assms(10)])
    have "settlementEventID ?m u out \<noteq> []" by (simp add: settlementEventID_def)
    then show "TrimSpace (sc_EventID ?e) \<noteq> []" by (simp add: settlementEvent_def winner_def)
  qed (use assms(11-13) in \<open>simp_all add: settlementEvent_def winner_def\<close>)
  moreover have "sc_UserID ?e = u" "sc_SettledQuantity ?e = sql_unsettled ?m out u (pr_store p)" by (simp_all add: settlementEvent_def winner_def)
  ultimately show ?thesis using e paid by blast
qed

text \<open>A user with four shares of which two are paid, and an account service that has processed that payout.\<close>

definition ex_grown :: "SettlementDB Processor" where
  "ex_grown = \<lparr>pr_store = \<lparr>db_markets = [(7, \<lparr>mk_Status = ''RESOLVED'', mk_ResolvedOutcome = ''YES''\<rparr>)], db_resolutions = [],
       db_positions = [((7, 1, ''YES''), \<lparr>pw_PositionAsset = ''POSITION:7:YES'', pw_Quantity = 4, pw_SettledQuantity = 2\<rparr>)],
       db_payouts = [(settlementEventID 7 1 ''YES'', settlementEvent 3 (winner 7 ''YES'' 1 2) 200)], db_orders = [], db_freezes = [],
       db_journal = \<lparr>jn_rows = [], jn_next = 1\<rparr>\<rparr>, pr_out = \<lparr>ob_sent = [], ob_calls = 0\<rparr>\<rparr>"

definition ex_paid_account :: "(unit, unit) EventProcessor" where
  "ex_paid_account = \<lparr>ep_book = (NewBalanceBook ())\<lparr>processedRefs := [refKey ''SETTLEMENT_DEBIT'' (settlementEventID 7 1 ''YES''),
     refKey ''SETTLEMENT_CREDIT'' (settlementEventID 7 1 ''YES'')]\<rparr>, ep_registry = NewOrderRegistry ()\<rparr>"

lemma ex_grown_run:
  "HandleMarketEvent ex_processor_env (Inr ex_resolved) ex_grown = settleLoop ex_processor_env [winner 7 ''YES'' 1 2] ex_grown"
proof -
  have r: "sql_ResolveMarket ex_settle_env \<lparr>ri_MarketID = 7, ri_ResolvedOutcome = ''YES'', ri_OccurredAtMillis = me_OccurredAtMillis ex_resolved\<rparr> (pr_store ex_grown) =
      (Inr False, pr_store ex_grown)"
    and f: "sql_RollupFrozen ex_settle_env (pr_store ex_grown) = Inr False"
    and w: "sql_WinningPositions ex_settle_env 7 ''YES'' (pr_store ex_grown) = Inr [winner 7 ''YES'' 1 2]"
    by code_simp+
  have "settleWinningPositions ex_processor_env 7 ''YES'' ex_grown = settleLoop ex_processor_env [winner 7 ''YES'' 1 2] ex_grown"
    by (simp add: settleWinningPositions_def ex_settlement_facts(3) sqlStore_def w del: settleLoop.simps)
  moreover have "ex_grown\<lparr>pr_store := pr_store ex_grown\<rparr> = ex_grown" by simp
  ultimately show ?thesis
    by (simp add: HandleMarketEvent_def marketResolved_def ex_settlement_facts(3) ex_resolved_facts sqlStore_def r f del: settleLoop.simps)
qed

theorem late_delta_never_paid_witness:
  "\<exists>p'. HandleMarketEvent ex_processor_env (Inr ex_resolved) ex_grown = (None, p') \<and> sql_unsettled 7 ''YES'' 1 (pr_store p') = 2 \<and>
    (\<exists>e es. e \<in> set es \<and> settlements (ob_sent (pr_out p')) = es \<and> sc_SettledQuantity e = 2 \<and> settlementCompleted e ex_paid_account = (None, ex_paid_account))"
proof -
  let ?r = "HandleMarketEvent ex_processor_env (Inr ex_resolved) ex_grown"
  have "fst ?r = None" unfolding ex_grown_run by code_simp
  then have p: "?r = (None, snd ?r)" by (simp only: prod_eq_iff fst_conv snd_conv)
  obtain p' where p': "?r = (None, p')" by (rule that [OF p])
  have g: "sql_inv (pr_store ex_grown)" "sql_RollupFrozen ex_settle_env (pr_store ex_grown) = Inr False" "settlements (ob_sent (pr_out ex_grown)) = []"
    by code_simp+
  have u: "\<not> sql_fresh (me_MarketID ex_resolved) ''YES'' 1 (pr_store ex_grown)" "sql_unsettled (me_MarketID ex_resolved) ''YES'' 1 (pr_store ex_grown) = 2"
    by code_simp+
  then have pos: "0 < sql_unsettled (me_MarketID ex_resolved) ''YES'' 1 (pr_store ex_grown)" by simp
  have a: "bb_store (ep_book ex_paid_account) = None"
      "refKey ''SETTLEMENT_DEBIT'' (settlementEventID (me_MarketID ex_resolved) 1 ''YES'') \<in> set (processedRefs (ep_book ex_paid_account))"
      "refKey ''SETTLEMENT_CREDIT'' (settlementEventID (me_MarketID ex_resolved) 1 ''YES'') \<in> set (processedRefs (ep_book ex_paid_account))"
    by (simp_all add: ex_paid_account_def NewBalanceBook_def ex_resolved_facts(3))
  note t = late_delta_never_paid [OF ex_settlement_facts(3) g(1,2) ex_resolved_facts(1,2) list.distinct(2) u(1) pos p' a(1) zero_less_one a(2,3),
    unfolded u(2) g(3) append_Nil, unfolded ex_resolved_facts(3)]
  show ?thesis using p' t by (intro exI [of _ p']) blast
qed

end
