(* ===== verification/Spec2Isabelle.thy ===== *)
theory Spec2Isabelle
  imports Match_Claims Order_Service Match_Pipeline Match_Legacy Rollup_Merkle Settlement_Props
begin

text \<open>
  A model of the trading core of FunnyOption, a prediction-market exchange whose backend is the
  Go module under \<open>src/backend\<close>. Paths below are relative to \<open>src/backend/internal\<close>.

  \<^bold>\<open>The program and how its parts interact.\<close> A client submits an order to the order service, which checks
  it, freezes its cost in the account service and publishes a command. The matching service routes the
  command through a ring buffer to the engine of its book, which matches it by price and time and emits trades and order
  events. The account service moves the funds of the trades and releases freezes. When a market is
  resolved, the settlement service cancels the open orders and pays 100 for every winning share. All of this is
  also recorded in a journal that is cut into batches and replayed to state roots, from which
  withdrawals and escape claims are proved by Merkle paths.

  \<^bold>\<open>Theories and sources.\<close>
  \<^item> \<open>Go_Prelude\<close>, \<open>Go_Maps\<close>: what the code uses of Go. Integers of type \<open>int64\<close> are integers with explicit
    wrap-around (\<open>wrap64\<close>), \<open>uint64\<close> are words, strings are ASCII, maps are association lists, errors are sums or
    options. A panic or an endless loop is \<open>None\<close>.
  \<^item> \<open>Shared_Assets\<close>: \<open>shared/assets\<close>, \<open>shared/fee\<close>. \<open>Kafka_Messages\<close>: \<open>shared/kafka/messages.go\<close>.
  \<^item> \<open>Match_Types\<close>, \<open>Match_Bitmap\<close>, \<open>Match_Bucket\<close>, \<open>Match_Book\<close>: \<open>matching/model\<close>, the order
    book with its slab of nodes, intrusive lists, bitmaps and index, at the level of pointers and words.
    \<open>Match_Engine\<close>: \<open>matching/engine/engine.go\<close>. \<open>Match_Legacy\<close>: the reference book \<open>order_book.go\<close>.
  \<^item> \<open>Match_Spec\<close>, \<open>Match_Priority\<close>, \<open>Match_Refine\<close>, \<open>Match_Place\<close>, \<open>Match_Props\<close>, \<open>Match_Claims\<close>: an abstract matcher on
    price-time lists, the simulation between it and the engine, and the properties of the engine.
  \<^item> \<open>Ring_Buffer\<close>, \<open>Match_Pipeline\<close>: \<open>matching/ringbuffer\<close>, \<open>matching/pipeline\<close>, the expiry sweep.
  \<^item> \<open>Account_Balance\<close>, \<open>Account_Events\<close>: \<open>account/model\<close>, \<open>account/service\<close> (balance book, order registry, event
    processor). \<open>Order_Service\<close>: \<open>order\<close>, \<open>account/client\<close> and the handlers of \<open>grpc_server.go\<close>.
  \<^item> \<open>Settlement\<close>, \<open>Settlement_Props\<close>: \<open>settlement/service\<close> with both of its stores.
  \<^item> \<open>Rollup_Types\<close>, \<open>Rollup_Replay\<close>, \<open>Rollup_Props\<close>: \<open>rollup/types.go\<close>, \<open>hash.go\<close>, \<open>replay.go\<close>.
    \<open>Rollup_Journal\<close>: the journal and the batches of \<open>store.go\<close>. \<open>Rollup_Merkle\<close>: \<open>withdrawal_tree.go\<close>,
    \<open>escape_collateral.go\<close>.

  A struct is a record with the fields of the code, a method is a function of the same name that takes
  and returns the state. Names that clash carry a prefix of their component (\<open>d_\<close>, \<open>lb_\<close>, \<open>rs_\<close>, \<open>sql_\<close>, \<open>mem_\<close>).

  \<^bold>\<open>What the lemmas show.\<close>
  \<^item> Matching: every operation on a reachable engine returns; books stay well formed; placing an order
    refines the abstract matcher; trades respect priority, limits and quantities; no self-trade; what the
    times in force promise; cancelling, amending and refusing; the two books agree.
  \<^item> Pipeline: the ring buffer is first-in-first-out under every interleaving of its two parties,
    and every accepted command is handled.
  \<^item> Accounts and orders: balances are solvent, failed operations keep the funds, trades conserve assets, an
    accepted order has its cost reserved and a refused one leaves no trace.
  \<^item> Settlement: a store contract (locale \<open>position_store\<close>) gives that every winner is paid once; both
    stores are interpretations of it.
  \<^item> Rollup: the replay conserves assets, never reuses a nonce and is incremental; in every interleaving of
    transactions the batches follow the journal.
  \<^item> Deviations: the properties of kind error state what the code does where it does not do what it means to, for instance
    a journal row that no batch will contain, or a Merkle proof that is cut short.

  \<^bold>\<open>Interfaces.\<close> The locales \<open>freeze_account\<close>, \<open>bounded_queue\<close>, \<open>price_time_book\<close> and
  \<open>position_store\<close> hold the contracts between components; each is interpreted on the model's definitions.

  \<^bold>\<open>Parameters.\<close> Clocks, identifier generators, JSON coders, hash functions, publishers and database failures are
  arguments. A hypothesis about them is stated where it is used, for instance that a batch decodes to
  what was encoded.

  \<^bold>\<open>Loops and bounds.\<close> The loops over linked lists and bitmaps of the engine are \<open>partial_function\<close>s in the option
  monad, so that not returning is visible, and are proved to return on every reachable engine. All other
  loops are recursive on a list or have a termination proof. No fuel is used.

  \<^bold>\<open>Not modelled.\<close>
  \<^item> Goroutines, channels, timers and statistics: the pipeline is modelled one loop iteration of a book at
    a time, the ring buffer and the journal as interleavings of atomic steps.
  \<^item> SQL beyond the settlement store and the journal: the account store is a parameter, the matching, API and chain stores
    are left out. Column widths are not modelled.
  \<^item> The API, chain, oracle, custody, market maker, notification and web socket services: they translate
    between protocols or call external systems.
  \<^item> The post-trade and ledger services, candles and caches, which only derive data for readers.
  \<^item> Signature checks, the encodings for the verifier contracts and the Groth16 prover, which rest on external cryptographic
    libraries; the Solidity contracts, which have another semantics.
\<close>

end
